(* ===== verification/Prelude.thy ===== *)
theory Prelude
imports Main "HOL-Library.Word" "HOL-Library.List_Lexorder" "HOL-Library.Char_ord"
begin

text \<open>
  Shared vocabulary: bytes, Rust strings, and SQL tables as lists of rows.

  A Rust \<open>str\<close> is its UTF-8 byte sequence, so it is a HOL \<open>string\<close> whose characters are
  the bytes; \<open>len()\<close> is \<open>length\<close>. A table is the list of its rows in insertion order;
  \<open>WHERE\<close> is \<open>filter\<close>, \<open>UPDATE\<close> is \<open>upd_where\<close>, \<open>DELETE\<close> is \<open>filter\<close> by the
  negation and \<open>ORDER BY\<close> is a stable sort (PostgreSQL leaves the order of ties open).
  The collections \<open>sql_defs\<close> and \<open>handler_defs\<close> gather the equations that unfold
  one statement and one handler; \<open>obeys_rules\<close> the rules that compose relational
  facts about actions.
\<close>

unbundle bit_operations_syntax

named_theorems sql_defs "definitions of single SQL statements"
named_theorems handler_defs "definitions of handler helpers"
named_theorems obeys_rules "composition rules for relations between databases"
named_theorems row_simps "facts about rows of a table after a statement"

type_synonym u8 = "8 word"
type_synonym u16 = "16 word"
type_synonym u32 = "32 word"
type_synonym u64 = "64 word"
type_synonym bytes = "8 word list"
type_synonym uuid = "128 word"
type_synonym time = int

section \<open>Bytes of a string\<close>

definition as_bytes :: "string \<Rightarrow> bytes" where
  "as_bytes s = map of_char s"

lemma unat_of_char_u8: "unat (of_char c :: u8) = of_char c"
proof -
  have "(of_char c :: u8) = of_nat (of_char c)"
    by (rule of_nat_of_char [symmetric])
  then have "unat (of_char c :: u8) = unat (of_nat (of_char c) :: u8)"
    by (rule arg_cong)
  also have "\<dots> = of_char c mod 2 ^ LENGTH(8)"
    by (rule unat_of_nat)
  also have "\<dots> = of_char c"
    by simp
  finally show ?thesis .
qed

lemma of_char_u8_eq_iff [simp]: "(of_char c :: u8) = of_char d \<longleftrightarrow> c = d"
  by (metis unat_of_char_u8 of_char_eq_iff)

lemma length_as_bytes [simp]: "length (as_bytes s) = length s"
  by (simp add: as_bytes_def)

lemma as_bytes_Nil [simp]: "as_bytes [] = []"
  by (simp add: as_bytes_def)

lemma as_bytes_append [simp]: "as_bytes (s @ t) = as_bytes s @ as_bytes t"
  by (simp add: as_bytes_def)

lemma as_bytes_eq_iff [simp]: "as_bytes s = as_bytes t \<longleftrightarrow> s = t"
proof -
  have "inj (of_char :: char \<Rightarrow> u8)" by (rule injI) simp
  then show ?thesis by (simp add: as_bytes_def inj_map_eq_map)
qed

lemma set_as_bytes: "set (as_bytes s) = of_char ` set s"
  by (simp add: as_bytes_def)

section \<open>Tables\<close>

definition upd_where :: "('r \<Rightarrow> bool) \<Rightarrow> ('r \<Rightarrow> 'r) \<Rightarrow> 'r list \<Rightarrow> 'r list" where
  "upd_where p f rs = map (\<lambda>r. if p r then f r else r) rs"

definition count_where :: "('r \<Rightarrow> bool) \<Rightarrow> 'r list \<Rightarrow> nat" where
  "count_where p rs = length (filter p rs)"

definition order_asc :: "('r \<Rightarrow> 'k::linorder) \<Rightarrow> 'r list \<Rightarrow> 'r list" where
  "order_asc key rs = sort_key key rs"

definition order_desc :: "('r \<Rightarrow> 'k::linorder) \<Rightarrow> 'r list \<Rightarrow> 'r list" where
  "order_desc key rs = rev (sort_key key (rev rs))"

text \<open>\<open>fetch_optional\<close>: the first row of the result set, if there is one.\<close>

definition fetch_optional :: "'r list \<Rightarrow> 'r option" where
  "fetch_optional rs = (case rs of [] \<Rightarrow> None | r # _ \<Rightarrow> Some r)"

abbreviation keyed :: "('r \<Rightarrow> 'k) \<Rightarrow> 'r list \<Rightarrow> bool" where
  "keyed key rs \<equiv> distinct (map key rs)"

lemma fetch_optional_simps [simp]:
  "fetch_optional [] = None" "fetch_optional (r # rs) = Some r"
  by (simp_all add: fetch_optional_def)

lemma fetch_optional_SomeD: "fetch_optional rs = Some r \<Longrightarrow> r \<in> set rs"
  by (auto simp: fetch_optional_def split: list.splits)

lemma fetch_optional_None_iff [simp]: "fetch_optional rs = None \<longleftrightarrow> rs = []"
  by (simp add: fetch_optional_def split: list.splits)

lemma upd_where_simps [simp]:
  "upd_where p f [] = []"
  "upd_where p f (r # rs) = (if p r then f r else r) # upd_where p f rs"
  by (simp_all add: upd_where_def)

lemma length_upd_where [simp]: "length (upd_where p f rs) = length rs"
  by (simp add: upd_where_def)

lemma upd_where_append [simp]: "upd_where p f (rs @ qs) = upd_where p f rs @ upd_where p f qs"
  by (simp add: upd_where_def)

lemma set_upd_where:
  "set (upd_where p f rs) = f ` {r \<in> set rs. p r} \<union> {r \<in> set rs. \<not> p r}"
  by (auto simp: upd_where_def)

lemma upd_where_none: "(\<And>r. r \<in> set rs \<Longrightarrow> \<not> p r) \<Longrightarrow> upd_where p f rs = rs"
  by (simp add: upd_where_def map_idI)

lemma map_upd_where [simp]:
  assumes "\<And>r. key (f r) = key r"
  shows "map key (upd_where p f rs) = map key rs"
  using assms by (simp add: upd_where_def)

lemma map_upd_where_cong:
  assumes "\<And>r. r \<in> set rs \<Longrightarrow> p r \<Longrightarrow> key (f r) = key r"
  shows "map key (upd_where p f rs) = map key rs"
  using assms by (simp add: upd_where_def)

lemma keyed_filter [intro]: "keyed key rs \<Longrightarrow> keyed key (filter p rs)"
  by (simp add: distinct_map_filter)

lemma keyed_eqD:
  "keyed key rs \<Longrightarrow> r \<in> set rs \<Longrightarrow> q \<in> set rs \<Longrightarrow> key r = key q \<Longrightarrow> r = q"
  by (meson distinct_map inj_onD)

text \<open>A lookup by a unique key finds the row that has it, whatever the order of the rows.\<close>

lemma fetch_keyed:
  assumes "keyed key rs" and "r \<in> set rs" and "p r" and "\<And>q. p q \<Longrightarrow> key q = key r"
  shows "fetch_optional (filter p rs) = Some r"
proof (cases "filter p rs")
  case Nil
  with assms show ?thesis by (auto simp: filter_empty_conv)
next
  case (Cons q qs)
  then have "q \<in> set (filter p rs)" by simp
  then have "q \<in> set rs" "p q" by simp_all
  with assms have "q = r" by (metis keyed_eqD)
  with Cons show ?thesis by simp
qed

lemma fetch_filter_SomeD:
  "fetch_optional (filter p rs) = Some r \<Longrightarrow> r \<in> set rs \<and> p r"
  by (auto dest: fetch_optional_SomeD)

lemma fetch_filter_append_fresh:
  "filter p rs = [] \<Longrightarrow> p r \<Longrightarrow> fetch_optional (filter p (rs @ [r])) = Some r"
  by simp

lemma set_order_asc [simp]: "set (order_asc key rs) = set rs"
  by (simp add: order_asc_def)

lemma set_order_desc [simp]: "set (order_desc key rs) = set rs"
  by (simp add: order_desc_def)

lemma length_order [simp]:
  "length (order_asc key rs) = length rs" "length (order_desc key rs) = length rs"
  by (simp_all add: order_asc_def order_desc_def)

lemma sorted_order_asc: "sorted (map key (order_asc key rs))"
  by (simp add: order_asc_def)

lemma sorted_order_desc: "sorted_wrt (\<ge>) (map key (order_desc key rs))"
  by (simp add: order_desc_def sorted_wrt_rev rev_map [symmetric])

lemma order_asc_sorted: "sorted (map key rs) \<Longrightarrow> order_asc key rs = rs"
  by (simp add: order_asc_def sorted_sort_id sort_key_id_if_sorted)

lemma order_desc_sorted:
  assumes "sorted_wrt (<) (map key rs)"
  shows "order_desc key rs = rev rs"
proof -
  have k: "sorted (map key rs)" "distinct (map key rs)"
    using assms by (auto simp: strict_sorted_iff)
  have "sort_key key (rev rs) = rs"
  proof (rule map_sorted_distinct_set_unique)
    show "inj_on key (set (sort_key key (rev rs)) \<union> set rs)"
      using k by (simp add: distinct_map)
    show "distinct (map key (sort_key key (rev rs)))"
      using k by (simp add: distinct_map)
  qed (use k in simp_all)
  then show ?thesis by (simp add: order_desc_def)
qed

lemma count_where_le: "count_where p rs \<le> length rs"
  by (simp add: count_where_def)

lemma count_where_append [simp]: "count_where p (rs @ qs) = count_where p rs + count_where p qs"
  by (simp add: count_where_def)

lemma count_where_Nil [simp]: "count_where p [] = 0"
  by (simp add: count_where_def)

lemma count_where_Cons [simp]: "count_where p (r # rs) = (if p r then 1 else 0) + count_where p rs"
  by (simp add: count_where_def)

section \<open>Options\<close>

text \<open>SQL's \<open>COALESCE(a, b)\<close> for a nullable column.\<close>

definition coalesce :: "'a option \<Rightarrow> 'a option \<Rightarrow> 'a option" where
  "coalesce a b = (case a of None \<Rightarrow> b | Some _ \<Rightarrow> a)"

lemma coalesce_simps [simp]: "coalesce None b = b" "coalesce (Some x) b = Some x"
  by (simp_all add: coalesce_def)

lemma coalesce_idem [simp]: "coalesce (coalesce a b) c = coalesce a (coalesce b c)"
  by (simp add: coalesce_def split: option.splits)

end
