(* ===== verification/Text_Codec.thy ===== *)
theory Text_Codec
imports Prelude
begin

text \<open>
  Text helpers the crates share: the lowercase hexadecimal encoder (\<open>auth::hex_encode\<close>,
  repeated in \<open>identity\<close>, \<open>server::discovery\<close> and, as \<open>registry::hex\<close>, in \<open>platform\<close>),
  the hexadecimal reader of \<open>server::config\<close>, and what the code uses of Rust's \<open>str\<close>:
  \<open>trim\<close>, ASCII case mapping, \<open>strip_prefix\<close>, \<open>split\<close>, \<open>join\<close> and decimal formatting.
\<close>

section \<open>Hexadecimal\<close>

definition hex_table :: string where
  "hex_table = ''0123456789abcdef''"

definition hex_encode :: "bytes \<Rightarrow> string" where
  "hex_encode bs =
     concat (map (\<lambda>b. [hex_table ! unat (drop_bit 4 b), hex_table ! unat (b AND 15)]) bs)"

definition hex_nibble :: "u8 \<Rightarrow> string + u8" where
  "hex_nibble b =
     (if 48 \<le> b \<and> b \<le> 57 then Inr (b - 48)
      else if 97 \<le> b \<and> b \<le> 102 then Inr (b - 97 + 10)
      else if 65 \<le> b \<and> b \<le> 70 then Inr (b - 65 + 10)
      else Inl ''invalid hex digit'')"

text \<open>The loop of \<open>decode_hex32\<close> over \<open>chunks_exact(2)\<close>: it stops at the first bad digit.\<close>

fun hex_pairs :: "bytes \<Rightarrow> string + bytes" where
  "hex_pairs (a # b # rest) =
     (case hex_nibble a of Inl e \<Rightarrow> Inl e
      | Inr hi \<Rightarrow> (case hex_nibble b of Inl e \<Rightarrow> Inl e
         | Inr lo \<Rightarrow> (case hex_pairs rest of Inl e \<Rightarrow> Inl e
             | Inr out \<Rightarrow> Inr ((push_bit 4 hi OR lo) # out))))"
| "hex_pairs _ = Inr []"

definition decode_hex32 :: "string \<Rightarrow> string + bytes" where
  "decode_hex32 s =
     (if length s \<noteq> 64 then Inl ''expected 64 hex chars''
      else hex_pairs (as_bytes s))"

lemma hex_encode_Nil [simp]: "hex_encode [] = []"
  by (simp add: hex_encode_def)

lemma hex_encode_Cons:
  "hex_encode (b # bs) =
     hex_table ! unat (drop_bit 4 b) # hex_table ! unat (b AND 15) # hex_encode bs"
  by (simp add: hex_encode_def)

lemma hex_encode_append [simp]: "hex_encode (bs @ cs) = hex_encode bs @ hex_encode cs"
  by (simp add: hex_encode_def)

lemma length_hex_encode [simp]: "length (hex_encode bs) = 2 * length bs"
  by (induction bs) (simp_all add: hex_encode_Cons)

lemma high_nibble_bound: "unat (drop_bit 4 (b :: u8)) < 16"
proof -
  have "unat b < 256" using unsigned_less [of b, where ?'a = nat] by simp
  then show ?thesis by (simp add: drop_bit_eq_div unat_div_distrib)
qed

lemma unat_and_15: "unat ((b :: u8) AND 15) = unat b mod 16"
proof -
  have "b AND 15 = take_bit 4 b"
    by (simp add: take_bit_eq_mask mask_eq_exp_minus_1)
  then show ?thesis by (simp add: take_bit_eq_mod unat_mod_distrib)
qed

lemma low_nibble_bound: "unat ((b :: u8) AND 15) < 16"
  by (simp add: unat_and_15)

lemma nibbles_join: "push_bit 4 (drop_bit 4 (b :: u8)) OR (b AND 15) = b"
proof -
  have "b AND 15 = take_bit 4 b"
    by (simp add: take_bit_eq_mask mask_eq_exp_minus_1)
  then show ?thesis
    by (auto intro!: bit_word_eqI simp: bit_simps)
qed

lemma hex_nibble_table: "n < 16 \<Longrightarrow> hex_nibble (of_char (hex_table ! n)) = Inr (of_nat n)"
proof -
  have "\<forall>n \<in> set [0..<16]. hex_nibble (of_char (hex_table ! n)) = Inr (of_nat n)"
    by code_simp
  then show "n < 16 \<Longrightarrow> ?thesis" by simp
qed

lemma hex_nibble_high [simp]:
  "hex_nibble (of_char (hex_table ! unat (drop_bit 4 (b :: u8)))) = Inr (drop_bit 4 b)"
  by (simp add: hex_nibble_table high_nibble_bound)

lemma hex_nibble_low [simp]:
  "hex_nibble (of_char (hex_table ! unat ((b :: u8) AND 15))) = Inr (b AND 15)"
  by (simp add: hex_nibble_table low_nibble_bound)

lemma hex_pairs_encode [simp]: "hex_pairs (as_bytes (hex_encode bs)) = Inr bs"
proof (induction bs)
  case (Cons b bs)
  then show ?case
    by (simp add: hex_encode_Cons as_bytes_def nibbles_join)
qed simp

lemma decode_hex32_encode: "length bs = 32 \<Longrightarrow> decode_hex32 (hex_encode bs) = Inr bs"
  by (simp add: decode_hex32_def)

lemma hex_encode_inj [simp]: "hex_encode bs = hex_encode cs \<longleftrightarrow> bs = cs"
  by (metis hex_pairs_encode sum.inject(2))

lemma hex_table_nth_in: "n < 16 \<Longrightarrow> hex_table ! n \<in> set hex_table"
  unfolding hex_table_def by (rule nth_mem) simp

lemma set_hex_encode: "set (hex_encode bs) \<subseteq> set hex_table"
  by (induction bs)
    (simp_all add: hex_encode_Cons hex_table_nth_in high_nibble_bound low_nibble_bound)

lemma hex_pairs_length: "hex_pairs bs = Inr out \<Longrightarrow> length out = length bs div 2"
  by (induction bs arbitrary: out rule: hex_pairs.induct)
    (auto split: sum.splits)

lemma decode_hex32_length: "decode_hex32 s = Inr out \<Longrightarrow> length out = 32"
  by (auto simp: decode_hex32_def split: if_splits dest: hex_pairs_length)

section \<open>Whitespace\<close>

text \<open>
  \<open>str::trim\<close> removes leading and trailing characters with the Unicode property
  \<open>White_Space\<close>; \<open>white_space\<close> lists their UTF-8 forms. On valid UTF-8 a byte match of
  such a form is a match of the character.
\<close>

definition white_space :: "string list" where
  "white_space =
     [[CHR 0x09], [CHR 0x0A], [CHR 0x0B], [CHR 0x0C], [CHR 0x0D], [CHR 0x20],
      [CHR 0xC2, CHR 0x85], [CHR 0xC2, CHR 0xA0], [CHR 0xE1, CHR 0x9A, CHR 0x80],
      [CHR 0xE2, CHR 0x80, CHR 0x80], [CHR 0xE2, CHR 0x80, CHR 0x81],
      [CHR 0xE2, CHR 0x80, CHR 0x82], [CHR 0xE2, CHR 0x80, CHR 0x83],
      [CHR 0xE2, CHR 0x80, CHR 0x84], [CHR 0xE2, CHR 0x80, CHR 0x85],
      [CHR 0xE2, CHR 0x80, CHR 0x86], [CHR 0xE2, CHR 0x80, CHR 0x87],
      [CHR 0xE2, CHR 0x80, CHR 0x88], [CHR 0xE2, CHR 0x80, CHR 0x89],
      [CHR 0xE2, CHR 0x80, CHR 0x8A], [CHR 0xE2, CHR 0x80, CHR 0xA8],
      [CHR 0xE2, CHR 0x80, CHR 0xA9], [CHR 0xE2, CHR 0x80, CHR 0xAF],
      [CHR 0xE2, CHR 0x81, CHR 0x9F], [CHR 0xE3, CHR 0x80, CHR 0x80]]"

definition begins_with :: "string \<Rightarrow> string \<Rightarrow> bool" where
  "begins_with w s \<longleftrightarrow> w \<noteq> [] \<and> take (length w) s = w"

function strip_front :: "string list \<Rightarrow> string \<Rightarrow> string" where
  "strip_front ws s =
     (case find (\<lambda>w. begins_with w s) ws of
        None \<Rightarrow> s | Some w \<Rightarrow> strip_front ws (drop (length w) s))"
  by pat_completeness auto
termination
proof (relation "measure (\<lambda>(ws, s). length s)", simp)
  fix ws :: "string list" and s w :: string
  assume "find (\<lambda>w. begins_with w s) ws = Some w"
  then have w: "w \<noteq> []" "take (length w) s = w"
    by (auto simp: find_Some_iff begins_with_def)
  then have "s \<noteq> []" by auto
  with w(1) show "((ws, drop (length w) s), (ws, s)) \<in> measure (\<lambda>(ws, s). length s)"
    by simp
qed

declare strip_front.simps [simp del]

definition trim_start :: "string \<Rightarrow> string" where
  "trim_start s = strip_front white_space s"

definition trim_end :: "string \<Rightarrow> string" where
  "trim_end s = rev (strip_front (map rev white_space) (rev s))"

definition trim :: "string \<Rightarrow> string" where
  "trim s = trim_end (trim_start s)"

lemma strip_front_stop:
  "(\<And>w. w \<in> set ws \<Longrightarrow> \<not> begins_with w s) \<Longrightarrow> strip_front ws s = s"
  by (subst strip_front.simps) (auto split: option.splits simp: find_Some_iff)

lemma strip_front_done: "w \<in> set ws \<Longrightarrow> \<not> begins_with w (strip_front ws s)"
proof (induction ws s rule: strip_front.induct)
  case (1 ws s)
  show ?case
  proof (cases "find (\<lambda>w. begins_with w s) ws")
    case None
    then have "\<not> begins_with w s" if "w \<in> set ws" for w
      using that by (simp add: find_None_iff)
    then show ?thesis
      using "1.prems" None by (simp add: strip_front.simps [of ws s])
  next
    case (Some v)
    with "1.IH" [OF Some "1.prems"] show ?thesis
      by (subst strip_front.simps) simp
  qed
qed

lemma strip_front_suffix: "\<exists>p. s = p @ strip_front ws s"
proof (induction ws s rule: strip_front.induct)
  case (1 ws s)
  show ?case
  proof (cases "find (\<lambda>w. begins_with w s) ws")
    case None
    then show ?thesis by (simp add: strip_front.simps [of ws s])
  next
    case (Some v)
    from "1.IH" [OF Some] obtain p where "drop (length v) s = p @ strip_front ws s"
      using Some by (auto simp: strip_front.simps [of ws s])
    then have "s = (take (length v) s @ p) @ strip_front ws s"
      by (metis append.assoc append_take_drop_id)
    then show ?thesis ..
  qed
qed

lemma strip_front_idem [simp]: "strip_front ws (strip_front ws s) = strip_front ws s"
  by (rule strip_front_stop) (rule strip_front_done)

lemma trim_end_prefix: "\<exists>q. s = trim_end s @ q"
proof -
  obtain p where "rev s = p @ strip_front (map rev white_space) (rev s)"
    using strip_front_suffix by blast
  then have "s = trim_end s @ rev p"
    unfolding trim_end_def by (metis rev_append rev_rev_ident)
  then show ?thesis ..
qed

lemma trim_end_idem [simp]: "trim_end (trim_end s) = trim_end s"
  by (simp add: trim_end_def)

lemma begins_with_append: "begins_with w s \<Longrightarrow> begins_with w (s @ q)"
  by (auto simp: begins_with_def take_append)
    (metis append_Nil2 append_take_drop_id length_take min.absorb2 nat_le_linear self_append_conv
      take_all_iff diff_is_0_eq' take0)

lemma trim_start_trim [simp]: "trim_start (trim s) = trim s"
proof -
  obtain q where q: "trim_start s = trim s @ q"
    unfolding trim_def using trim_end_prefix by blast
  have "\<not> begins_with w (trim s)" if "w \<in> set white_space" for w
    using begins_with_append [of w "trim s" q] strip_front_done [OF that, of s]
    by (auto simp: q [symmetric] trim_start_def)
  then show ?thesis
    unfolding trim_start_def by (rule strip_front_stop)
qed

lemma trim_idem [simp]: "trim (trim s) = trim s"
  unfolding trim_def by (metis trim_def trim_end_idem trim_start_trim)

lemma trim_length: "length (trim s) \<le> length s"
proof -
  obtain p q where "s = p @ trim_start s" "trim_start s = trim s @ q"
    unfolding trim_def trim_start_def using trim_end_prefix strip_front_suffix by blast
  then show ?thesis by (metis length_append le_add1 le_add2 order_trans)
qed

section \<open>ASCII case, prefixes, splitting and joining\<close>

definition ascii_upper :: "char \<Rightarrow> char" where
  "ascii_upper c =
     (if CHR ''a'' \<le> c \<and> c \<le> CHR ''z'' then char_of ((of_char c :: nat) - 32) else c)"

definition ascii_lower :: "char \<Rightarrow> char" where
  "ascii_lower c =
     (if CHR ''A'' \<le> c \<and> c \<le> CHR ''Z'' then char_of ((of_char c :: nat) + 32) else c)"

text \<open>
  PostgreSQL's \<open>lower\<close> in the cluster that \<open>bootstrap\<close> creates with \<open>--locale=C\<close>:
  only ASCII letters change.
\<close>

definition lower :: "string \<Rightarrow> string" where
  "lower s = map ascii_lower s"

definition strip_prefix :: "string \<Rightarrow> string \<Rightarrow> string option" where
  "strip_prefix p s = (if take (length p) s = p then Some (drop (length p) s) else None)"

text \<open>\<open>s.split(c).next()\<close>: the part before the first separator (all of \<open>s\<close> without one).\<close>

definition split_first :: "char \<Rightarrow> string \<Rightarrow> string" where
  "split_first c s = takeWhile (\<lambda>x. x \<noteq> c) s"

fun join :: "string \<Rightarrow> string list \<Rightarrow> string" where
  "join sep [] = []"
| "join sep [x] = x"
| "join sep (x # y # ys) = x @ sep @ join sep (y # ys)"

lemma strip_prefix_append [simp]: "strip_prefix p (p @ s) = Some s"
  by (simp add: strip_prefix_def)

lemma strip_prefix_SomeD: "strip_prefix p s = Some t \<Longrightarrow> s = p @ t"
  by (auto simp: strip_prefix_def split: if_splits) (metis append_take_drop_id)

lemma ascii_lower_idem [simp]: "ascii_lower (ascii_lower c) = ascii_lower c"
  by (auto simp: ascii_lower_def less_eq_char_def)

lemma ascii_upper_lower [simp]: "ascii_upper (ascii_lower c) = ascii_upper c"
  by (auto simp: ascii_lower_def ascii_upper_def less_eq_char_def)

lemma ascii_upper_idem [simp]: "ascii_upper (ascii_upper c) = ascii_upper c"
  by (auto simp: ascii_upper_def less_eq_char_def)

lemma lower_idem [simp]: "lower (lower s) = lower s"
  by (simp add: lower_def)

lemma length_lower [simp]: "length (lower s) = length s"
  by (simp add: lower_def)

section \<open>Decimal numbers\<close>

definition dec_digit :: "nat \<Rightarrow> char" where
  "dec_digit n = ''0123456789'' ! n"

fun dec :: "nat \<Rightarrow> string" where
  "dec n = (if n < 10 then [dec_digit n] else dec (n div 10) @ [dec_digit (n mod 10)])"

declare dec.simps [simp del]

definition dec_int :: "int \<Rightarrow> string" where
  "dec_int i = (if i < 0 then ''-'' @ dec (nat (- i)) else dec (nat i))"

text \<open>\<open>format!("{value:0width$}")\<close>.\<close>

definition dec_padded :: "nat \<Rightarrow> nat \<Rightarrow> string" where
  "dec_padded width n = replicate (width - length (dec n)) (CHR ''0'') @ dec n"

definition digit_val :: "char \<Rightarrow> nat" where
  "digit_val c = (of_char c :: nat) - 48"

definition dec_val :: "string \<Rightarrow> nat" where
  "dec_val s = foldl (\<lambda>a c. 10 * a + digit_val c) 0 s"

definition is_ascii_digit :: "char \<Rightarrow> bool" where
  "is_ascii_digit c \<longleftrightarrow> CHR ''0'' \<le> c \<and> c \<le> CHR ''9''"

lemma digit_val_dec_digit: "n < 10 \<Longrightarrow> digit_val (dec_digit n) = n \<and> is_ascii_digit (dec_digit n)"
proof -
  have "\<forall>n \<in> set [0..<10]. digit_val (dec_digit n) = n \<and> is_ascii_digit (dec_digit n)"
    by code_simp
  then show "n < 10 \<Longrightarrow> ?thesis" by simp
qed

lemma dec_nonempty [simp]: "dec n \<noteq> []"
  by (subst dec.simps) simp

lemma dec_digits: "\<forall>c \<in> set (dec n). is_ascii_digit c"
proof (induction n rule: dec.induct)
  case (1 n)
  then show ?case
    by (cases "n < 10") (auto simp: dec.simps [of n] digit_val_dec_digit)
qed

lemma dec_length: "n < 10 ^ k \<Longrightarrow> 0 < k \<Longrightarrow> length (dec n) \<le> k"
proof (induction n arbitrary: k rule: dec.induct)
  case (1 n)
  show ?case
  proof (cases "n < 10")
    case True
    with "1.prems" show ?thesis by (simp add: dec.simps [of n])
  next
    case False
    from "1.prems" obtain j where k: "k = Suc j" by (cases k) auto
    with False "1.prems" have "0 < j" by (cases j) auto
    moreover from "1.prems" k have "n div 10 < 10 ^ j" by (simp add: less_mult_imp_div_less)
    ultimately have "length (dec (n div 10)) \<le> j" using "1.IH" False by blast
    with False k show ?thesis by (simp add: dec.simps [of n])
  qed
qed

lemma dec_val_snoc [simp]: "dec_val (s @ [c]) = 10 * dec_val s + digit_val c"
  by (simp add: dec_val_def)

lemma dec_val_dec [simp]: "dec_val (dec n) = n"
proof (induction n rule: dec.induct)
  case (1 n)
  show ?case
  proof (cases "n < 10")
    case True
    then show ?thesis by (simp add: dec.simps [of n] dec_val_def digit_val_dec_digit)
  next
    case False
    with "1.IH" show ?thesis by (simp add: dec.simps [of n] digit_val_dec_digit)
  qed
qed

lemma dec_inj [simp]: "dec m = dec n \<longleftrightarrow> m = n"
  by (metis dec_val_dec)

lemma dec_val_zeros: "dec_val (replicate k (CHR ''0'') @ s) = dec_val s"
proof -
  have "foldl (\<lambda>a c. 10 * a + digit_val c) 0 (replicate k (CHR ''0'')) = 0"
    by (induction k) (simp_all add: digit_val_def)
  then show ?thesis by (simp add: dec_val_def)
qed

lemma dec_val_padded [simp]: "dec_val (dec_padded k n) = n"
  by (simp add: dec_padded_def dec_val_zeros)

lemma length_dec_padded: "n < 10 ^ k \<Longrightarrow> 0 < k \<Longrightarrow> length (dec_padded k n) = k"
  by (simp add: dec_padded_def dec_length)

lemma dec_padded_digits: "\<forall>c \<in> set (dec_padded k n). is_ascii_digit c"
  using dec_digits [of n] by (auto simp: dec_padded_def is_ascii_digit_def)

lemma dec_int_inj: "dec_int i = dec_int j \<Longrightarrow> i = j"
proof -
  assume eq: "dec_int i = dec_int j"
  have nominus: "CHR ''-'' \<notin> set (dec n)" for n
    using dec_digits [of n] by (auto simp: is_ascii_digit_def less_eq_char_def)
  show ?thesis
  proof (cases "i < 0"; cases "j < 0")
    assume "i < 0" "j < 0"
    with eq show ?thesis by (simp add: dec_int_def nat_eq_iff2)
  next
    assume "i < 0" "\<not> j < 0"
    with eq nominus [of "nat j"] show ?thesis by (metis dec_int_def append_Cons list.set_intros(1))
  next
    assume "\<not> i < 0" "j < 0"
    with eq nominus [of "nat i"] show ?thesis by (metis dec_int_def append_Cons list.set_intros(1))
  next
    assume "\<not> i < 0" "\<not> j < 0"
    with eq show ?thesis by (simp add: dec_int_def)
  qed
qed

end
