(* ===== verification/Externals.thy ===== *)
theory Externals
imports Complex_Main Text_Codec
begin

text \<open>
  Everything the repository calls but does not contain: the cryptographic crates, the random
  sources, the clocks, the UUID and RFC 3339 text forms, \<open>serde_json\<close>, IEEE rounding, and
  the failures of the database connection. They are the fields of one record \<open>ext\<close>, an
  argument of every definition that uses them. Nondeterministic sources are indexed by the
  number of external interactions made so far, so two calls may answer differently.

  The predicates at the end state documented behaviour of these crates; a theorem that needs
  one has it as a hypothesis, and \<open>demo_ext\<close> satisfies all of them.
\<close>

section \<open>JSON values and the canonical form of an audit event\<close>

datatype json =
    JNull
  | JNum int
  | JStr string
  | JArr "json list"
  | JObj "(string \<times> json) list"

record canonical =
  can_actor_display_name :: "string option"
  can_actor_user_id :: "uuid option"
  can_app_id :: "string option"
  can_event_data :: json
  can_event_type :: string
  can_occurred_at :: int
  can_seqno :: int

section \<open>The external interface\<close>

text \<open>
  What can happen to one database call: it answers; the connection fails before it takes
  effect; or it takes effect and the answer is lost.
\<close>

datatype fault = NoFault | LostBefore | LostAfter

text \<open>The outcome of \<open>PasswordVerifier::verify_password\<close>.\<close>

datatype pw_outcome = PwMatch | PwMismatch | PwOther

record ext =
  pg_now :: "nat \<Rightarrow> time"                       \<comment> \<open>PostgreSQL \<open>now()\<close>, microseconds\<close>
  utc_now :: "nat \<Rightarrow> int"                       \<comment> \<open>\<open>chrono::Utc::now()\<close>, nanoseconds\<close>
  mono_ms :: "nat \<Rightarrow> u64"                       \<comment> \<open>\<open>Instant::elapsed\<close> in milliseconds\<close>
  gen_uuid :: "nat \<Rightarrow> uuid"                     \<comment> \<open>\<open>gen_random_uuid()\<close>\<close>
  os_rng :: "nat \<Rightarrow> nat \<Rightarrow> u8"                  \<comment> \<open>\<open>OsRng::fill_bytes\<close>, byte by byte\<close>
  pg_fault :: "nat \<Rightarrow> fault"
  sha256 :: "bytes \<Rightarrow> bytes"
  hmac_sha1 :: "bytes \<Rightarrow> bytes \<Rightarrow> bytes"
  argon2_hash :: "nat \<Rightarrow> bytes \<Rightarrow> string option"
  phc_parses :: "string \<Rightarrow> bool"
  argon2_verify :: "bytes \<Rightarrow> string \<Rightarrow> pw_outcome"
  aead_encrypt :: "bytes \<Rightarrow> bytes \<Rightarrow> bytes \<Rightarrow> bytes option"
  aead_decrypt :: "bytes \<Rightarrow> bytes \<Rightarrow> bytes \<Rightarrow> bytes option"
  ed25519_key :: "bytes \<Rightarrow> bool"                \<comment> \<open>\<open>VerifyingKey::from_bytes\<close> accepts\<close>
  ed25519_verify :: "bytes \<Rightarrow> bytes \<Rightarrow> bytes \<Rightarrow> bool"
  ed25519_public :: "bytes \<Rightarrow> bytes"
  ed25519_sign :: "bytes \<Rightarrow> bytes \<Rightarrow> bytes"
  uuid_parse :: "string \<Rightarrow> uuid option"
  uuid_str :: "uuid \<Rightarrow> string"
  uuid_bytes :: "uuid \<Rightarrow> bytes"
  rfc3339 :: "time \<Rightarrow> string"
  json_vec :: "canonical \<Rightarrow> bytes option"
  jsonb_text :: "json \<Rightarrow> string"               \<comment> \<open>\<open>event_data::text\<close>\<close>
  pg_ilike :: "string \<Rightarrow> string \<Rightarrow> bool"      \<comment> \<open>\<open>s ILIKE pattern\<close>\<close>
  fl64 :: "rat \<Rightarrow> rat"                         \<comment> \<open>rounding to the nearest double\<close>

text \<open>\<open>OsRng.fill_bytes(&mut [0u8; n])\<close> at interaction \<open>i\<close>.\<close>

definition fill_bytes :: "ext \<Rightarrow> nat \<Rightarrow> nat \<Rightarrow> bytes" where
  "fill_bytes X i n = map (os_rng X i) [0..<n]"

lemma length_fill_bytes [simp]: "length (fill_bytes X i n) = n"
  by (simp add: fill_bytes_def)

section \<open>Documented behaviour\<close>

definition sha256_width :: "ext \<Rightarrow> bool" where
  "sha256_width X \<longleftrightarrow> (\<forall>bs. length (sha256 X bs) = 32)"

definition hmac_width :: "ext \<Rightarrow> bool" where
  "hmac_width X \<longleftrightarrow> (\<forall>k m. length (hmac_sha1 X k m) = 20)"

definition argon2_sound :: "ext \<Rightarrow> bool" where
  "argon2_sound X \<longleftrightarrow>
     (\<forall>i pw phc. argon2_hash X i pw = Some phc \<longrightarrow>
        phc_parses X phc \<and> argon2_verify X pw phc = PwMatch)"

definition aead_sound :: "ext \<Rightarrow> bool" where
  "aead_sound X \<longleftrightarrow>
     (\<forall>k n pt ct. aead_encrypt X k n pt = Some ct \<longrightarrow> aead_decrypt X k n ct = Some pt)"

definition ed25519_sound :: "ext \<Rightarrow> bool" where
  "ed25519_sound X \<longleftrightarrow>
     (\<forall>seed m. ed25519_key X (ed25519_public X seed)
        \<and> ed25519_verify X (ed25519_public X seed) m (ed25519_sign X seed m)
        \<and> length (ed25519_public X seed) = 32 \<and> length (ed25519_sign X seed m) = 64)"

definition fl64_ieee :: "ext \<Rightarrow> bool" where
  "fl64_ieee X \<longleftrightarrow>
     (\<forall>x y. x \<le> y \<longrightarrow> fl64 X x \<le> fl64 X y)
     \<and> (\<forall>n :: int. \<bar>n\<bar> \<le> 2 ^ 53 \<longrightarrow> fl64 X (of_int n) = of_int n)"

definition no_faults :: "ext \<Rightarrow> bool" where
  "no_faults X \<longleftrightarrow> (\<forall>i. pg_fault X i = NoFault)"

definition uuid_text_sound :: "ext \<Rightarrow> bool" where
  "uuid_text_sound X \<longleftrightarrow> (\<forall>u. uuid_parse X (uuid_str X u) = Some u)"

section \<open>A concrete instance\<close>

text \<open>
  Toy functions that meet the documented behaviour; the witnesses evaluate the model on
  them. They stand for no real cryptography.
\<close>

definition pad32 :: "bytes \<Rightarrow> bytes" where
  "pad32 bs = take 32 (bs @ replicate 32 0)"

definition demo_ext :: ext where
  "demo_ext =
     \<lparr>pg_now = (\<lambda>i. 1000 * int i), utc_now = (\<lambda>i. 1000000 * int i), mono_ms = (\<lambda>i. 0),
      gen_uuid = of_nat, os_rng = (\<lambda>i j. of_nat (i + j)), pg_fault = (\<lambda>_. NoFault),
      sha256 = (\<lambda>bs. pad32 (rev bs)), hmac_sha1 = (\<lambda>k m. take 20 (m @ k @ replicate 20 0)),
      argon2_hash = (\<lambda>i pw. Some (hex_encode pw)), phc_parses = (\<lambda>_. True),
      argon2_verify = (\<lambda>pw phc. if phc = hex_encode pw then PwMatch else PwMismatch),
      aead_encrypt = (\<lambda>k n pt. Some (rev pt)), aead_decrypt = (\<lambda>k n ct. Some (rev ct)),
      ed25519_key = (\<lambda>_. True), ed25519_verify = (\<lambda>k m s. s = pad32 k @ pad32 m),
      ed25519_public = pad32, ed25519_sign = (\<lambda>seed m. pad32 seed @ pad32 m),
      uuid_parse = (\<lambda>s. Some (of_nat (dec_val s))), uuid_str = (\<lambda>u. dec (unat u)),
      uuid_bytes = (\<lambda>u. replicate 16 0), rfc3339 = dec_int,
      json_vec = (\<lambda>c. Some (as_bytes (can_event_type c @ dec_int (can_seqno c)))),
      jsonb_text = (\<lambda>_. []), pg_ilike = (\<lambda>_ _. True), fl64 = id\<rparr>"

lemma length_pad32 [simp]: "length (pad32 bs) = 32"
  by (simp add: pad32_def)

lemma pad32_idem [simp]: "pad32 (pad32 bs) = pad32 bs"
  by (simp add: pad32_def)

lemma demo_ext_fields [simp]:
  "pg_now demo_ext = (\<lambda>i. 1000 * int i)" "utc_now demo_ext = (\<lambda>i. 1000000 * int i)"
  "mono_ms demo_ext = (\<lambda>i. 0)" "gen_uuid demo_ext = of_nat"
  "os_rng demo_ext = (\<lambda>i j. of_nat (i + j))" "pg_fault demo_ext = (\<lambda>_. NoFault)"
  "sha256 demo_ext = (\<lambda>bs. pad32 (rev bs))" "hmac_sha1 demo_ext = (\<lambda>k m. take 20 (m @ k @ replicate 20 0))"
  "argon2_hash demo_ext = (\<lambda>i pw. Some (hex_encode pw))" "phc_parses demo_ext = (\<lambda>_. True)"
  "argon2_verify demo_ext = (\<lambda>pw phc. if phc = hex_encode pw then PwMatch else PwMismatch)"
  "aead_encrypt demo_ext = (\<lambda>k n pt. Some (rev pt))"
  "aead_decrypt demo_ext = (\<lambda>k n ct. Some (rev ct))"
  "ed25519_key demo_ext = (\<lambda>_. True)"
  "ed25519_verify demo_ext = (\<lambda>k m s. s = pad32 k @ pad32 m)"
  "ed25519_public demo_ext = pad32"
  "ed25519_sign demo_ext = (\<lambda>seed m. pad32 seed @ pad32 m)"
  "uuid_parse demo_ext = (\<lambda>s. Some (of_nat (dec_val s)))"
  "uuid_str demo_ext = (\<lambda>u. dec (unat u))" "uuid_bytes demo_ext = (\<lambda>u. replicate 16 0)"
  "rfc3339 demo_ext = dec_int"
  "json_vec demo_ext = (\<lambda>c. Some (as_bytes (can_event_type c @ dec_int (can_seqno c))))"
  "jsonb_text demo_ext = (\<lambda>_. [])" "pg_ilike demo_ext = (\<lambda>_ _. True)" "fl64 demo_ext = id"
  by (simp_all add: demo_ext_def)

lemma demo_ext_documented:
  "sha256_width demo_ext" "hmac_width demo_ext" "argon2_sound demo_ext" "aead_sound demo_ext"
  "ed25519_sound demo_ext" "fl64_ieee demo_ext" "no_faults demo_ext" "uuid_text_sound demo_ext"
  by (simp_all add: sha256_width_def hmac_width_def argon2_sound_def aead_sound_def
      ed25519_sound_def fl64_ieee_def no_faults_def uuid_text_sound_def min_def)

end
