(* ===== verification/Rate_Limit.thy ===== *)
theory Rate_Limit
imports Externals
begin

text \<open>
  \<open>auth::ratelimit\<close>: the in-memory token-bucket limiter. The mutex makes each method one
  step on the bucket map. A double is the rational it denotes and every floating-point
  operation rounds its exact result by \<open>fl64\<close>; capacities are integers, which doubles
  represent exactly.
\<close>

record bucket =
  tokens :: rat
  last_ms :: u64

record rate_limiter =
  rl_capacity :: rat
  rl_refill_per_ms :: rat
  rl_buckets :: "string \<rightharpoonup> bucket"

definition DEFAULT_AUTH_BURST :: u32 where
  "DEFAULT_AUTH_BURST = 10"

definition DEFAULT_AUTH_REFILL_PER_SEC :: "ext \<Rightarrow> rat" where
  "DEFAULT_AUTH_REFILL_PER_SEC X = fl64 X (1 / 10)"

definition rate_limiter_new :: "ext \<Rightarrow> u32 \<Rightarrow> rat \<Rightarrow> rate_limiter" where
  "rate_limiter_new X capacity refill_per_sec =
     \<lparr>rl_capacity = of_nat (unat capacity),
      rl_refill_per_ms = fl64 X (refill_per_sec / 1000),
      rl_buckets = Map.empty\<rparr>"

definition auth_default :: "ext \<Rightarrow> rate_limiter" where
  "auth_default X = rate_limiter_new X DEFAULT_AUTH_BURST (DEFAULT_AUTH_REFILL_PER_SEC X)"

text \<open>\<open>u64::saturating_sub\<close>.\<close>

definition saturating_sub :: "u64 \<Rightarrow> u64 \<Rightarrow> u64" where
  "saturating_sub a b = (if a < b then 0 else a - b)"

definition refilled :: "ext \<Rightarrow> rate_limiter \<Rightarrow> string \<Rightarrow> u64 \<Rightarrow> bucket" where
  "refilled X rl key now_ms =
     (let b = (case rl_buckets rl key of
                 None \<Rightarrow> \<lparr>tokens = rl_capacity rl, last_ms = now_ms\<rparr> | Some b \<Rightarrow> b);
          elapsed = saturating_sub now_ms (last_ms b)
      in if 0 < elapsed
         then \<lparr>tokens = min (fl64 X (tokens b + fl64 X (fl64 X (of_nat (unat elapsed))
                                                         * rl_refill_per_ms rl)))
                            (rl_capacity rl),
               last_ms = now_ms\<rparr>
         else b)"

definition put_bucket :: "rate_limiter \<Rightarrow> string \<Rightarrow> bucket \<Rightarrow> rate_limiter" where
  "put_bucket rl key b = rl\<lparr>rl_buckets := (rl_buckets rl)(key \<mapsto> b)\<rparr>"

definition allowed_at :: "ext \<Rightarrow> string \<Rightarrow> u64 \<Rightarrow> rate_limiter \<Rightarrow> bool \<times> rate_limiter" where
  "allowed_at X key now_ms rl =
     (let b = refilled X rl key now_ms in (1 \<le> tokens b, put_bucket rl key b))"

definition record_failure_at :: "ext \<Rightarrow> string \<Rightarrow> u64 \<Rightarrow> rate_limiter \<Rightarrow> rate_limiter" where
  "record_failure_at X key now_ms rl =
     (let b = refilled X rl key now_ms
      in put_bucket rl key (b\<lparr>tokens := max (fl64 X (tokens b - 1)) 0\<rparr>))"

section \<open>The bucket invariant\<close>

definition limiter_ok :: "rate_limiter \<Rightarrow> bool" where
  "limiter_ok rl \<longleftrightarrow>
     (\<exists>c :: nat. rl_capacity rl = of_nat c \<and> c < 2 ^ 32)
     \<and> 0 \<le> rl_refill_per_ms rl
     \<and> (\<forall>b \<in> ran (rl_buckets rl). 0 \<le> tokens b \<and> tokens b \<le> rl_capacity rl)"

lemma fl64_mono: "fl64_ieee X \<Longrightarrow> x \<le> y \<Longrightarrow> fl64 X x \<le> fl64 X y"
  by (simp add: fl64_ieee_def)

lemma fl64_int: "fl64_ieee X \<Longrightarrow> \<bar>n\<bar> \<le> 2 ^ 53 \<Longrightarrow> fl64 X (of_int n) = of_int n"
  by (simp add: fl64_ieee_def)

lemma fl64_nat:
  assumes "fl64_ieee X" and "n \<le> 2 ^ 53"
  shows "fl64 X (of_nat n) = of_nat n"
proof -
  have "int n \<le> int (2 ^ 53)" using assms(2) by (simp only: of_nat_le_iff)
  then have "\<bar>int n\<bar> \<le> 2 ^ 53" by simp
  from fl64_int [OF assms(1) this] show ?thesis by simp
qed

lemma fl64_nonneg: "fl64_ieee X \<Longrightarrow> 0 \<le> x \<Longrightarrow> 0 \<le> fl64 X x"
  using fl64_mono [of X 0 x] fl64_nat [of X 0] by simp

lemma limiter_ok_capacity: "limiter_ok rl \<Longrightarrow> 0 \<le> rl_capacity rl"
  by (auto simp: limiter_ok_def)

lemma unsigned_nonneg_rat: "(0 :: rat) \<le> unsigned (e :: u64)"
proof -
  have "(0 :: rat) \<le> of_nat (unat e)" by (rule of_nat_0_le_iff)
  then show ?thesis by simp
qed

lemma refilled_range:
  assumes "fl64_ieee X" and ok: "limiter_ok rl"
  shows "0 \<le> tokens (refilled X rl key now) \<and> tokens (refilled X rl key now) \<le> rl_capacity rl"
proof -
  define b where "b = (case rl_buckets rl key of
      None \<Rightarrow> \<lparr>tokens = rl_capacity rl, last_ms = now\<rparr> | Some b \<Rightarrow> b)"
  have b: "0 \<le> tokens b" "tokens b \<le> rl_capacity rl"
    using ok limiter_ok_capacity [OF ok]
    by (auto simp: b_def limiter_ok_def ran_def split: option.splits)
  have "0 \<le> rl_refill_per_ms rl" using ok by (simp add: limiter_ok_def)
  then have "0 \<le> fl64 X (tokens b + fl64 X (fl64 X (unsigned e) * rl_refill_per_ms rl))" for e :: u64
    using assms(1) b unsigned_nonneg_rat [of e]
    by (intro fl64_nonneg add_nonneg_nonneg mult_nonneg_nonneg) auto
  with b limiter_ok_capacity [OF ok] show ?thesis
    by (simp add: refilled_def b_def [symmetric] Let_def)
qed

lemma put_bucket_ok:
  "limiter_ok rl \<Longrightarrow> 0 \<le> tokens b \<Longrightarrow> tokens b \<le> rl_capacity rl \<Longrightarrow> limiter_ok (put_bucket rl key b)"
  by (auto simp: limiter_ok_def put_bucket_def ran_def split: if_splits)

lemma allowed_at_ok:
  "fl64_ieee X \<Longrightarrow> limiter_ok rl \<Longrightarrow> limiter_ok (snd (allowed_at X key now rl))"
  by (simp add: allowed_at_def Let_def put_bucket_ok refilled_range)

lemma record_failure_at_ok:
  assumes X: "fl64_ieee X" and ok: "limiter_ok rl"
  shows "limiter_ok (record_failure_at X key now rl)"
proof -
  from ok obtain c where c: "rl_capacity rl = of_nat c" "c < 2 ^ 32"
    by (auto simp: limiter_ok_def)
  have "fl64 X (tokens (refilled X rl key now) - 1) \<le> fl64 X (of_nat c)"
    using refilled_range [OF X ok, of key now] c by (intro fl64_mono [OF X]) auto
  with c have "fl64 X (tokens (refilled X rl key now) - 1) \<le> rl_capacity rl"
    by (simp add: fl64_nat [OF X])
  then show ?thesis
    using limiter_ok_capacity [OF ok]
    by (simp add: record_failure_at_def Let_def put_bucket_ok [OF ok])
qed

lemma rate_limiter_new_ok:
  "fl64_ieee X \<Longrightarrow> 0 \<le> refill \<Longrightarrow> limiter_ok (rate_limiter_new X capacity refill)"
  unfolding limiter_ok_def rate_limiter_new_def
  using unsigned_less [of capacity, where ?'a = nat]
  by (auto intro!: fl64_nonneg exI [of _ "unat capacity"])

lemma auth_default_ok: "fl64_ieee X \<Longrightarrow> limiter_ok (auth_default X)"
  by (simp add: auth_default_def rate_limiter_new_ok DEFAULT_AUTH_REFILL_PER_SEC_def fl64_nonneg)

section \<open>The contract of a limiter\<close>

text \<open>
  What a guarded handler relies on: \<open>allow\<close> answers whether the key's level is at least
  one and changes no level; \<open>charge\<close> takes one step down for its own key only.
\<close>

locale throttle =
  fixes allow :: "'k \<Rightarrow> 't \<Rightarrow> 's \<Rightarrow> bool \<times> 's"
    and charge :: "'k \<Rightarrow> 't \<Rightarrow> 's \<Rightarrow> 's"
    and level :: "'s \<Rightarrow> 'k \<Rightarrow> 't \<Rightarrow> rat"
    and down :: "rat \<Rightarrow> rat"
  assumes allow_answer: "fst (allow k t s) \<longleftrightarrow> 1 \<le> level s k t"
    and allow_level: "level (snd (allow k t s)) k' t = level s k' t"
    and charge_level: "level (charge k t s) k t = max (down (level s k t)) 0"
    and charge_other: "k' \<noteq> k \<Longrightarrow> level (charge k t s) k' t' = level s k' t'"
begin

fun charges :: "nat \<Rightarrow> 'k \<Rightarrow> 't \<Rightarrow> 's \<Rightarrow> 's" where
  "charges 0 k t s = s"
| "charges (Suc n) k t s = charge k t (snd (allow k t (charges n k t s)))"

lemma charges_level:
  assumes down: "\<And>m. m < c \<Longrightarrow> down (of_nat (Suc m)) = of_nat m"
    and full: "level s k t = of_nat c" and n: "n \<le> c"
  shows "level (charges n k t s) k t = of_nat (c - n)"
  using n
proof (induction n)
  case 0
  then show ?case by (simp add: full)
next
  case (Suc n)
  then have "c - n = Suc (c - Suc n)" by simp
  with Suc down [of "c - Suc n"] show ?case
    by (simp add: charge_level allow_level max_def)
qed

lemma charges_other: "k' \<noteq> k \<Longrightarrow> level (charges n k t s) k' t = level s k' t"
  by (induction n) (simp_all add: charge_other allow_level)

lemma drained_iff:
  assumes "\<And>m. m < c \<Longrightarrow> down (of_nat (Suc m)) = of_nat m"
    and "level s k t = of_nat c" and "n \<le> c"
  shows "fst (allow k t (charges n k t s)) \<longleftrightarrow> n < c"
proof -
  have "fst (allow k t (charges n k t s)) \<longleftrightarrow> (1 :: rat) \<le> of_nat (c - n)"
    by (simp add: allow_answer charges_level [OF assms])
  also have "\<dots> \<longleftrightarrow> 1 \<le> c - n" by (metis of_nat_1 of_nat_le_iff)
  finally show ?thesis using assms(3) by auto
qed

end

lemma saturating_sub_self [simp]: "saturating_sub a a = 0"
  by (simp add: saturating_sub_def)

lemma saturating_sub_pos: "0 < saturating_sub a b \<longleftrightarrow> b < a"
  by (auto simp: saturating_sub_def word_neq_0_conv [symmetric] simp del: word_neq_0_conv)

lemma put_bucket_simps [simp]:
  "rl_capacity (put_bucket rl key b) = rl_capacity rl"
  "rl_refill_per_ms (put_bucket rl key b) = rl_refill_per_ms rl"
  "rl_buckets (put_bucket rl key b) key = Some b"
  "key' \<noteq> key \<Longrightarrow> rl_buckets (put_bucket rl key b) key' = rl_buckets rl key'"
  by (simp_all add: put_bucket_def)

lemma refilled_cong:
  assumes "rl_capacity rl = rl_capacity rl'" "rl_refill_per_ms rl = rl_refill_per_ms rl'"
    and "rl_buckets rl key = rl_buckets rl' key"
  shows "refilled X rl key now = refilled X rl' key now"
  unfolding refilled_def assms ..

lemma refilled_put_other:
  "key' \<noteq> key \<Longrightarrow> refilled X (put_bucket rl key b) key' now = refilled X rl key' now"
  by (rule refilled_cong) simp_all

lemma refilled_put_same: "last_ms b \<ge> now \<Longrightarrow> refilled X (put_bucket rl key b) key now = b"
  by (simp add: refilled_def Let_def saturating_sub_pos not_less)

lemma refilled_last_ms: "now \<le> last_ms (refilled X rl key now)"
  by (auto simp: refilled_def Let_def saturating_sub_pos split: option.splits)

lemma refilled_put:
  "refilled X (put_bucket rl key (refilled X rl key now)) key' now = refilled X rl key' now"
  by (cases "key' = key") (simp_all add: refilled_put_other refilled_put_same refilled_last_ms)

lemma refilled_charge:
  "refilled X (record_failure_at X key now rl) key now =
     (refilled X rl key now)\<lparr>tokens := max (fl64 X (tokens (refilled X rl key now) - 1)) 0\<rparr>"
  unfolding record_failure_at_def Let_def by (rule refilled_put_same) (simp add: refilled_last_ms)

lemma refilled_charge_other:
  "key' \<noteq> key \<Longrightarrow> refilled X (record_failure_at X key now rl) key' now' = refilled X rl key' now'"
  by (simp add: record_failure_at_def Let_def refilled_put_other)

interpretation auth_throttle: throttle "allowed_at X" "record_failure_at X"
    "\<lambda>rl key now. tokens (refilled X rl key now)" "\<lambda>x. fl64 X (x - 1)" for X
  by unfold_locales
    (simp_all add: allowed_at_def Let_def refilled_put refilled_charge refilled_charge_other)

section \<open>Properties\<close>

text \<open>The limiters a server can have reached from the default one.\<close>

inductive limiter_reached :: "ext \<Rightarrow> rate_limiter \<Rightarrow> bool" for X where
  start: "limiter_reached X (auth_default X)"
| asked: "limiter_reached X rl \<Longrightarrow> limiter_reached X (snd (allowed_at X key now rl))"
| failed: "limiter_reached X rl \<Longrightarrow> limiter_reached X (record_failure_at X key now rl)"

lemma limiter_reached_ok:
  assumes "limiter_reached X rl" and "fl64_ieee X"
  shows "limiter_ok rl \<and> rl_capacity rl = 10 \<and> rl_refill_per_ms rl = rl_refill_per_ms (auth_default X)"
  using assms(1)
  by induction
    (simp_all add: assms(2) auth_default_ok allowed_at_ok record_failure_at_ok,
     simp_all add: auth_default_def rate_limiter_new_def DEFAULT_AUTH_BURST_def allowed_at_def
       record_failure_at_def Let_def)

text \<open>
  C21. The burst: from a limiter that has never seen \<open>key\<close>, after \<open>n\<close> failures of that key at one
  instant (each preceded by a check, \<open>n \<le> 10\<close>), the next attempt is allowed exactly when \<open>n < 10\<close>;
  the attempts of every other key are as they were.
\<close>

theorem limiter_burst:
  assumes "fl64_ieee X" and "limiter_reached X rl" and "rl_buckets rl key = None" and "n \<le> 10"
  shows "(fst (allowed_at X key now (auth_throttle.charges X n key now rl)) \<longleftrightarrow> n < 10)
    \<and> (key' \<noteq> key \<longrightarrow>
         fst (allowed_at X key' now (auth_throttle.charges X n key now rl)) = fst (allowed_at X key' now rl))"
proof -
  have cap: "rl_capacity rl = 10" using limiter_reached_ok [OF assms(2,1)] by simp
  have "fl64 X (of_nat (Suc m) - 1) = of_nat m" if "m < 10" for m
    using that by (simp add: fl64_nat [OF assms(1)])
  moreover have "tokens (refilled X rl key now) = of_nat 10"
    using assms(3) cap by (simp add: refilled_def)
  ultimately show ?thesis
    using auth_throttle.drained_iff [of 10 X rl key now n] assms(4)
    by (auto simp: auth_throttle.allow_answer auth_throttle.charges_other)
qed

theorem limiter_burst_witness:
  "\<not> fst (allowed_at demo_ext ''10.0.0.1'' 5
       (auth_throttle.charges demo_ext 10 ''10.0.0.1'' 5 (auth_default demo_ext)))
   \<and> fst (allowed_at demo_ext ''10.0.0.1'' 5
       (auth_throttle.charges demo_ext 9 ''10.0.0.1'' 5 (auth_default demo_ext)))"
  using limiter_burst [of demo_ext "auth_default demo_ext" "''10.0.0.1''" 10 5]
    limiter_burst [of demo_ext "auth_default demo_ext" "''10.0.0.1''" 9 5]
  by (simp add: demo_ext_documented limiter_reached.start)
    (simp add: auth_default_def rate_limiter_new_def)

text \<open>
  C22. Whatever the calls so far, every bucket holds between 0 and 10 tokens, and a throttled
  key recovers: once the refill for the time since its last call rounds to a whole token, the
  next attempt is allowed.
\<close>

theorem limiter_recovers:
  assumes "fl64_ieee X" and "limiter_reached X rl" and "rl_buckets rl key = Some b"
    and "last_ms b < now"
    and "1 \<le> fl64 X (fl64 X (of_nat (unat (now - last_ms b))) * rl_refill_per_ms (auth_default X))"
  shows "0 \<le> tokens b \<and> tokens b \<le> 10 \<and> fst (allowed_at X key now rl)"
proof -
  note ok = limiter_reached_ok [OF assms(2,1)]
  have b: "0 \<le> tokens b" "tokens b \<le> 10"
    using ok assms(3) by (auto simp: limiter_ok_def ran_def)
  let ?t = "fl64 X (fl64 X (of_nat (unat (now - last_ms b))) * rl_refill_per_ms rl)"
  have "saturating_sub now (last_ms b) = now - last_ms b"
    using less_not_sym [OF assms(4)] by (simp only: saturating_sub_def if_False)
  moreover have "0 < saturating_sub now (last_ms b)"
    using assms(4) by (simp only: saturating_sub_pos)
  ultimately have e: "saturating_sub now (last_ms b) = now - last_ms b" "0 < now - last_ms b"
    by simp_all
  have t: "1 \<le> ?t" using assms(5) ok by simp
  have "fl64 X (of_nat 1) \<le> fl64 X (tokens b + ?t)"
    using b t by (intro fl64_mono [OF assms(1)]) simp
  then have "1 \<le> fl64 X (tokens b + ?t)" using fl64_nat [OF assms(1), of 1] by simp
  with e ok assms(3) have "1 \<le> tokens (refilled X rl key now)"
    unfolding refilled_def Let_def by simp
  with b show ?thesis by (simp add: allowed_at_def Let_def)
qed

theorem limiter_recovers_witness:
  "fst (allowed_at demo_ext ''10.0.0.1'' 10000 (record_failure_at demo_ext ''10.0.0.1'' 0 (auth_default demo_ext)))"
proof -
  have "limiter_reached demo_ext (record_failure_at demo_ext ''10.0.0.1'' 0 (auth_default demo_ext))"
    by (intro limiter_reached.intros)
  then show ?thesis
    by (rule limiter_recovers [THEN conjunct2, THEN conjunct2, of demo_ext _ _ "\<lparr>tokens = 9, last_ms = 0\<rparr>", rotated])
      (simp_all add: demo_ext_documented record_failure_at_def refilled_def auth_default_def
        rate_limiter_new_def DEFAULT_AUTH_BURST_def DEFAULT_AUTH_REFILL_PER_SEC_def)
qed

end
