(* ===== verification/Schema.thy ===== *)
theory Schema
imports Externals
begin

text \<open>
  The database: one record per table of \<open>migrations/\<close> (the columns the code reads or
  writes), the enums of the \<open>identity\<close> crate, and the record \<open>database\<close> of all tables and
  sequences. A sequence is the last number it handed out; PostgreSQL does not roll a
  sequence back, which \<open>rollback\<close> keeps. \<open>db_ok\<close> collects the primary keys, unique
  indexes, checks and foreign keys of the migrations.
\<close>

section \<open>Enums of the identity crate\<close>

datatype user_lifecycle = PendingInvite | Active | Deactivated | Anonymized

datatype instance_role = Owner | Admin | Member

datatype user_kind = KindMember | KindGuest

section \<open>Rows of schema identity\<close>

record user =
  u_id :: uuid
  u_email :: string
  u_display_name :: string
  u_lifecycle :: user_lifecycle
  u_instance_role :: instance_role
  u_kind :: user_kind
  u_locale :: "string option"
  u_created_at :: time
  u_updated_at :: time

text \<open>The generated column \<open>email_lower\<close>.\<close>

definition email_lower :: "user \<Rightarrow> string" where
  "email_lower u = lower (u_email u)"

record invitation =
  inv_id :: uuid
  inv_email :: string
  inv_token_hash :: bytes
  inv_invited_by :: uuid
  inv_instance_role :: instance_role
  inv_created_at :: time
  inv_expires_at :: time
  inv_accepted_at :: "time option"
  inv_accepted_user_id :: "uuid option"
  inv_revoked_at :: "time option"

record user_key_material =
  km_x25519_public :: bytes
  km_ed25519_public :: bytes
  km_x25519_private_wrapped :: bytes
  km_ed25519_private_wrapped :: bytes
  km_master_key_wrapped :: bytes
  km_kdf_salt :: bytes
  km_kdf_params :: string

record user_keys_row =
  uk_user_id :: uuid
  uk_material :: user_key_material

record user_avatar =
  ua_user_id :: uuid
  ua_avatar :: bytes
  ua_updated_at :: time

record machine =
  m_id :: uuid
  m_label :: string
  m_platform :: string
  m_claimed_by_user_id :: "uuid option"
  m_identity_public :: "bytes option"
  m_agent_version :: "string option"
  m_location_enabled :: bool
  m_created_at :: time
  m_last_seen_at :: "time option"

record machine_session =
  ms_id :: uuid
  ms_machine_id :: uuid
  ms_token_hash :: bytes
  ms_created_at :: time
  ms_expires_at :: time
  ms_revoked_at :: "time option"

record device_admin_group =
  dg_id :: uuid
  dg_public :: bytes
  dg_created_at :: time

record telemetry =
  tm_id :: int
  tm_machine_id :: uuid
  tm_kind :: string
  tm_recipient_key_id :: bytes
  tm_seq :: int
  tm_ciphertext :: bytes
  tm_signature :: bytes

record device =
  d_id :: uuid
  d_user_id :: uuid
  d_machine_id :: "uuid option"
  d_device_label :: string
  d_platform :: string
  d_device_public_key :: bytes
  d_created_at :: time
  d_last_seen_at :: "time option"
  d_revoked_at :: "time option"

section \<open>Rows of schema auth\<close>

record credential =
  c_user_id :: uuid
  c_password_hash :: string
  c_created_at :: time
  c_updated_at :: time

record session =
  s_id :: uuid
  s_user_id :: uuid
  s_token_hash :: bytes
  s_created_at :: time
  s_expires_at :: time
  s_revoked_at :: "time option"
  s_user_agent :: "string option"
  s_ip_address :: "string option"
  s_last_seen_at :: "time option"
  s_label :: "string option"

record recovery_code =
  rc_id :: uuid
  rc_code_hash :: bytes
  rc_created_at :: time
  rc_created_by_user_id :: "uuid option"
  rc_rotated_at :: "time option"
  rc_rotated_by_user_id :: "uuid option"

record user_recovery_code =
  urc_user_id :: uuid
  urc_code_hash :: bytes
  urc_generated_at :: time
  urc_last_used_at :: "time option"

record totp_credential =
  tc_id :: uuid
  tc_user_id :: uuid
  tc_label :: string
  tc_secret_enc :: bytes
  tc_created_at :: time
  tc_verified_at :: "time option"
  tc_last_used_at :: "time option"
  tc_last_used_step :: "int option"

record webauthn_credential =
  wa_id :: uuid
  wa_user_id :: uuid
  wa_label :: string

section \<open>Rows of schemas audit, sylva\_meta and platform\<close>

record audit_event =
  e_seqno :: int
  e_occurred_at :: time
  e_actor_user_id :: "uuid option"
  e_actor_display_name :: "string option"
  e_app_id :: "string option"
  e_event_type :: string
  e_event_data :: json
  e_prev_hash :: bytes
  e_hash :: bytes

record instance_row =
  i_instance_name :: "string option"
  i_identity_public :: "bytes option"
  i_identity_priv_enc :: "bytes option"

record resource =
  r_id :: uuid
  r_app_id :: uuid
  r_resource_type :: string
  r_app_resource_id :: uuid
  r_parent_resource_id :: "uuid option"
  r_owner_user_id :: uuid
  r_created_at :: time
  r_updated_at :: time
  r_deleted_at :: "time option"
  r_content_blob :: bytes
  r_content_signature :: bytes
  r_last_modified_by :: uuid
  r_schema_version :: int
  r_change_seq :: int

record trusted_publisher =
  tp_publisher :: string
  tp_public_key :: bytes
  tp_added_by :: "uuid option"
  tp_added_at :: time

record registered_app =
  a_id :: uuid
  a_app_identifier :: string
  a_display_name :: string
  a_publisher :: string
  a_app_public_key :: bytes
  a_schema_version :: int
  a_resource_types :: "string list"
  a_status :: string
  a_registered_by :: "uuid option"
  a_created_at :: time
  a_updated_at :: time

section \<open>The database\<close>

record database =
  users :: "user list"
  invitations :: "invitation list"
  user_keys :: "user_keys_row list"
  user_avatars :: "user_avatar list"
  machines :: "machine list"
  machine_sessions :: "machine_session list"
  device_admin_groups :: "device_admin_group list"
  machine_telemetry :: "telemetry list"
  devices :: "device list"
  credentials :: "credential list"
  sessions :: "session list"
  recovery_codes :: "recovery_code list"
  user_recovery_codes :: "user_recovery_code list"
  totp_credentials :: "totp_credential list"
  webauthn_credentials :: "webauthn_credential list"
  events :: "audit_event list"
  instance_rows :: "instance_row list"
  resources :: "resource list"
  trusted_publishers :: "trusted_publisher list"
  registered_apps :: "registered_app list"
  events_seqno_seq :: int
  resource_change_seq :: int
  telemetry_id_seq :: int

text \<open>What a rolled-back transaction leaves: the tables of \<open>d0\<close>, the sequences of \<open>d1\<close>.\<close>

definition rollback :: "database \<Rightarrow> database \<Rightarrow> database" where
  "rollback d0 d1 =
     d0\<lparr>events_seqno_seq := events_seqno_seq d1,
        resource_change_seq := resource_change_seq d1,
        telemetry_id_seq := telemetry_id_seq d1\<rparr>"

text \<open>The tables right after the migrations: only the \<open>sylva_meta.instance\<close> row.\<close>

definition empty_db :: database where
  "empty_db =
     \<lparr>users = [], invitations = [], user_keys = [], user_avatars = [], machines = [],
      machine_sessions = [], device_admin_groups = [], machine_telemetry = [], devices = [],
      credentials = [], sessions = [], recovery_codes = [], user_recovery_codes = [],
      totp_credentials = [], webauthn_credentials = [], events = [],
      instance_rows = [\<lparr>i_instance_name = None, i_identity_public = None,
                         i_identity_priv_enc = None\<rparr>],
      resources = [], trusted_publishers = [], registered_apps = [],
      events_seqno_seq = 0, resource_change_seq = 0, telemetry_id_seq = 0\<rparr>"

section \<open>Errors of a statement\<close>

text \<open>
  The errors of \<open>sqlx\<close> the code tells apart: SQLSTATE \<open>23505\<close> and \<open>23503\<close>, a violated
  check, a value out of range (a negative \<open>OFFSET\<close>), \<open>fetch_one\<close> without a row, and any failure of the connection.
\<close>

datatype sql_error =
    UniqueViolation
  | ForeignKeyViolation
  | CheckViolation
  | DataError
  | RowNotFound
  | ConnectionError

type_synonym 'a stmt = "database \<Rightarrow> (sql_error + 'a) \<times> database"

definition sql_ok :: "'a \<Rightarrow> 'a stmt" where
  "sql_ok a d = (Inr a, d)"

definition sql_err :: "sql_error \<Rightarrow> 'a stmt" where
  "sql_err e d = (Inl e, d)"

text \<open>A query changes nothing.\<close>

definition query :: "(database \<Rightarrow> 'a) \<Rightarrow> 'a stmt" where
  "query f d = (Inr (f d), d)"

text \<open>\<open>fetch_one\<close> on a result set.\<close>

definition fetch_one :: "'r list \<Rightarrow> sql_error + 'r" where
  "fetch_one rs = (case rs of [] \<Rightarrow> Inl RowNotFound | r # _ \<Rightarrow> Inr r)"

lemma query_simps [simp]: "fst (query f d) = Inr (f d)" "snd (query f d) = d"
  by (simp_all add: query_def)

lemma sql_ok_simps [simp]: "fst (sql_ok a d) = Inr a" "snd (sql_ok a d) = d"
  by (simp_all add: sql_ok_def)

lemma sql_err_simps [simp]: "fst (sql_err e d) = Inl e" "snd (sql_err e d) = d"
  by (simp_all add: sql_err_def)

lemma rollback_self [simp]: "rollback d d = d"
  by (simp add: rollback_def)

lemma empty_db_simps [simp]:
  "users empty_db = []" "invitations empty_db = []" "user_keys empty_db = []"
  "user_avatars empty_db = []" "machines empty_db = []" "machine_sessions empty_db = []"
  "device_admin_groups empty_db = []" "machine_telemetry empty_db = []" "devices empty_db = []"
  "credentials empty_db = []" "sessions empty_db = []" "recovery_codes empty_db = []"
  "user_recovery_codes empty_db = []" "totp_credentials empty_db = []"
  "webauthn_credentials empty_db = []" "events empty_db = []" "resources empty_db = []"
  "trusted_publishers empty_db = []" "registered_apps empty_db = []"
  "events_seqno_seq empty_db = 0" "resource_change_seq empty_db = 0" "telemetry_id_seq empty_db = 0"
  by (simp_all add: empty_db_def)

end
