(* ===== verification/Actions.thy ===== *)
theory Actions
imports Schema Rate_Limit
begin

text \<open>
  How the asynchronous code runs. A \<open>prog\<close> takes a state and returns an error or a value, and
  the next state, so a Rust \<open>Result\<close> is a sum and \<open>?\<close> is \<open>andthen\<close>; an \<open>action\<close> is a program
  on the state \<open>world\<close> of the server process and its database. \<open>exec\<close> is one database call, with the faults of
  the connection; \<open>transact\<close> is \<open>pool.begin()\<close>, the body and \<open>commit()\<close>, where an error
  drops the transaction: its tables roll back, its sequences do not. \<open>now()\<close> is the start of
  the transaction inside one, and the call's own time outside.

  \<open>obeys R m\<close> says that \<open>m\<close> moves the database only along \<open>R\<close>, whatever the externals do;
  the locale \<open>db_relation\<close> holds its composition rules.
\<close>

section \<open>The world and its actions\<close>

record world =
  w_db :: database
  w_limiter :: rate_limiter
  w_tick :: nat

type_synonym ('s, 'e, 'a) prog = "'s \<Rightarrow> ('e + 'a) \<times> 's"
type_synonym ('e, 'a) action = "(world, 'e, 'a) prog"

definition ret :: "'a \<Rightarrow> ('s, 'e, 'a) prog" where
  "ret a w = (Inr a, w)"

definition throw :: "'e \<Rightarrow> ('s, 'e, 'a) prog" where
  "throw e w = (Inl e, w)"

definition andthen :: "('s, 'e, 'a) prog \<Rightarrow> ('a \<Rightarrow> ('s, 'e, 'b) prog) \<Rightarrow> ('s, 'e, 'b) prog" where
  "andthen m f w = (case m w of (Inl e, w') \<Rightarrow> (Inl e, w') | (Inr a, w') \<Rightarrow> f a w')"

text \<open>\<open>map_err\<close>, and a \<open>match\<close> on the result of a call.\<close>

definition map_err :: "('e \<Rightarrow> 'f) \<Rightarrow> ('s, 'e, 'a) prog \<Rightarrow> ('s, 'f, 'a) prog" where
  "map_err g m w = (case m w of (Inl e, w') \<Rightarrow> (Inl (g e), w') | (Inr a, w') \<Rightarrow> (Inr a, w'))"

definition attempt :: "('s, 'e, 'a) prog \<Rightarrow> ('s, 'f, 'e + 'a) prog" where
  "attempt m w = (case m w of (r, w') \<Rightarrow> (Inr r, w'))"

definition draw :: "(nat \<Rightarrow> 'a) \<Rightarrow> ('e, 'a) action" where
  "draw f w = (Inr (f (w_tick w)), w\<lparr>w_tick := Suc (w_tick w)\<rparr>)"

definition exec :: "ext \<Rightarrow> (nat \<Rightarrow> 'a stmt) \<Rightarrow> (sql_error, 'a) action" where
  "exec X f w =
     (let n = w_tick w; w' = w\<lparr>w_tick := Suc n\<rparr>; (r, d) = f n (w_db w) in
      case pg_fault X n of
        NoFault \<Rightarrow> (r, w'\<lparr>w_db := d\<rparr>)
      | LostBefore \<Rightarrow> (Inl ConnectionError, w')
      | LostAfter \<Rightarrow> (Inl ConnectionError, w'\<lparr>w_db := d\<rparr>))"

definition roll_back_to :: "world \<Rightarrow> world \<Rightarrow> world" where
  "roll_back_to w0 w1 = w1\<lparr>w_db := rollback (w_db w0) (w_db w1)\<rparr>"

definition transact ::
  "ext \<Rightarrow> (sql_error \<Rightarrow> 'e) \<Rightarrow> (time \<Rightarrow> ('e, 'a) action) \<Rightarrow> ('e, 'a) action" where
  "transact X conv body w =
     (let n = w_tick w; w1 = w\<lparr>w_tick := Suc n\<rparr> in
      if pg_fault X n \<noteq> NoFault then (Inl (conv ConnectionError), w1)
      else (case body (pg_now X n) w1 of
          (Inl e, w2) \<Rightarrow> (Inl e, roll_back_to w w2)
        | (Inr a, w2) \<Rightarrow>
            (let m = w_tick w2; w3 = w2\<lparr>w_tick := Suc m\<rparr> in
             case pg_fault X m of
               NoFault \<Rightarrow> (Inr a, w3)
             | LostBefore \<Rightarrow> (Inl (conv ConnectionError), roll_back_to w w3)
             | LostAfter \<Rightarrow> (Inl (conv ConnectionError), w3))))"

definition when_ok :: "bool \<Rightarrow> 'e \<Rightarrow> ('s, 'e, unit) prog" where
  "when_ok b e = (if b then ret () else throw e)"

definition need :: "'a option \<Rightarrow> 'e \<Rightarrow> ('s, 'e, 'a) prog" where
  "need x e = (case x of None \<Rightarrow> throw e | Some a \<Rightarrow> ret a)"

definition from_sum :: "'e + 'a \<Rightarrow> ('s, 'e, 'a) prog" where
  "from_sum r w = (r, w)"

section \<open>Running an action\<close>

lemma ret_run [simp]: "ret a w = (Inr a, w)"
  by (simp add: ret_def)

lemma throw_run [simp]: "throw e w = (Inl e, w)"
  by (simp add: throw_def)

lemma from_sum_run [simp]: "from_sum r w = (r, w)"
  by (simp add: from_sum_def)

lemma when_ok_run [simp]: "when_ok b e w = (if b then (Inr (), w) else (Inl e, w))"
  by (simp add: when_ok_def)

lemma need_run [simp]: "need x e w = (case x of None \<Rightarrow> (Inl e, w) | Some a \<Rightarrow> (Inr a, w))"
  by (simp add: need_def split: option.splits)

lemma draw_run [simp]: "draw f w = (Inr (f (w_tick w)), w\<lparr>w_tick := Suc (w_tick w)\<rparr>)"
  by (simp add: draw_def)

lemma andthen_Inr: "m w = (Inr a, w') \<Longrightarrow> andthen m f w = f a w'"
  by (simp add: andthen_def)

lemma andthen_Inl: "m w = (Inl e, w') \<Longrightarrow> andthen m f w = (Inl e, w')"
  by (simp add: andthen_def)

lemma andthen_eq_InrE:
  assumes "andthen m f w = (Inr b, w2)"
  obtains a w1 where "m w = (Inr a, w1)" "f a w1 = (Inr b, w2)"
  using assms by (auto simp: andthen_def split: prod.splits sum.splits)

text \<open>A chain stops at its first error, or its first step answers and the rest runs.\<close>

lemma andthen_cases:
  assumes "andthen m f w = (r, w')"
  obtains (stop) e where "m w = (Inl e, w')" and "r = Inl e"
  | (go) a w1 where "m w = (Inr a, w1)" and "f a w1 = (r, w')"
  using assms by (auto simp: andthen_def split: prod.splits sum.splits)

lemma map_err_cases:
  assumes "map_err g m w = (r, w')"
  obtains (stop) e where "m w = (Inl e, w')" and "r = Inl (g e)"
  | (go) a where "m w = (Inr a, w')" and "r = Inr a"
  using assms by (auto simp: map_err_def split: prod.splits sum.splits)

lemma exec_cases:
  assumes "exec X f w = (r, w')"
  obtains (answer) d where "pg_fault X (w_tick w) = NoFault" and "f (w_tick w) (w_db w) = (r, d)"
    and "w' = w\<lparr>w_tick := Suc (w_tick w), w_db := d\<rparr>"
  | (before) "pg_fault X (w_tick w) = LostBefore" and "r = Inl ConnectionError"
    and "w' = w\<lparr>w_tick := Suc (w_tick w)\<rparr>"
  | (after) q d where "pg_fault X (w_tick w) = LostAfter"
    and "r = Inl ConnectionError" and "f (w_tick w) (w_db w) = (q, d)"
    and "w' = w\<lparr>w_tick := Suc (w_tick w), w_db := d\<rparr>"
  using assms by (cases w) (auto simp: exec_def Let_def split: prod.splits fault.splits)

lemma exec_query_run:
  "exec X (\<lambda>n. query (f n)) w =
     ((if pg_fault X (w_tick w) = NoFault then Inr (f (w_tick w) (w_db w)) else Inl ConnectionError),
      w\<lparr>w_tick := Suc (w_tick w)\<rparr>)"
  by (cases w) (simp add: exec_def query_def Let_def split: fault.splits)

lemma map_err_eq_Inr [simp]: "map_err g m w = (Inr a, w') \<longleftrightarrow> m w = (Inr a, w')"
  by (auto simp: map_err_def split: prod.splits sum.splits)

lemma exec_eq_InrE:
  assumes "exec X f w = (Inr a, w')"
  obtains d where "f (w_tick w) (w_db w) = (Inr a, d)"
    and "w' = w\<lparr>w_tick := Suc (w_tick w), w_db := d\<rparr>"
  using assms by (cases w) (auto simp: exec_def Let_def split: prod.splits fault.splits)

lemma exec_no_fault:
  "no_faults X \<Longrightarrow> exec X f w =
     (fst (f (w_tick w) (w_db w)),
      w\<lparr>w_tick := Suc (w_tick w), w_db := snd (f (w_tick w) (w_db w))\<rparr>)"
  by (simp add: exec_def no_faults_def Let_def case_prod_unfold)

lemma transact_no_fault:
  assumes "no_faults X"
    and "body (pg_now X (w_tick w)) (w\<lparr>w_tick := Suc (w_tick w)\<rparr>) = (Inr a, w2)"
  shows "transact X conv body w = (Inr a, w2\<lparr>w_tick := Suc (w_tick w2)\<rparr>)"
  using assms by (simp add: transact_def no_faults_def)

lemma transact_eq_InrE:
  assumes "transact X conv body w = (Inr a, w3)"
  obtains w2 where "body (pg_now X (w_tick w)) (w\<lparr>w_tick := Suc (w_tick w)\<rparr>) = (Inr a, w2)"
    and "w3 = w2\<lparr>w_tick := Suc (w_tick w2)\<rparr>"
  using assms
  by (auto simp: transact_def Let_def split: prod.splits sum.splits fault.splits if_splits)

text \<open>
  All or nothing: whatever fails, the tables after a transaction are those of before, or
  those its whole body produced.
\<close>

lemma transact_all_or_nothing:
  assumes "transact X conv body w = (r, w')"
  shows "(\<exists>d. w_db w' = rollback (w_db w) d)
         \<or> (\<exists>a w2. body (pg_now X (w_tick w)) (w\<lparr>w_tick := Suc (w_tick w)\<rparr>) = (Inr a, w2)
              \<and> w_db w' = w_db w2)"
  using assms unfolding transact_def Let_def roll_back_to_def
  by (auto split: prod.splits sum.splits fault.splits if_splits) (metis rollback_self)+

section \<open>Status codes\<close>

datatype code =
    InvalidArgument
  | NotFound
  | AlreadyExists
  | PermissionDenied
  | FailedPrecondition
  | ResourceExhausted
  | Unauthenticated
  | Unimplemented
  | Internal

datatype status = Status (status_code: code) (status_message: string)

type_synonym 'a rpc = "(status, 'a) action"

text \<open>\<open>internal(&err, op)\<close>: the detail goes to the log, never over the wire.\<close>

definition internal :: "'e \<Rightarrow> status" where
  "internal err = Status Internal ''internal error''"

definition call :: "('e, 'a) action \<Rightarrow> 'a rpc" where
  "call m = map_err internal m"

section \<open>The shared limiter\<close>

definition limiter_allowed :: "ext \<Rightarrow> string \<Rightarrow> ('e, bool) action" where
  "limiter_allowed X key w =
     (case allowed_at X key (mono_ms X (w_tick w)) (w_limiter w) of
        (b, rl) \<Rightarrow> (Inr b, w\<lparr>w_tick := Suc (w_tick w), w_limiter := rl\<rparr>))"

definition limiter_record_failure :: "ext \<Rightarrow> string \<Rightarrow> ('e, unit) action" where
  "limiter_record_failure X key w =
     (Inr (), w\<lparr>w_tick := Suc (w_tick w),
                w_limiter := record_failure_at X key (mono_ms X (w_tick w)) (w_limiter w)\<rparr>)"

section \<open>Relations every action obeys\<close>

definition obeys :: "(database \<Rightarrow> database \<Rightarrow> bool) \<Rightarrow> ('e, 'a) action \<Rightarrow> bool" where
  "obeys R m \<longleftrightarrow> (\<forall>w. R (w_db w) (w_db (snd (m w))))"

lemma obeysD: "obeys R m \<Longrightarrow> m w = (r, w') \<Longrightarrow> R (w_db w) (w_db w')"
  unfolding obeys_def by (metis snd_conv)

locale db_relation =
  fixes R :: "database \<Rightarrow> database \<Rightarrow> bool"
  assumes R_refl: "R d d"
    and R_trans: "R d1 d2 \<Longrightarrow> R d2 d3 \<Longrightarrow> R d1 d3"
    and R_rollback: "R d d' \<Longrightarrow> R d (rollback d d')"
begin

lemma obeys_ret [obeys_rules]: "obeys R (ret a)"
  by (simp add: obeys_def R_refl)

lemma obeys_throw [obeys_rules]: "obeys R (throw e)"
  by (simp add: obeys_def R_refl)

lemma obeys_from_sum [obeys_rules]: "obeys R (from_sum r)"
  by (simp add: obeys_def R_refl)

lemma obeys_when_ok [obeys_rules]: "obeys R (when_ok b e)"
  by (simp add: obeys_def R_refl)

lemma obeys_need [obeys_rules]: "obeys R (need x e)"
  by (simp add: obeys_def R_refl split: option.splits)

lemma obeys_draw [obeys_rules]: "obeys R (draw f)"
  by (simp add: obeys_def R_refl)

lemma obeys_allowed [obeys_rules]: "obeys R (limiter_allowed X key)"
  by (simp add: obeys_def R_refl limiter_allowed_def split: prod.splits)

lemma obeys_record_failure [obeys_rules]: "obeys R (limiter_record_failure X key)"
  by (simp add: obeys_def R_refl limiter_record_failure_def)

lemma obeys_andthen [obeys_rules]:
  assumes "obeys R m" and "\<And>a. obeys R (f a)"
  shows "obeys R (andthen m f)"
  using assms unfolding obeys_def andthen_def
  by (auto split: prod.splits sum.splits intro: R_trans) (metis R_trans snd_conv)+

lemma obeys_map_err [obeys_rules]: "obeys R m \<Longrightarrow> obeys R (map_err g m)"
  unfolding obeys_def map_err_def by (auto split: prod.splits sum.splits) (metis snd_conv)+

lemma obeys_call [obeys_rules]: "obeys R m \<Longrightarrow> obeys R (call m)"
  unfolding call_def by (rule obeys_map_err)

lemma obeys_attempt [obeys_rules]: "obeys R m \<Longrightarrow> obeys R (attempt m)"
  unfolding obeys_def attempt_def by (auto split: prod.splits) (metis snd_conv)+

lemma obeys_exec:
  assumes "\<And>n d. R d (snd (f n d))"
  shows "obeys R (exec X f)"
  unfolding obeys_def exec_def Let_def
  by (auto split: prod.splits fault.splits simp: R_refl) (metis assms snd_conv)+

lemma obeys_query [obeys_rules]: "obeys R (exec X (\<lambda>n. query (f n)))"
  by (rule obeys_exec) (simp add: R_refl)

lemma obeys_transact [obeys_rules]:
  assumes "\<And>t. obeys R (body t)"
  shows "obeys R (transact X conv body)"
  unfolding obeys_def
proof
  fix w
  obtain r w' where w': "transact X conv body w = (r, w')" by fastforce
  let ?w1 = "w\<lparr>w_tick := Suc (w_tick w)\<rparr>"
  obtain q w2 where w2: "body (pg_now X (w_tick w)) ?w1 = (q, w2)" by fastforce
  from obeysD [OF assms w2] have "R (w_db w) (w_db w2)" by simp
  then have "R (w_db w) (w_db w')"
    using w' w2 R_refl R_rollback
    by (auto simp: transact_def Let_def roll_back_to_def split: sum.splits fault.splits if_splits)
  with w' show "R (w_db w) (w_db (snd (transact X conv body w)))" by simp
qed

lemma obeys_if [obeys_rules]:
  "(b \<Longrightarrow> obeys R m) \<Longrightarrow> (\<not> b \<Longrightarrow> obeys R k) \<Longrightarrow> obeys R (if b then m else k)"
  by simp

lemma obeys_option [obeys_rules]:
  "obeys R m \<Longrightarrow> (\<And>a. obeys R (f a)) \<Longrightarrow> obeys R (case x of None \<Rightarrow> m | Some a \<Rightarrow> f a)"
  by (cases x) simp_all

lemma obeys_sum [obeys_rules]:
  "(\<And>e. obeys R (g e)) \<Longrightarrow> (\<And>a. obeys R (f a)) \<Longrightarrow>
     obeys R (case x of Inl e \<Rightarrow> g e | Inr a \<Rightarrow> f a)"
  by (cases x) simp_all

lemma obeys_prod [obeys_rules]:
  "(\<And>a b. obeys R (f a b)) \<Longrightarrow> obeys R (case p of (a, b) \<Rightarrow> f a b)"
  by (cases p) simp_all

lemma obeys_let [obeys_rules]:
  "(\<And>a. obeys R (f a)) \<Longrightarrow> obeys R (let a = x in f a)"
  by simp

end

text \<open>The equality is such a relation up to sequences: an action that only reads.\<close>

definition same_tables :: "database \<Rightarrow> database \<Rightarrow> bool" where
  "same_tables d d' \<longleftrightarrow> d' = rollback d d'"

lemma rollback_rollback [simp]: "rollback (rollback d d1) d2 = rollback d d2"
  by (simp add: rollback_def)

lemma rollback_right [simp]: "rollback d (rollback d' d2) = rollback d d2"
  by (simp add: rollback_def)

interpretation readonly: db_relation same_tables
proof
  show "same_tables d1 d2 \<Longrightarrow> same_tables d2 d3 \<Longrightarrow> same_tables d1 d3" for d1 d2 d3
    unfolding same_tables_def by (metis rollback_rollback)
qed (simp_all add: same_tables_def)

section \<open>A fresh server\<close>

definition demo_world :: world where
  "demo_world = \<lparr>w_db = empty_db, w_limiter = auth_default demo_ext, w_tick = 0\<rparr>"

lemma demo_world_simps [simp]:
  "w_db demo_world = empty_db" "w_limiter demo_world = auth_default demo_ext" "w_tick demo_world = 0"
  by (simp_all add: demo_world_def)

end
