(* ===== verification/Audit_Log.thy ===== *)
theory Audit_Log
imports Actions "HOL-Library.Sublist"
begin

text \<open>
  The crate \<open>audit\<close>: the append-only, hash-chained event log. \<open>append\<close> is the whole of
  \<open>audit::append\<close> inside the caller's transaction; \<open>log_ok\<close> is what the verifier of
  \<open>tests/integration/audit_chain.rs\<close> checks, plus strictly increasing sequence numbers.
\<close>

section \<open>Time stamps\<close>

text \<open>
  A \<open>DateTime<Utc>\<close> is its nanoseconds since the epoch; a \<open>timestamptz\<close> column holds
  microseconds.
\<close>

definition nanosecond :: "int \<Rightarrow> int" where
  "nanosecond ts = ts mod 1000000000"

definition with_nanosecond :: "int \<Rightarrow> int \<Rightarrow> int option" where
  "with_nanosecond ts n = (if n < 2000000000 then Some (ts - ts mod 1000000000 + n) else None)"

definition truncate_to_micros :: "int \<Rightarrow> int" where
  "truncate_to_micros ts =
     (let micros = nanosecond ts div 1000 in
      case with_nanosecond ts (micros * 1000) of None \<Rightarrow> ts | Some t \<Rightarrow> t)"

definition to_timestamptz :: "int \<Rightarrow> time" where
  "to_timestamptz ts = ts div 1000"

definition from_timestamptz :: "time \<Rightarrow> int" where
  "from_timestamptz t = 1000 * t"

lemma truncate_to_micros_eq: "truncate_to_micros ts = 1000 * (ts div 1000)"
proof -
  have "ts mod 1000000000 div 1000 * 1000 < 2000000000"
    using pos_mod_bound [of 1000000000 ts] by linarith
  moreover have "ts - ts mod 1000000000 + ts mod 1000000000 div 1000 * 1000 = 1000 * (ts div 1000)"
  proof -
    have "ts mod 1000000000 mod 1000 = ts mod 1000"
      by (simp add: mod_mod_cancel)
    then show ?thesis
      by (simp add: minus_mod_eq_mult_div [symmetric] minus_mod_eq_div_mult [symmetric] algebra_simps)
  qed
  ultimately show ?thesis
    by (simp add: truncate_to_micros_def with_nanosecond_def nanosecond_def Let_def)
qed

section \<open>Events\<close>

record actor =
  act_user_id :: uuid
  act_display_name :: string

datatype audit_error = AuditDatabase sql_error | AuditSerialize

definition genesis_hash :: "ext \<Rightarrow> bytes" where
  "genesis_hash X = sha256 X (as_bytes ''sylva-audit-genesis'')"

definition compute_hash :: "ext \<Rightarrow> bytes \<Rightarrow> bytes \<Rightarrow> bytes" where
  "compute_hash X prev_hash canonical_bytes = sha256 X (prev_hash @ canonical_bytes)"

text \<open>The \<open>Canonical\<close> a verifier rebuilds from a stored row.\<close>

definition canonical_of :: "audit_event \<Rightarrow> canonical" where
  "canonical_of e =
     \<lparr>can_actor_display_name = e_actor_display_name e,
      can_actor_user_id = e_actor_user_id e,
      can_app_id = e_app_id e,
      can_event_data = e_event_data e,
      can_event_type = e_event_type e,
      can_occurred_at = from_timestamptz (e_occurred_at e),
      can_seqno = e_seqno e\<rparr>"

definition nextval_seqno :: "int stmt" where
  "nextval_seqno d =
     (Inr (events_seqno_seq d + 1), d\<lparr>events_seqno_seq := events_seqno_seq d + 1\<rparr>)"

definition latest_hash :: "database \<Rightarrow> bytes option" where
  "latest_hash d = map_option e_hash (fetch_optional (order_desc e_seqno (events d)))"

definition insert_event :: "audit_event \<Rightarrow> audit_event stmt" where
  "insert_event e d =
     (if e_seqno e \<in> e_seqno ` set (events d) then sql_err UniqueViolation d
      else sql_ok e (d\<lparr>events := events d @ [e]\<rparr>))"

definition append ::
  "ext \<Rightarrow> actor option \<Rightarrow> string option \<Rightarrow> string \<Rightarrow> json \<Rightarrow> (audit_error, audit_event) action" where
  "append X actor app_id event_type event_data =
     andthen (map_err AuditDatabase (exec X (\<lambda>_. query (\<lambda>_. ())))) (\<lambda>_.
     andthen (map_err AuditDatabase (exec X (\<lambda>_. nextval_seqno))) (\<lambda>seqno.
     andthen (map_err AuditDatabase (exec X (\<lambda>_. query latest_hash))) (\<lambda>latest.
     let prev_hash = (case latest of None \<Rightarrow> genesis_hash X | Some h \<Rightarrow> h) in
     andthen (draw (utc_now X)) (\<lambda>now.
     let occurred_at = truncate_to_micros now;
         actor_user_id = map_option act_user_id actor;
         actor_display_name = map_option act_display_name actor in
     andthen (need (json_vec X
                \<lparr>can_actor_display_name = actor_display_name,
                 can_actor_user_id = actor_user_id,
                 can_app_id = app_id,
                 can_event_data = event_data,
                 can_event_type = event_type,
                 can_occurred_at = occurred_at,
                 can_seqno = seqno\<rparr>) AuditSerialize) (\<lambda>canonical_bytes.
     let hash = compute_hash X prev_hash canonical_bytes in
     map_err AuditDatabase (exec X (\<lambda>_. insert_event
       \<lparr>e_seqno = seqno,
        e_occurred_at = to_timestamptz occurred_at,
        e_actor_user_id = actor_user_id,
        e_actor_display_name = actor_display_name,
        e_app_id = app_id,
        e_event_type = event_type,
        e_event_data = event_data,
        e_prev_hash = prev_hash,
        e_hash = hash\<rparr>)))))))"

section \<open>Verification of a log\<close>

definition event_bytes :: "ext \<Rightarrow> audit_event \<Rightarrow> bytes option" where
  "event_bytes X e = json_vec X (canonical_of e)"

fun chain_from :: "ext \<Rightarrow> bytes \<Rightarrow> audit_event list \<Rightarrow> bool" where
  "chain_from X h [] = True"
| "chain_from X h (e # es) =
     (e_prev_hash e = h
      \<and> (case event_bytes X e of None \<Rightarrow> False | Some bs \<Rightarrow> e_hash e = compute_hash X h bs)
      \<and> chain_from X (e_hash e) es)"

definition tail_hash :: "bytes \<Rightarrow> audit_event list \<Rightarrow> bytes" where
  "tail_hash h es = (if es = [] then h else e_hash (last es))"

definition log_ok :: "ext \<Rightarrow> database \<Rightarrow> bool" where
  "log_ok X d \<longleftrightarrow>
     sorted_wrt (<) (map e_seqno (events d))
     \<and> (\<forall>e \<in> set (events d). e_seqno e \<le> events_seqno_seq d)
     \<and> chain_from X (genesis_hash X) (events d)"

lemma tail_hash_simps [simp]:
  "tail_hash h [] = h" "tail_hash h (es @ [e]) = e_hash e"
  by (simp_all add: tail_hash_def)

lemma tail_hash_Cons: "tail_hash h (e # es) = tail_hash (e_hash e) es"
  by (simp add: tail_hash_def)

lemma chain_from_snoc:
  "chain_from X h (es @ [e]) \<longleftrightarrow>
     chain_from X h es \<and> e_prev_hash e = tail_hash h es
     \<and> (\<exists>bs. event_bytes X e = Some bs \<and> e_hash e = compute_hash X (tail_hash h es) bs)"
  by (induction es arbitrary: h) (auto simp: tail_hash_Cons split: option.splits)

lemma latest_hash_tail:
  "sorted_wrt (<) (map e_seqno (events d)) \<Longrightarrow>
     (case latest_hash d of None \<Rightarrow> h | Some g \<Rightarrow> g) = tail_hash h (events d)"
  unfolding latest_hash_def tail_hash_def
  by (cases "events d" rule: rev_cases) (simp_all add: order_desc_sorted)

section \<open>What an append does\<close>

text \<open>
  Whatever fails on the way, \<open>append\<close> either adds no event or adds exactly one, numbered by
  the sequence and linked to the head of the chain; it touches no other table.
\<close>

definition appended :: "ext \<Rightarrow> database \<Rightarrow> audit_event \<Rightarrow> database \<Rightarrow> bool" where
  "appended X d e d' \<longleftrightarrow>
     d' = d\<lparr>events := events d @ [e], events_seqno_seq := events_seqno_seq d + 1\<rparr>
     \<and> e_seqno e = events_seqno_seq d + 1
     \<and> e_prev_hash e = (case latest_hash d of None \<Rightarrow> genesis_hash X | Some h \<Rightarrow> h)
     \<and> (\<exists>bs. event_bytes X e = Some bs \<and> e_hash e = compute_hash X (e_prev_hash e) bs)"

definition not_appended :: "database \<Rightarrow> database \<Rightarrow> bool" where
  "not_appended d d' \<longleftrightarrow>
     (\<exists>n. d' = d\<lparr>events_seqno_seq := n\<rparr> \<and> events_seqno_seq d \<le> n)"

lemma not_appended_refl [simp]: "not_appended d d"
  unfolding not_appended_def by (rule exI [of _ "events_seqno_seq d"]) simp

lemma not_appended_step: "d' = d\<lparr>events_seqno_seq := events_seqno_seq d + 1\<rparr> \<Longrightarrow> not_appended d d'"
  unfolding not_appended_def by (rule exI [of _ "events_seqno_seq d + 1"]) simp

lemma latest_hash_seq [simp]: "latest_hash (d\<lparr>events_seqno_seq := n\<rparr>) = latest_hash d"
  by (simp add: latest_hash_def)

lemma from_to_timestamptz [simp]:
  "from_timestamptz (to_timestamptz (truncate_to_micros ts)) = truncate_to_micros ts"
  by (simp add: from_timestamptz_def to_timestamptz_def truncate_to_micros_eq)

lemma insert_event_run:
  assumes "map_err AuditDatabase (exec X (\<lambda>_. insert_event e)) w = (r, w')"
  shows "w_db w' = w_db w \<and> (\<exists>x. r = Inl x)
    \<or> e_seqno e \<notin> e_seqno ` set (events (w_db w))
      \<and> w_db w' = (w_db w)\<lparr>events := events (w_db w) @ [e]\<rparr>
      \<and> (r = Inr e \<or> r = Inl (AuditDatabase ConnectionError))"
proof (cases "e_seqno e \<in> e_seqno ` set (events (w_db w))")
  case True
  then have "insert_event e (w_db w) = (Inl UniqueViolation, w_db w)"
    by (simp add: insert_event_def sql_err_def)
  with assms show ?thesis by (auto elim!: map_err_cases exec_cases)
next
  case False
  then have "insert_event e (w_db w) = (Inr e, (w_db w)\<lparr>events := events (w_db w) @ [e]\<rparr>)"
    by (simp add: insert_event_def sql_ok_def)
  with assms False show ?thesis by (auto elim!: map_err_cases exec_cases)
qed

text \<open>The pieces of an append: the hash it links to, the \<open>Canonical\<close> it hashes, the row it inserts.\<close>

definition link :: "ext \<Rightarrow> database \<Rightarrow> bytes" where
  "link X d = (case latest_hash d of None \<Rightarrow> genesis_hash X | Some h \<Rightarrow> h)"

definition draft :: "int \<Rightarrow> int \<Rightarrow> actor option \<Rightarrow> string option \<Rightarrow> string \<Rightarrow> json \<Rightarrow> canonical" where
  "draft seqno now actor app_id event_type event_data =
     \<lparr>can_actor_display_name = map_option act_display_name actor,
      can_actor_user_id = map_option act_user_id actor, can_app_id = app_id, can_event_data = event_data,
      can_event_type = event_type, can_occurred_at = truncate_to_micros now, can_seqno = seqno\<rparr>"

definition event_row :: "ext \<Rightarrow> bytes \<Rightarrow> bytes \<Rightarrow> int \<Rightarrow> int \<Rightarrow> actor option \<Rightarrow> string option \<Rightarrow> string \<Rightarrow> json \<Rightarrow> audit_event" where
  "event_row X prev bs seqno now actor app_id event_type event_data =
     \<lparr>e_seqno = seqno, e_occurred_at = to_timestamptz (truncate_to_micros now),
      e_actor_user_id = map_option act_user_id actor, e_actor_display_name = map_option act_display_name actor,
      e_app_id = app_id, e_event_type = event_type, e_event_data = event_data,
      e_prev_hash = prev, e_hash = compute_hash X prev bs\<rparr>"

definition append_draft ::
  "ext \<Rightarrow> world \<Rightarrow> actor option \<Rightarrow> string option \<Rightarrow> string \<Rightarrow> json \<Rightarrow> canonical" where
  "append_draft X w = draft (events_seqno_seq (w_db w) + 1) (utc_now X (w_tick w + 3))"

lemma append_in_pieces:
  "append X actor app_id event_type event_data =
     andthen (map_err AuditDatabase (exec X (\<lambda>_. query (\<lambda>_. ())))) (\<lambda>_.
     andthen (map_err AuditDatabase (exec X (\<lambda>_. nextval_seqno))) (\<lambda>k.
     andthen (map_err AuditDatabase (exec X (\<lambda>_. query latest_hash))) (\<lambda>latest.
     andthen (draw (utc_now X)) (\<lambda>now.
     andthen (need (json_vec X (draft k now actor app_id event_type event_data)) AuditSerialize) (\<lambda>bs.
     map_err AuditDatabase (exec X (\<lambda>_. insert_event
       (event_row X (case latest of None \<Rightarrow> genesis_hash X | Some h \<Rightarrow> h) bs k now actor app_id event_type event_data))))))))"
  by (simp add: append_def draft_def event_row_def Let_def)

lemma event_row_fields [simp]:
  "canonical_of (event_row X prev bs k now actor app_id ty ed) = draft k now actor app_id ty ed"
  "e_seqno (event_row X prev bs k now actor app_id ty ed) = k"
  "e_prev_hash (event_row X prev bs k now actor app_id ty ed) = prev"
  "e_hash (event_row X prev bs k now actor app_id ty ed) = compute_hash X prev bs"
  by (simp_all add: canonical_of_def draft_def event_row_def)

lemma query_cases:
  assumes "map_err g (exec X (\<lambda>_. query f)) w = (r, w')"
  shows "w' = w\<lparr>w_tick := Suc (w_tick w)\<rparr> \<and> (r = Inr (f (w_db w)) \<or> (\<exists>e. r = Inl e))"
  using assms by (auto simp: exec_query_run elim!: map_err_cases split: if_splits)

lemma nextval_cases:
  assumes "map_err g (exec X (\<lambda>_. nextval_seqno)) w = (r, w')"
  shows "not_appended (w_db w) (w_db w') \<and> (\<exists>e. r = Inl e)
    \<or> r = Inr (events_seqno_seq (w_db w) + 1)
      \<and> w' = w\<lparr>w_tick := Suc (w_tick w), w_db := (w_db w)\<lparr>events_seqno_seq := events_seqno_seq (w_db w) + 1\<rparr>\<rparr>"
  using assms by (auto simp: nextval_seqno_def elim!: map_err_cases exec_cases
      intro: not_appended_step not_appended_step [OF sym])

lemma append_row_cases:
  assumes "andthen (draw (utc_now X)) (\<lambda>now.
     andthen (need (json_vec X (draft k now actor app_id ty ed)) AuditSerialize) (\<lambda>bs.
     map_err AuditDatabase (exec X (\<lambda>_. insert_event (event_row X prev bs k now actor app_id ty ed))))) w = (r, w')"
  shows "w_db w' = w_db w \<and> (\<exists>e. r = Inl e)
    \<or> (\<exists>bs e. json_vec X (draft k (utc_now X (w_tick w)) actor app_id ty ed) = Some bs
        \<and> e = event_row X prev bs k (utc_now X (w_tick w)) actor app_id ty ed
        \<and> k \<notin> e_seqno ` set (events (w_db w)) \<and> w_db w' = (w_db w)\<lparr>events := events (w_db w) @ [e]\<rparr>
        \<and> (r = Inr e \<or> r = Inl (AuditDatabase ConnectionError)))"
proof (cases "json_vec X (draft k (utc_now X (w_tick w)) actor app_id ty ed)")
  case None
  then show ?thesis using assms by (auto simp: andthen_Inr andthen_Inl)
next
  case (Some bs)
  let ?e = "event_row X prev bs k (utc_now X (w_tick w)) actor app_id ty ed"
  have "map_err AuditDatabase (exec X (\<lambda>_. insert_event ?e)) (w\<lparr>w_tick := Suc (w_tick w)\<rparr>) = (r, w')"
    using assms Some by (simp add: andthen_Inr)
  from insert_event_run [OF this] Some show ?thesis by auto
qed

lemma append_cases:
  assumes "append X actor app_id event_type event_data w = (r, w')"
  shows "not_appended (w_db w) (w_db w') \<and> (\<exists>e. r = Inl e)
         \<or> (\<exists>bs e. json_vec X (append_draft X w actor app_id event_type event_data) = Some bs
              \<and> e_seqno e \<notin> e_seqno ` set (events (w_db w))
              \<and> canonical_of e = append_draft X w actor app_id event_type event_data
              \<and> e_prev_hash e = (case latest_hash (w_db w) of None \<Rightarrow> genesis_hash X | Some h \<Rightarrow> h)
              \<and> e_hash e = compute_hash X (e_prev_hash e) bs
              \<and> w_db w' = (w_db w)\<lparr>events := events (w_db w) @ [e],
                                    events_seqno_seq := events_seqno_seq (w_db w) + 1\<rparr>
              \<and> (r = Inr e \<or> r = Inl (AuditDatabase ConnectionError)))"
  using assms unfolding append_in_pieces
proof (cases rule: andthen_cases)
  case (go u w1)
  note w1 = conjunct1 [OF query_cases [OF go(1)]]
  from go(2) show ?thesis
  proof (cases rule: andthen_cases)
    case (stop e)
    then show ?thesis using nextval_cases [OF stop(1)] w1 by auto
  next
    case (go k w2)
    then have w2: "k = events_seqno_seq (w_db w) + 1"
      "w2 = w\<lparr>w_tick := Suc (Suc (w_tick w)), w_db := (w_db w)\<lparr>events_seqno_seq := k\<rparr>\<rparr>"
      using nextval_cases [OF go(1)] w1 by auto
    then have na: "not_appended (w_db w) (w_db w2)" by (auto intro: not_appended_step)
    from go(2) show ?thesis
    proof (cases rule: andthen_cases)
      case (stop e)
      then show ?thesis using query_cases [OF stop(1)] na by auto
    next
      case (go latest w3)
      then have w3: "latest = latest_hash (w_db w)" "w3 = w2\<lparr>w_tick := w_tick w + 3\<rparr>"
        using query_cases [OF go(1)] w2 by (auto simp: eval_nat_numeral)
      from append_row_cases [OF go(2)]
      consider "w_db w' = w_db w3" "\<exists>e. r = Inl e"
        | bs e where "json_vec X (draft k (utc_now X (w_tick w3)) actor app_id event_type event_data) = Some bs"
          "e = event_row X (case latest of None \<Rightarrow> genesis_hash X | Some h \<Rightarrow> h) bs k (utc_now X (w_tick w3))
            actor app_id event_type event_data"
          "k \<notin> e_seqno ` set (events (w_db w3))" "w_db w' = (w_db w3)\<lparr>events := events (w_db w3) @ [e]\<rparr>"
          "r = Inr e \<or> r = Inl (AuditDatabase ConnectionError)"
        by blast
      then show ?thesis
      proof cases
        case 1
        with na w2 w3 show ?thesis by auto
      next
        case (2 bs e)
        with w2 w3 show ?thesis
          by (intro disjI2 exI [of _ bs] exI [of _ e]) (simp add: append_draft_def)
      qed
    qed
  qed
next
  case (stop e)
  then show ?thesis using query_cases [OF stop(1)] by auto
qed

lemma append_no_fault:
  assumes "no_faults X" and "events_seqno_seq (w_db w) + 1 \<notin> e_seqno ` set (events (w_db w))"
    and "json_vec X (append_draft X w actor app_id event_type event_data) = Some bs"
  shows "\<exists>e w'. append X actor app_id event_type event_data w = (Inr e, w')"
  using assms
  by (simp add: append_def andthen_def map_err_def exec_no_fault nextval_seqno_def
      insert_event_def sql_ok_def Let_def append_draft_def draft_def eval_nat_numeral)

section \<open>The log only grows, and stays verifiable\<close>

definition log_step :: "ext \<Rightarrow> database \<Rightarrow> database \<Rightarrow> bool" where
  "log_step X d d' \<longleftrightarrow>
     events_seqno_seq d \<le> events_seqno_seq d'
     \<and> (log_ok X d \<longrightarrow> log_ok X d' \<and> prefix (events d) (events d'))"

lemma log_ok_cong:
  "log_ok X d \<Longrightarrow> events d' = events d \<Longrightarrow> events_seqno_seq d \<le> events_seqno_seq d' \<Longrightarrow> log_ok X d'"
  unfolding log_ok_def by auto

lemma log_step_same_events:
  "events d' = events d \<Longrightarrow> events_seqno_seq d \<le> events_seqno_seq d' \<Longrightarrow> log_step X d d'"
  unfolding log_step_def by (auto intro: log_ok_cong)

interpretation audit_log: db_relation "log_step X" for X
proof
  show "log_step X d d" for d by (simp add: log_step_def)
  show "log_step X d1 d2 \<Longrightarrow> log_step X d2 d3 \<Longrightarrow> log_step X d1 d3" for d1 d2 d3
    unfolding log_step_def by auto
  show "log_step X d d' \<Longrightarrow> log_step X d (rollback d d')" for d d'
    by (auto simp: rollback_def log_step_def intro: log_ok_cong)
qed

lemma log_ok_snoc:
  assumes "log_ok X d" and "e_seqno e = events_seqno_seq d + 1"
    and "e_prev_hash e = (case latest_hash d of None \<Rightarrow> genesis_hash X | Some h \<Rightarrow> h)"
    and "event_bytes X e = Some bs" and "e_hash e = compute_hash X (e_prev_hash e) bs"
  shows "log_ok X (d\<lparr>events := events d @ [e], events_seqno_seq := events_seqno_seq d + 1\<rparr>)"
proof -
  have s: "sorted_wrt (<) (map e_seqno (events d))"
    and b: "\<forall>q \<in> set (events d). e_seqno q \<le> events_seqno_seq d"
    and c: "chain_from X (genesis_hash X) (events d)"
    using assms(1) by (auto simp: log_ok_def)
  have "e_prev_hash e = tail_hash (genesis_hash X) (events d)"
    using assms(3) latest_hash_tail [OF s] by simp
  then have "chain_from X (genesis_hash X) (events d @ [e])"
    using c assms(4,5) by (simp add: chain_from_snoc)
  then show ?thesis
    using s b assms(2) by (fastforce simp: log_ok_def sorted_wrt_append)
qed

lemma append_log_step: "obeys (log_step X) (append X actor app_id event_type event_data)"
  unfolding obeys_def
proof
  fix w :: world
  obtain r w' where run: "append X actor app_id event_type event_data w = (r, w')" by fastforce
  let ?dr = "append_draft X w actor app_id event_type event_data"
  consider "not_appended (w_db w) (w_db w')"
    | bs e where "json_vec X ?dr = Some bs" "canonical_of e = ?dr"
      "e_prev_hash e = (case latest_hash (w_db w) of None \<Rightarrow> genesis_hash X | Some h \<Rightarrow> h)"
      "e_hash e = compute_hash X (e_prev_hash e) bs"
      "w_db w' = (w_db w)\<lparr>events := events (w_db w) @ [e],
                           events_seqno_seq := events_seqno_seq (w_db w) + 1\<rparr>"
    using append_cases [OF run] by blast
  then have "log_step X (w_db w) (w_db w')"
  proof cases
    case 1
    then show ?thesis by (auto simp: not_appended_def intro: log_step_same_events)
  next
    case 2
    then have "e_seqno e = events_seqno_seq (w_db w) + 1"
      by (metis append_draft_def draft_def canonical_of_def canonical.ext_inject)
    moreover have "event_bytes X e = Some bs" using 2 by (simp add: event_bytes_def)
    ultimately show ?thesis using 2 log_ok_snoc
      by (auto simp: log_step_def)
  qed
  with run show "log_step X (w_db w) (w_db (snd (append X actor app_id event_type event_data w)))"
    by simp
qed

section \<open>Reading the log\<close>

record list_filter =
  lf_actor :: "uuid option"
  lf_since :: "time option"
  lf_before_seqno :: "int option"
  lf_limit :: "u32 option"
  lf_event_type :: "string option"
  lf_search :: "string option"
  lf_offset :: "int option"

definition DEFAULT_PAGE_SIZE :: u32 where
  "DEFAULT_PAGE_SIZE = 50"

definition MAX_PAGE_SIZE :: u32 where
  "MAX_PAGE_SIZE = 200"

text \<open>\<open>$n IS NULL OR p\<close>, and \<open>ILIKE '%' || $n || '%'\<close> on a nullable column.\<close>

definition unset_or :: "'a option \<Rightarrow> ('a \<Rightarrow> bool) \<Rightarrow> bool" where
  "unset_or x p = (case x of None \<Rightarrow> True | Some a \<Rightarrow> p a)"

definition contains :: "ext \<Rightarrow> string option \<Rightarrow> string \<Rightarrow> bool" where
  "contains X col s = (case col of None \<Rightarrow> False | Some c \<Rightarrow> pg_ilike X c (''%'' @ s @ ''%''))"

definition filter_matches :: "ext \<Rightarrow> list_filter \<Rightarrow> audit_event \<Rightarrow> bool" where
  "filter_matches X flt e =
     (unset_or (lf_actor flt) (\<lambda>a. e_actor_user_id e = Some a)
      \<and> unset_or (lf_since flt) (\<lambda>t. t < e_occurred_at e)
      \<and> unset_or (lf_event_type flt) (\<lambda>t. e_event_type e = t)
      \<and> unset_or (lf_search flt) (\<lambda>s. contains X (Some (e_event_type e)) s
           \<or> contains X (e_actor_display_name e) s
           \<or> contains X (Some (jsonb_text X (e_event_data e))) s))"

definition clamp_u32 :: "u32 \<Rightarrow> u32 \<Rightarrow> u32 \<Rightarrow> u32" where
  "clamp_u32 x lo hi = (if x < lo then lo else if hi < x then hi else x)"

definition audit_list :: "ext \<Rightarrow> list_filter \<Rightarrow> audit_event list stmt" where
  "audit_list X flt d =
     (let limit = clamp_u32 (case lf_limit flt of None \<Rightarrow> DEFAULT_PAGE_SIZE | Some l \<Rightarrow> l)
                    1 MAX_PAGE_SIZE;
          offset = (case lf_offset flt of None \<Rightarrow> 0 | Some k \<Rightarrow> k) in
      if offset < 0 then sql_err DataError d
      else query (\<lambda>d. take (unat limit) (drop (nat offset) (order_desc e_seqno
             (filter (\<lambda>e. filter_matches X flt e
                        \<and> unset_or (lf_before_seqno flt) (\<lambda>n. e_seqno e < n)) (events d))))) d)"

definition count_filtered :: "ext \<Rightarrow> list_filter \<Rightarrow> int stmt" where
  "count_filtered X flt = query (\<lambda>d. int (count_where (filter_matches X flt) (events d)))"

definition audit_count :: "int stmt" where
  "audit_count = query (\<lambda>d. int (length (events d)))"

definition distinct_event_types :: "string list stmt" where
  "distinct_event_types = query (\<lambda>d. sort (remdups (map e_event_type (events d))))"

definition audit_get :: "int \<Rightarrow> audit_event option stmt" where
  "audit_get seqno = query (\<lambda>d. fetch_optional (filter (\<lambda>e. e_seqno e = seqno) (events d)))"

lemma clamp_u32_bounds:
  "lo \<le> hi \<Longrightarrow> lo \<le> clamp_u32 x lo hi \<and> clamp_u32 x lo hi \<le> hi"
  by (auto simp: clamp_u32_def)

text \<open>The newest-first order of a sorted log is its reverse, filters included.\<close>

lemma order_desc_events:
  "sorted_wrt (<) (map e_seqno es) \<Longrightarrow> order_desc e_seqno (filter p es) = rev (filter p es)"
  by (intro order_desc_sorted) (simp add: sorted_wrt_map sorted_wrt_filter)

text \<open>Cutting a sorted log at the cursor a page returned leaves the rest of the walk.\<close>

lemma take_then_rest: "xs = take n xs @ drop (length (take n xs)) xs"
  by (cases "n \<le> length xs") simp_all

lemma take_both: "take n xs @ take k (drop (length (take n xs)) xs) = take (length (take n xs) + k) xs"
  by (simp add: take_add min_def)

lemma before_cursor_rest:
  assumes "sorted_wrt (<) (map e_seqno es)" and "rev (filter p es) = page @ e # rest"
  shows "rev (filter (\<lambda>q. p q \<and> e_seqno q < e_seqno e) es) = rest"
proof -
  have s: "sorted_wrt (\<lambda>a b. e_seqno a < e_seqno b) (filter p es)"
    using assms(1) by (simp add: sorted_wrt_map sorted_wrt_filter)
  have f: "filter p es = rev rest @ e # rev page"
    using assms(2) by (metis append.assoc append_Cons append_Nil rev.simps(2) rev_append rev_rev_ident)
  have "filter (\<lambda>q. p q \<and> e_seqno q < e_seqno e) es
      = filter (\<lambda>q. e_seqno q < e_seqno e) (filter p es)"
    by (simp add: conj_commute)
  also have "\<dots> = rev rest"
    using s unfolding f by (auto simp: sorted_wrt_append filter_id_conv filter_empty_conv)
  finally show ?thesis by simp
qed

section \<open>Tamper evidence\<close>

text \<open>The inputs that the hashes of a chain were computed on, the genesis input included.\<close>

fun hash_inputs :: "ext \<Rightarrow> audit_event list \<Rightarrow> bytes list" where
  "hash_inputs X [] = []"
| "hash_inputs X (e # es) =
     (case event_bytes X e of None \<Rightarrow> hash_inputs X es
      | Some bs \<Rightarrow> (e_prev_hash e @ bs) # hash_inputs X es)"

definition chain_inputs :: "ext \<Rightarrow> audit_event list \<Rightarrow> bytes set" where
  "chain_inputs X es = insert (as_bytes ''sylva-audit-genesis'') (set (hash_inputs X es))"

lemma hash_inputs_snoc:
  "hash_inputs X (es @ [e]) = hash_inputs X es @
     (case event_bytes X e of None \<Rightarrow> [] | Some bs \<Rightarrow> [e_prev_hash e @ bs])"
  by (induction es) (auto split: option.splits)

lemma canonical_determines:
  "canonical_of e = canonical_of f \<Longrightarrow> e_prev_hash e = e_prev_hash f \<Longrightarrow> e_hash e = e_hash f \<Longrightarrow> e = f"
  by (cases e; cases f) (simp add: canonical_of_def from_timestamptz_def)

lemma tail_hash_width:
  assumes "sha256_width X" and "chain_from X (genesis_hash X) es"
  shows "length (tail_hash (genesis_hash X) es) = 32"
proof (cases es rule: rev_cases)
  case Nil
  with assms(1) show ?thesis by (simp add: sha256_width_def genesis_hash_def)
next
  case (snoc qs q)
  with assms show ?thesis
    by (auto simp: chain_from_snoc sha256_width_def compute_hash_def)
qed

lemma last_not_genesis:
  assumes X: "sha256_width X" and c: "chain_from X (genesis_hash X) (es @ [e])"
    and inj: "inj_on (sha256 X) S" and S: "chain_inputs X (es @ [e]) \<subseteq> S"
  shows "e_hash e \<noteq> genesis_hash X"
proof
  assume eq: "e_hash e = genesis_hash X"
  obtain bs where bs: "event_bytes X e = Some bs" "e_hash e = sha256 X (e_prev_hash e @ bs)"
    and p: "chain_from X (genesis_hash X) es" "e_prev_hash e = tail_hash (genesis_hash X) es"
    using c by (auto simp: chain_from_snoc compute_hash_def)
  have "e_prev_hash e @ bs \<in> S" "as_bytes ''sylva-audit-genesis'' \<in> S"
    using S bs by (auto simp: chain_inputs_def hash_inputs_snoc)
  then have "e_prev_hash e @ bs = as_bytes ''sylva-audit-genesis''"
    using inj eq bs(2) by (auto simp: genesis_hash_def dest: inj_onD)
  then have "length (e_prev_hash e @ bs) = length (as_bytes ''sylva-audit-genesis'')"
    by (rule arg_cong)
  then have "length (e_prev_hash e @ bs) = 19" unfolding length_as_bytes by simp
  moreover have "length (e_prev_hash e) = 32" using tail_hash_width [OF X p(1)] p(2) by simp
  ultimately show False by simp
qed

lemma chains_agree:
  assumes X: "sha256_width X"
    and inj: "inj_on (sha256 X) S" and json: "inj_on (json_vec X) (canonical_of ` T)"
  shows "chain_from X (genesis_hash X) es \<Longrightarrow> chain_from X (genesis_hash X) fs \<Longrightarrow>
     tail_hash (genesis_hash X) es = tail_hash (genesis_hash X) fs \<Longrightarrow>
     chain_inputs X es \<subseteq> S \<Longrightarrow> chain_inputs X fs \<subseteq> S \<Longrightarrow> set es \<subseteq> T \<Longrightarrow> set fs \<subseteq> T \<Longrightarrow> es = fs"
proof (induction es arbitrary: fs rule: rev_induct)
  case Nil
  then show ?case
    using last_not_genesis [OF X _ inj] by (cases fs rule: rev_cases) auto
next
  case (snoc e es)
  show ?case
  proof (cases fs rule: rev_cases)
    case Nil
    with snoc.prems last_not_genesis [OF X _ inj] show ?thesis by auto
  next
    case (snoc gs g)
    note f = this
    obtain bs where e: "event_bytes X e = Some bs" "e_hash e = sha256 X (e_prev_hash e @ bs)"
        "chain_from X (genesis_hash X) es" "e_prev_hash e = tail_hash (genesis_hash X) es"
      using snoc.prems(1) by (auto simp: chain_from_snoc compute_hash_def)
    obtain cs where g: "event_bytes X g = Some cs" "e_hash g = sha256 X (e_prev_hash g @ cs)"
        "chain_from X (genesis_hash X) gs" "e_prev_hash g = tail_hash (genesis_hash X) gs"
      using snoc.prems(2) f by (auto simp: chain_from_snoc compute_hash_def)
    have h: "e_hash e = e_hash g" using snoc.prems(3) f by simp
    have "e_prev_hash e @ bs \<in> S" "e_prev_hash g @ cs \<in> S"
      using snoc.prems(4,5) e(1) g(1) f by (auto simp: chain_inputs_def hash_inputs_snoc)
    then have "e_prev_hash e @ bs = e_prev_hash g @ cs"
      using inj h e(2) g(2) by (auto dest: inj_onD)
    moreover have "length (e_prev_hash e) = 32" "length (e_prev_hash g) = 32"
      using tail_hash_width [OF X] e(3,4) g(3,4) by simp_all
    ultimately have p: "e_prev_hash e = e_prev_hash g" "bs = cs" by auto
    have "canonical_of e = canonical_of g"
      using e(1) g(1) p(2) snoc.prems(6,7) f
      by (intro inj_onD [OF json]) (auto simp: event_bytes_def)
    then have "e = g" using canonical_determines p(1) h by blast
    moreover have "es = gs"
    proof (rule snoc.IH [OF e(3) g(3)])
      show "tail_hash (genesis_hash X) es = tail_hash (genesis_hash X) gs"
        using e(4) g(4) p(1) by simp
      show "chain_inputs X es \<subseteq> S" "chain_inputs X gs \<subseteq> S"
        using snoc.prems(4,5) f by (auto simp: chain_inputs_def hash_inputs_snoc)
      show "set es \<subseteq> T" "set gs \<subseteq> T" using snoc.prems(6,7) f by auto
    qed
    ultimately show ?thesis using f by simp
  qed
qed

section \<open>Properties\<close>

text \<open>
  C1. On a verifiable log, with a working connection, \<open>append\<close> returns one new event: it is
  stored last, numbered by the sequence, linked to the hash of the event before it, and its
  hash is the one a verifier recomputes from the stored row (time stamps truncated by the
  column included). The longer log verifies again.
\<close>

theorem append_extends_chain:
  assumes "log_ok X (w_db w)" and "no_faults X"
    and "json_vec X (append_draft X w actor app_id event_type event_data) = Some bs"
  shows "\<exists>e w'. append X actor app_id event_type event_data w = (Inr e, w')
     \<and> events (w_db w') = events (w_db w) @ [e]
     \<and> e_seqno e = events_seqno_seq (w_db w) + 1
     \<and> e_prev_hash e = tail_hash (genesis_hash X) (events (w_db w))
     \<and> event_bytes X e = Some bs \<and> e_hash e = compute_hash X (e_prev_hash e) bs
     \<and> e_event_type e = event_type \<and> e_event_data e = event_data \<and> e_app_id e = app_id
     \<and> e_actor_user_id e = map_option act_user_id actor
     \<and> log_ok X (w_db w')"
proof -
  have fresh: "events_seqno_seq (w_db w) + 1 \<notin> e_seqno ` set (events (w_db w))"
    using assms(1) by (fastforce simp: log_ok_def)
  obtain e w' where run: "append X actor app_id event_type event_data w = (Inr e, w')"
    using append_no_fault [OF assms(2) fresh assms(3)] by blast
  have ok: "log_ok X (w_db w')"
    using obeysD [OF append_log_step run] assms(1) by (simp add: log_step_def)
  show ?thesis
    using append_cases [OF run] run ok assms latest_hash_tail [of "w_db w" "genesis_hash X"]
    by (auto simp: log_ok_def event_bytes_def append_draft_def draft_def canonical_of_def)
qed

theorem append_extends_chain_witness:
  "\<exists>e w'. append demo_ext None None ''login'' JNull demo_world = (Inr e, w')
     \<and> events (w_db w') = [e] \<and> log_ok demo_ext (w_db w')"
  using append_extends_chain [of demo_ext demo_world None None "''login''" JNull
      "as_bytes ''login'' @ as_bytes (dec_int 1)"]
  by (auto simp: log_ok_def demo_ext_documented append_draft_def draft_def)

text \<open>
  C2. Tamper evidence: when SHA-256 has no collision among the inputs the two chains hash and
  the canonical JSON separates their events, two verifiable logs with the same head hash are
  the same log. Editing, dropping, inserting or reordering an event changes the head.
\<close>

theorem tamper_evidence:
  assumes "sha256_width X"
    and "inj_on (sha256 X) (chain_inputs X (events d) \<union> chain_inputs X (events d'))"
    and "inj_on (json_vec X) (canonical_of ` (set (events d) \<union> set (events d')))"
    and "log_ok X d" and "log_ok X d'" and "latest_hash d = latest_hash d'"
  shows "events d = events d'"
proof (rule chains_agree [OF assms(1-3)])
  show "tail_hash (genesis_hash X) (events d) = tail_hash (genesis_hash X) (events d')"
    using assms(4-6) latest_hash_tail [of d "genesis_hash X"] latest_hash_tail [of d' "genesis_hash X"]
    by (simp add: log_ok_def)
qed (use assms(4,5) in \<open>auto simp: log_ok_def\<close>)

definition demo_event :: audit_event where
  "demo_event = \<lparr>e_seqno = 1, e_occurred_at = 0, e_actor_user_id = None,
     e_actor_display_name = None, e_app_id = None, e_event_type = ''login'',
     e_event_data = JNull, e_prev_hash = genesis_hash demo_ext,
     e_hash = compute_hash demo_ext (genesis_hash demo_ext) (as_bytes ''login1'')\<rparr>"

definition demo_log :: database where
  "demo_log = empty_db\<lparr>events := [demo_event], events_seqno_seq := 1\<rparr>"

lemma dec_one: "dec_int 1 = ''1''"
  by code_simp

lemma demo_event_bytes: "event_bytes demo_ext demo_event = Some (as_bytes ''login1'')"
  by (simp add: event_bytes_def demo_event_def canonical_of_def dec_one as_bytes_def)

lemma demo_log_ok: "log_ok demo_ext demo_log"
  using demo_event_bytes
  by (simp add: log_ok_def demo_log_def demo_event_def)

theorem tamper_evidence_witness: "events demo_log = events (demo_log\<lparr>sessions := []\<rparr>)"
proof (rule tamper_evidence [of demo_ext])
  show "inj_on (sha256 demo_ext)
     (chain_inputs demo_ext (events demo_log) \<union> chain_inputs demo_ext (events (demo_log\<lparr>sessions := []\<rparr>)))"
    unfolding inj_on_def chain_inputs_def by code_simp
qed (use demo_log_ok in \<open>simp_all add: demo_ext_documented demo_log_def latest_hash_def log_ok_def\<close>)



end
