(* ===== verification/Audit_Concurrency.thy ===== *)
theory Audit_Concurrency
imports Audit_Log
begin

text \<open>
  Concurrent appenders. \<open>append\<close> runs in_tx the transactions of many requests at once; here its
  database calls (the advisory lock, the sequence, the last hash, the insert) and the end of the
  transaction are steps of their own, of any number of transactions in any order. Rows of an open
  transaction are seen by itself only, a statement sees what is committed when it runs (the default
  isolation of PostgreSQL), and the sequence is shared and never rolled back. A second append of a
  transaction that holds the lock goes on from its sequence number.
\<close>

section \<open>Transactions in steps\<close>

datatype append_phase = NoLock | Locked | Numbered int | Linked int bytes

record append_tx =
  at_phase :: append_phase
  at_rows :: "audit_event list"

record appenders =
  ap_db :: database
  ap_tx :: "nat \<Rightarrow> append_tx"

definition sees :: "appenders \<Rightarrow> nat \<Rightarrow> database" where
  "sees s t = (ap_db s)\<lparr>events := events (ap_db s) @ at_rows (ap_tx s t)\<rparr>"

definition enter :: "nat \<Rightarrow> append_phase \<Rightarrow> appenders \<Rightarrow> appenders" where
  "enter t p s = s\<lparr>ap_tx := (ap_tx s)(t := (ap_tx s t)\<lparr>at_phase := p\<rparr>)\<rparr>"

definition finish :: "nat \<Rightarrow> appenders \<Rightarrow> appenders" where
  "finish t s = s\<lparr>ap_tx := (ap_tx s)(t := \<lparr>at_phase = NoLock, at_rows = []\<rparr>)\<rparr>"

text \<open>With \<open>locking\<close>, the lock is granted when nobody holds it; it is held to the end of the transaction.\<close>

inductive append_step :: "ext \<Rightarrow> bool \<Rightarrow> appenders \<Rightarrow> appenders \<Rightarrow> bool" for X locking where
  lock: "at_phase (ap_tx s t) = NoLock \<Longrightarrow> (locking \<Longrightarrow> \<forall>t'. at_phase (ap_tx s t') = NoLock) \<Longrightarrow>
     append_step X locking s (enter t Locked s)"
| nextval: "at_phase (ap_tx s t) = Locked \<Longrightarrow> nextval_seqno (ap_db s) = (Inr k, d) \<Longrightarrow>
     append_step X locking s (enter t (Numbered k) (s\<lparr>ap_db := d\<rparr>))"
| read: "at_phase (ap_tx s t) = Numbered k \<Longrightarrow>
     append_step X locking s (enter t (Linked k (link X (sees s t))) s)"
| insert: "at_phase (ap_tx s t) = Linked k prev \<Longrightarrow>
     json_vec X (draft k now actor app_id event_type event_data) = Some bs \<Longrightarrow>
     insert_event (event_row X prev bs k now actor app_id event_type event_data) (sees s t) = (Inr e, d) \<Longrightarrow>
     append_step X locking s (s\<lparr>ap_tx := (ap_tx s)(t := \<lparr>at_phase = Locked, at_rows = at_rows (ap_tx s t) @ [e]\<rparr>)\<rparr>)"
| commit: "at_phase (ap_tx s t) = Locked \<Longrightarrow> append_step X locking s (finish t (s\<lparr>ap_db := sees s t\<rparr>))"
| abort: "at_phase (ap_tx s t) \<noteq> NoLock \<Longrightarrow> append_step X locking s (finish t s)"

abbreviation append_steps :: "ext \<Rightarrow> bool \<Rightarrow> appenders \<Rightarrow> appenders \<Rightarrow> bool" where
  "append_steps X locking \<equiv> (append_step X locking)\<^sup>*\<^sup>*"

definition idle :: "database \<Rightarrow> appenders" where
  "idle d = \<lparr>ap_db = d, ap_tx = \<lambda>_. \<lparr>at_phase = NoLock, at_rows = []\<rparr>\<rparr>"

lemmas append_state_defs = enter_def finish_def sees_def

section \<open>The steps in a row are the code\<close>

lemma append_in_steps:
  assumes "append X actor app_id event_type event_data w = (Inr e, w')"
  shows "append_steps X True (idle (w_db w)) (idle (w_db w'))"
proof -
  let ?k = "events_seqno_seq (w_db w) + 1" and ?now = "utc_now X (w_tick w + 3)"
  let ?d1 = "(w_db w)\<lparr>events_seqno_seq := ?k\<rparr>"
  let ?st = "\<lambda>d p rows. (idle d)\<lparr>ap_tx := (ap_tx (idle d))(0 := \<lparr>at_phase = p, at_rows = rows\<rparr>)\<rparr>"
  have draft: "append_draft X w actor app_id event_type event_data = draft ?k ?now actor app_id event_type event_data"
    by (simp add: append_draft_def)
  obtain bs where bs: "json_vec X (draft ?k ?now actor app_id event_type event_data) = Some bs"
    and fresh: "e_seqno e \<notin> e_seqno ` set (events (w_db w))"
    and c: "canonical_of e = draft ?k ?now actor app_id event_type event_data" "e_prev_hash e = link X (w_db w)"
      "e_hash e = compute_hash X (e_prev_hash e) bs"
    and w': "w_db w' = (w_db w)\<lparr>events := events (w_db w) @ [e], events_seqno_seq := ?k\<rparr>"
    using append_cases [OF assms] unfolding draft link_def by auto
  have e: "e = event_row X (link X (w_db w)) bs ?k ?now actor app_id event_type event_data"
    using c by (cases e) (simp add: event_row_def canonical_of_def draft_def from_timestamptz_def to_timestamptz_def
        truncate_to_micros_eq)
  have "append_step X True (idle (w_db w)) (?st (w_db w) Locked [])"
    using append_step.lock [of "idle (w_db w)" 0] by (simp add: idle_def enter_def)
  moreover have "append_step X True (?st (w_db w) Locked []) (?st ?d1 (Numbered ?k) [])"
    using append_step.nextval [of "?st (w_db w) Locked []" 0] by (simp add: nextval_seqno_def enter_def idle_def)
  moreover have "append_step X True (?st ?d1 (Numbered ?k) []) (?st ?d1 (Linked ?k (link X (w_db w))) [])"
    using append_step.read [of "?st ?d1 (Numbered ?k) []" 0 ?k] by (simp add: enter_def sees_def idle_def link_def)
  moreover have "append_step X True (?st ?d1 (Linked ?k (link X (w_db w))) []) (?st ?d1 Locked [e])"
    using append_step.insert [of "?st ?d1 (Linked ?k (link X (w_db w))) []" 0 ?k "link X (w_db w)", OF _ bs] fresh
    by (simp add: sees_def insert_event_def sql_ok_def idle_def e [symmetric])
  moreover have "append_step X True (?st ?d1 Locked [e]) (idle (w_db w'))"
  proof -
    have "finish 0 ((?st ?d1 Locked [e])\<lparr>ap_db := sees (?st ?d1 Locked [e]) 0\<rparr>) = idle (w_db w')"
      by (simp add: finish_def sees_def idle_def w' fun_eq_iff)
    then show ?thesis
      using append_step.commit [of "?st ?d1 Locked [e]" 0] by (simp add: idle_def)
  qed
  ultimately show ?thesis
    by (meson converse_rtranclp_into_rtranclp rtranclp.rtrancl_refl)
qed

section \<open>The invariant of the lock\<close>

text \<open>
  What the holder of the lock has read stays true until it ends its transaction: its number is the
  newest, above every number it sees, and its link is the hash of the last event it sees.
\<close>

definition newest :: "database \<Rightarrow> int \<Rightarrow> bool" where
  "newest d k \<longleftrightarrow> k = events_seqno_seq d \<and> (\<forall>e \<in> set (events d). e_seqno e < k)"

definition holder_ok :: "ext \<Rightarrow> appenders \<Rightarrow> nat \<Rightarrow> bool" where
  "holder_ok X s t \<longleftrightarrow> log_ok X (sees s t)
     \<and> (case at_phase (ap_tx s t) of NoLock \<Rightarrow> at_rows (ap_tx s t) = [] | Locked \<Rightarrow> True
        | Numbered k \<Rightarrow> newest (sees s t) k
        | Linked k prev \<Rightarrow> newest (sees s t) k \<and> prev = tail_hash (genesis_hash X) (events (sees s t)))"

definition only_holder :: "appenders \<Rightarrow> nat \<Rightarrow> bool" where
  "only_holder s h \<longleftrightarrow> (\<forall>t. t \<noteq> h \<longrightarrow> ap_tx s t = \<lparr>at_phase = NoLock, at_rows = []\<rparr>)"

definition append_inv :: "ext \<Rightarrow> appenders \<Rightarrow> bool" where
  "append_inv X s \<longleftrightarrow> log_ok X (ap_db s) \<and> (\<exists>h. holder_ok X s h \<and> only_holder s h)"

lemma append_inv_idle: "log_ok X d \<Longrightarrow> append_inv X (idle d)"
  by (simp add: append_inv_def idle_def only_holder_def holder_ok_def sees_def log_ok_def)

lemma only_holderD: "only_holder s h \<Longrightarrow> at_phase (ap_tx s t) \<noteq> NoLock \<Longrightarrow> t = h"
  by (metis only_holder_def append_tx.select_convs(1))

lemma holder_okD:
  "holder_ok X s t \<Longrightarrow> log_ok X (sees s t)"
  "holder_ok X s t \<Longrightarrow> at_phase (ap_tx s t) = Numbered k \<Longrightarrow> newest (sees s t) k"
  "holder_ok X s t \<Longrightarrow> at_phase (ap_tx s t) = Linked k p \<Longrightarrow>
     newest (sees s t) k \<and> p = tail_hash (genesis_hash X) (events (sees s t))"
  by (simp_all add: holder_ok_def)

lemma only_holder_enter [simp]: "only_holder (enter h p s) h = only_holder s h"
  by (simp add: only_holder_def enter_def)

lemma only_holder_finish: "only_holder s h \<Longrightarrow> only_holder (finish h s) h"
  by (simp add: only_holder_def finish_def)

lemma enter_simps [simp]:
  "ap_db (enter t p s) = ap_db s" "at_phase (ap_tx (enter t p s) t) = p"
  "at_rows (ap_tx (enter t p s) t') = at_rows (ap_tx s t')" "sees (enter t p s) t' = sees s t'"
  by (simp_all add: enter_def sees_def)

lemma finish_simps [simp]:
  "ap_db (finish t s) = ap_db s" "ap_tx (finish t s) t = \<lparr>at_phase = NoLock, at_rows = []\<rparr>"
  by (simp_all add: finish_def)

lemma log_ok_next:
  assumes "log_ok X d" and "newest d k" and "e_seqno e = k"
    and "e_prev_hash e = tail_hash (genesis_hash X) (events d)"
    and "event_bytes X e = Some bs" and "e_hash e = compute_hash X (e_prev_hash e) bs"
  shows "log_ok X (d\<lparr>events := events d @ [e]\<rparr>)"
  using assms by (auto simp: log_ok_def newest_def sorted_wrt_append chain_from_snoc)

lemma nextval_log_ok:
  assumes "log_ok X d" and "k = events_seqno_seq d + 1"
  shows "log_ok X (d\<lparr>events_seqno_seq := k\<rparr>) \<and> newest (d\<lparr>events_seqno_seq := k\<rparr>) k"
  using assms by (auto simp: log_ok_def newest_def intro: order_trans)

lemma insert_event_Inr: "insert_event e d = (Inr x, d') \<Longrightarrow> x = e \<and> d' = d\<lparr>events := events d @ [e]\<rparr>"
  by (auto simp: insert_event_def sql_ok_def sql_err_def split: if_splits)

lemma event_row_bytes:
  "event_bytes X (event_row X prev bs k now actor app_id ty ed) = json_vec X (draft k now actor app_id ty ed)"
  by (simp add: event_bytes_def event_row_def canonical_of_def draft_def)

lemma link_tail: "log_ok X d \<Longrightarrow> link X d = tail_hash (genesis_hash X) (events d)"
  by (simp add: link_def latest_hash_tail log_ok_def)

lemma append_invI: "log_ok X (ap_db s) \<Longrightarrow> holder_ok X s h \<Longrightarrow> only_holder s h \<Longrightarrow> append_inv X s"
  by (auto simp: append_inv_def)

lemma lock_step:
  assumes "append_inv X s" and "\<forall>t. at_phase (ap_tx s t) = NoLock"
  shows "append_inv X (enter t Locked s)"
proof -
  obtain h where h: "log_ok X (ap_db s)" "holder_ok X s h" "only_holder s h"
    using assms(1) by (auto simp: append_inv_def)
  then have "ap_tx s h = \<lparr>at_phase = NoLock, at_rows = []\<rparr>"
    using assms(2) by (cases "ap_tx s h") (auto simp: holder_ok_def dest: spec [of _ h])
  then have "\<forall>t. ap_tx s t = \<lparr>at_phase = NoLock, at_rows = []\<rparr>" using h by (metis only_holder_def)
  with h(1) show ?thesis
    by (intro append_invI [of _ _ t]) (simp_all add: holder_ok_def only_holder_def enter_def sees_def log_ok_def)
qed

lemma nextval_step:
  assumes "log_ok X (ap_db s)" and "holder_ok X s t" and "only_holder s t"
    and "nextval_seqno (ap_db s) = (Inr k, d)"
  shows "append_inv X (enter t (Numbered k) (s\<lparr>ap_db := d\<rparr>)) \<and> events d = events (ap_db s)"
proof -
  have d: "d = (ap_db s)\<lparr>events_seqno_seq := k\<rparr>" "k = events_seqno_seq (ap_db s) + 1"
    using assms(4) by (auto simp: nextval_seqno_def)
  let ?s = "enter t (Numbered k) (s\<lparr>ap_db := d\<rparr>)"
  have seen: "sees ?s t = (sees s t)\<lparr>events_seqno_seq := k\<rparr>" by (simp add: sees_def enter_def d)
  have "log_ok X (sees ?s t) \<and> newest (sees ?s t) k"
    unfolding seen using holder_okD(1) [OF assms(2)] by (rule nextval_log_ok) (simp add: d sees_def)
  then have "holder_ok X ?s t" by (simp add: holder_ok_def)
  moreover have "only_holder ?s t" using assms(3) by (simp add: only_holder_def enter_def)
  ultimately show ?thesis
    using assms(1) d nextval_log_ok [of X "ap_db s" k] by (auto intro!: append_invI [of _ _ t])
qed

lemma insert_step:
  assumes "log_ok X (ap_db s)" and h: "holder_ok X s t" and "only_holder s t"
    and phase: "at_phase (ap_tx s t) = Linked k prev"
    and bs: "json_vec X (draft k now actor app_id ty ed) = Some bs"
    and run: "insert_event (event_row X prev bs k now actor app_id ty ed) (sees s t) = (Inr e, d)"
  shows "append_inv X (s\<lparr>ap_tx := (ap_tx s)(t := \<lparr>at_phase = Locked, at_rows = at_rows (ap_tx s t) @ [e]\<rparr>)\<rparr>)"
proof -
  have e: "e = event_row X prev bs k now actor app_id ty ed" using insert_event_Inr [OF run] by simp
  have "log_ok X ((sees s t)\<lparr>events := events (sees s t) @ [e]\<rparr>)"
    using log_ok_next [OF holder_okD(1) [OF h], of k e bs] holder_okD(3) [OF h phase] bs
    by (simp add: e event_row_bytes)
  with assms(1,3) show ?thesis
    by (intro append_invI [of _ _ t]) (simp_all add: holder_ok_def sees_def only_holder_def)
qed

lemma append_inv_step:
  assumes "append_step X True s s'" and inv: "append_inv X s"
  shows "append_inv X s' \<and> prefix (events (ap_db s)) (events (ap_db s'))"
proof -
  obtain h where db: "log_ok X (ap_db s)" and ok: "holder_ok X s h" and only: "only_holder s h"
    using inv by (auto simp: append_inv_def)
  have holder: "holder_ok X s t" "only_holder s t" if "at_phase (ap_tx s t) \<noteq> NoLock" for t
    using only_holderD [OF only that] ok only by simp_all
  show ?thesis
    using assms(1)
  proof cases
    case (lock t)
    then show ?thesis using lock_step [OF inv] by simp
  next
    case (nextval t k d)
    then show ?thesis using nextval_step [OF db holder [of t] nextval(3)] by simp
  next
    case (read t k)
    then have "holder_ok X s' t \<and> only_holder s' t"
      using holder [of t] holder_okD(2) [of X s t k] by (simp add: holder_ok_def link_tail)
    with read db show ?thesis by (auto simp: append_inv_def)
  next
    case (insert t k prev now actor app_id ty ed bs e d)
    then show ?thesis using insert_step [OF db holder insert(2-4)] by simp
  next
    case (commit t)
    then have "log_ok X (sees s t)" using holder holder_okD(1) by simp
    then show ?thesis
      using commit holder(2) [of t]
      by (auto simp: holder_ok_def finish_def sees_def only_holder_def intro!: append_invI [of _ _ t])
  next
    case (abort t)
    then show ?thesis
      using db holder(2) [of t]
      by (auto simp: holder_ok_def finish_def sees_def only_holder_def intro!: append_invI [of _ _ t])
  qed
qed

lemma append_inv_steps:
  "append_steps X True s s' \<Longrightarrow> append_inv X s \<Longrightarrow>
     append_inv X s' \<and> prefix (events (ap_db s)) (events (ap_db s'))"
  by (induction rule: rtranclp_induct) (auto dest: append_inv_step intro: prefix_order.trans)

section \<open>Properties\<close>

text \<open>
  C4. However the steps of any number of concurrent \<open>append\<close>s, commits and rollbacks interleave,
  the advisory lock keeps the committed log verifiable: it only ever grows at its end, every event
  is linked to the one committed before it, and at most one transaction is between its lock and its
  end.
\<close>

theorem appends_serialised:
  assumes "log_ok X d" and "append_steps X True (idle d) s"
  shows "log_ok X (ap_db s) \<and> prefix (events d) (events (ap_db s))
     \<and> (\<forall>t t'. at_phase (ap_tx s t) = NoLock \<or> at_phase (ap_tx s t') = NoLock \<or> t = t')"
proof -
  have inv: "append_inv X s" and p: "prefix (events d) (events (ap_db s))"
    using append_inv_steps [OF assms(2) append_inv_idle [OF assms(1)]] by (simp_all add: idle_def)
  obtain h where "only_holder s h" using inv by (auto simp: append_inv_def)
  then show ?thesis using inv p only_holderD by (metis append_inv_def)
qed

section \<open>Two transactions\<close>

abbreviation out_tx :: append_tx where
  "out_tx \<equiv> \<lparr>at_phase = NoLock, at_rows = []\<rparr>"

abbreviation in_tx :: "append_phase \<Rightarrow> append_tx" where
  "in_tx p \<equiv> \<lparr>at_phase = p, at_rows = []\<rparr>"

definition two_tx :: "audit_event list \<Rightarrow> int \<Rightarrow> append_tx \<Rightarrow> append_tx \<Rightarrow> appenders" where
  "two_tx es n a b = \<lparr>ap_db = empty_db\<lparr>events := es, events_seqno_seq := n\<rparr>, ap_tx = (\<lambda>_. out_tx)(0 := a, 1 := b)\<rparr>"

definition login_row :: "int \<Rightarrow> audit_event" where
  "login_row n = event_row demo_ext (genesis_hash demo_ext) (as_bytes ''login'' @ as_bytes (dec_int n)) n 0 None None
     ''login'' JNull"

lemma two_tx_simps [simp]:
  "ap_db (two_tx es n a b) = empty_db\<lparr>events := es, events_seqno_seq := n\<rparr>"
  "ap_tx (two_tx es n a b) 0 = a" "ap_tx (two_tx es n a b) (Suc 0) = b"
  "enter 0 p (two_tx es n a b) = two_tx es n (a\<lparr>at_phase := p\<rparr>) b"
  "enter (Suc 0) p (two_tx es n a b) = two_tx es n a (b\<lparr>at_phase := p\<rparr>)"
  "finish 0 (two_tx es n a b) = two_tx es n out_tx b" "finish (Suc 0) (two_tx es n a b) = two_tx es n a out_tx"
  "(two_tx es n a b)\<lparr>ap_db := empty_db\<lparr>events := fs, events_seqno_seq := m\<rparr>\<rparr> = two_tx fs m a b"
  "(two_tx es n a b)\<lparr>ap_db := empty_db\<lparr>events_seqno_seq := m, events := fs\<rparr>\<rparr> = two_tx fs m a b"
  "(two_tx es n a b)\<lparr>ap_tx := (ap_tx (two_tx es n a b))(0 := c)\<rparr> = two_tx es n c b"
  "(two_tx es n a b)\<lparr>ap_tx := (ap_tx (two_tx es n a b))(Suc 0 := c)\<rparr> = two_tx es n a c"
  by (auto simp: two_tx_def enter_def finish_def fun_eq_iff)

lemma two_tx_idle: "two_tx [] 0 out_tx out_tx = idle empty_db"
  by (simp add: two_tx_def idle_def fun_eq_iff empty_db_def)

lemma two_tx_outside: "a = out_tx \<Longrightarrow> b = out_tx \<Longrightarrow> at_phase (ap_tx (two_tx es n a b) t) = NoLock"
  by (simp add: two_tx_def)

lemma two_tx_lock:
  "\<not> locking \<or> b = out_tx \<Longrightarrow> append_step X locking (two_tx es n out_tx b) (two_tx es n (in_tx Locked) b)"
  "\<not> locking \<or> a = out_tx \<Longrightarrow> append_step X locking (two_tx es n a out_tx) (two_tx es n a (in_tx Locked))"
  using append_step.lock [of "two_tx es n out_tx b" 0] append_step.lock [of "two_tx es n a out_tx" 1]
  by (auto simp: two_tx_outside)

lemma two_tx_nextval:
  "append_step X locking (two_tx es n (in_tx Locked) b) (two_tx es (n + 1) (in_tx (Numbered (n + 1))) b)"
  "append_step X locking (two_tx es n a (in_tx Locked)) (two_tx es (n + 1) a (in_tx (Numbered (n + 1))))"
  using append_step.nextval [of "two_tx es n (in_tx Locked) b" 0 "n + 1" "empty_db\<lparr>events := es, events_seqno_seq := n + 1\<rparr>"]
    append_step.nextval [of "two_tx es n a (in_tx Locked)" 1 "n + 1" "empty_db\<lparr>events := es, events_seqno_seq := n + 1\<rparr>"]
  by (simp_all add: nextval_seqno_def)

lemma two_tx_read:
  "append_step X locking (two_tx [] n (in_tx (Numbered k)) b) (two_tx [] n (in_tx (Linked k (genesis_hash X))) b)"
  "append_step X locking (two_tx [] n a (in_tx (Numbered k))) (two_tx [] n a (in_tx (Linked k (genesis_hash X))))"
  using append_step.read [of "two_tx [] n (in_tx (Numbered k)) b" 0 k] append_step.read [of "two_tx [] n a (in_tx (Numbered k))" 1 k]
  by (simp_all add: sees_def link_def latest_hash_def order_desc_def)

lemma two_tx_insert:
  "append_step demo_ext locking (two_tx [] n (in_tx (Linked k (genesis_hash demo_ext))) b)
     (two_tx [] n \<lparr>at_phase = Locked, at_rows = [login_row k]\<rparr> b)"
  "append_step demo_ext locking (two_tx [] n a (in_tx (Linked k (genesis_hash demo_ext))))
     (two_tx [] n a \<lparr>at_phase = Locked, at_rows = [login_row k]\<rparr>)"
proof -
  have bs: "json_vec demo_ext (draft k 0 None None ''login'' JNull) = Some (as_bytes ''login'' @ as_bytes (dec_int k))"
    by (simp add: draft_def)
  show "append_step demo_ext locking (two_tx [] n (in_tx (Linked k (genesis_hash demo_ext))) b)
     (two_tx [] n \<lparr>at_phase = Locked, at_rows = [login_row k]\<rparr> b)"
    using append_step.insert [of "two_tx [] n (in_tx (Linked k (genesis_hash demo_ext))) b" 0, OF _ bs]
    by (simp add: sees_def insert_event_def sql_ok_def login_row_def)
  show "append_step demo_ext locking (two_tx [] n a (in_tx (Linked k (genesis_hash demo_ext))))
     (two_tx [] n a \<lparr>at_phase = Locked, at_rows = [login_row k]\<rparr>)"
    using append_step.insert [of "two_tx [] n a (in_tx (Linked k (genesis_hash demo_ext)))" 1, OF _ bs]
    by (simp add: sees_def insert_event_def sql_ok_def login_row_def)
qed

lemma two_tx_commit:
  "append_step X locking (two_tx es n \<lparr>at_phase = Locked, at_rows = xs\<rparr> b) (two_tx (es @ xs) n out_tx b)"
  "append_step X locking (two_tx es n a \<lparr>at_phase = Locked, at_rows = xs\<rparr>) (two_tx (es @ xs) n a out_tx)"
  using append_step.commit [of "two_tx es n \<lparr>at_phase = Locked, at_rows = xs\<rparr> b" 0]
    append_step.commit [of "two_tx es n a \<lparr>at_phase = Locked, at_rows = xs\<rparr>" 1]
  by (simp_all add: sees_def)

lemma two_tx_abort:
  "append_step X locking (two_tx es n (in_tx (Numbered k)) b) (two_tx es n out_tx b)"
  using append_step.abort [of "two_tx es n (in_tx (Numbered k)) b" 0] by simp

lemmas two_tx_steps = two_tx_lock two_tx_nextval two_tx_read two_tx_insert two_tx_commit two_tx_abort

text \<open>Without the lock two transactions read the same head, and the chain forks.\<close>

theorem unlocked_appends_fork:
  "\<exists>s. append_steps demo_ext False (idle empty_db) s \<and> events (ap_db s) = [login_row 1, login_row 2]
     \<and> \<not> log_ok demo_ext (ap_db s)"
proof -
  let ?g = "genesis_hash demo_ext"
  have "append_steps demo_ext False (two_tx [] 0 out_tx out_tx) (two_tx [login_row 1, login_row 2] 2 out_tx out_tx)"
  proof -
    have "append_steps demo_ext False (two_tx [] 0 out_tx out_tx) (two_tx [] 2 (in_tx (Linked 1 ?g)) (in_tx (Linked 2 ?g)))"
      using two_tx_lock(1) [of False out_tx demo_ext "[]" 0] two_tx_nextval(1) [of demo_ext False "[]" 0 out_tx]
        two_tx_lock(2) [of False "in_tx (Numbered 1)" demo_ext "[]" 1] two_tx_nextval(2) [of demo_ext False "[]" 1 "in_tx (Numbered 1)"]
        two_tx_read(1) [of demo_ext False 2 1 "in_tx (Numbered 2)"] two_tx_read(2) [of demo_ext False 2 "in_tx (Linked 1 ?g)" 2]
      by (auto intro: converse_rtranclp_into_rtranclp)
    moreover have "append_steps demo_ext False (two_tx [] 2 (in_tx (Linked 1 ?g)) (in_tx (Linked 2 ?g)))
        (two_tx [login_row 1, login_row 2] 2 out_tx out_tx)"
      using two_tx_insert(1) [of False 2 1 "in_tx (Linked 2 ?g)"] 
        two_tx_insert(2) [of False 2 "\<lparr>at_phase = Locked, at_rows = [login_row 1]\<rparr>" 2]
        two_tx_commit(1) [of demo_ext False "[]" 2 "[login_row 1]" "\<lparr>at_phase = Locked, at_rows = [login_row 2]\<rparr>"]
        two_tx_commit(2) [of demo_ext False "[login_row 1]" 2 out_tx "[login_row 2]"]
      by (auto intro: converse_rtranclp_into_rtranclp)
    ultimately show ?thesis by (rule rtranclp_trans)
  qed
  moreover have "\<not> log_ok demo_ext (ap_db (two_tx [login_row 1, login_row 2] 2 out_tx out_tx))"
    by (simp add: log_ok_def login_row_def event_row_def) code_simp
  ultimately show ?thesis unfolding two_tx_idle by (intro exI conjI) (assumption | simp)+
qed

theorem appends_serialised_witness:
  "\<exists>s. append_steps demo_ext True (idle empty_db) s \<and> events (ap_db s) = [login_row 2] \<and> log_ok demo_ext (ap_db s)"
proof -
  have "append_steps demo_ext True (two_tx [] 0 out_tx out_tx) (two_tx [login_row 2] 2 out_tx out_tx)"
    using two_tx_lock(1) [of True out_tx demo_ext "[]" 0] two_tx_nextval(1) [of demo_ext True "[]" 0 out_tx]
      two_tx_abort [of demo_ext True "[]" 1 1 out_tx] two_tx_lock(2) [of True out_tx demo_ext "[]" 1]
      two_tx_nextval(2) [of demo_ext True "[]" 1 out_tx] two_tx_read(2) [of demo_ext True 2 out_tx 2]
      two_tx_insert(2) [of True 2 out_tx 2] two_tx_commit(2) [of demo_ext True "[]" 2 out_tx "[login_row 2]"]
    by (auto intro: converse_rtranclp_into_rtranclp)
  then have run: "append_steps demo_ext True (idle empty_db) (two_tx [login_row 2] 2 out_tx out_tx)"
    unfolding two_tx_idle .
  have "log_ok demo_ext empty_db" by (simp add: log_ok_def empty_db_def)
  then show ?thesis using appends_serialised [OF _ run] run by auto
qed

end
