(* ===== verification/Integrity.thy ===== *)
theory Integrity
imports Actions
begin

text \<open>
  The constraints of the migrations as one predicate \<open>db_ok\<close>: primary keys and unique
  indexes, the partial unique index of the recovery codes, checks, and foreign keys; and that
  the numbers of resources and telemetry were handed out by their sequences, each once. The
  statements check the constraints the way PostgreSQL does, so \<open>db_ok\<close> is kept by every
  operation (\<open>db_keep\<close>).
\<close>

definition user_ids :: "database \<Rightarrow> uuid set" where
  "user_ids d = u_id ` set (users d)"

definition machine_ids :: "database \<Rightarrow> uuid set" where
  "machine_ids d = m_id ` set (machines d)"

definition app_ids :: "database \<Rightarrow> uuid set" where
  "app_ids d = a_id ` set (registered_apps d)"

text \<open>The non-null values of a nullable column.\<close>

definition some_values :: "('r \<Rightarrow> 'a option) \<Rightarrow> 'r list \<Rightarrow> 'a list" where
  "some_values col rs = concat (map (\<lambda>r. case col r of None \<Rightarrow> [] | Some a \<Rightarrow> [a]) rs)"

definition opt_refs :: "('r \<Rightarrow> 'a option) \<Rightarrow> 'r list \<Rightarrow> 'a set \<Rightarrow> bool" where
  "opt_refs col rs A \<longleftrightarrow> (\<forall>r \<in> set rs. \<forall>a. col r = Some a \<longrightarrow> a \<in> A)"

definition refs :: "('r \<Rightarrow> 'a) \<Rightarrow> 'r list \<Rightarrow> 'a set \<Rightarrow> bool" where
  "refs col rs A \<longleftrightarrow> (\<forall>r \<in> set rs. col r \<in> A)"

definition invitations_ok :: "uuid set \<Rightarrow> invitation list \<Rightarrow> bool" where
  "invitations_ok U rs \<longleftrightarrow> keyed inv_id rs \<and> keyed inv_token_hash rs
     \<and> refs inv_invited_by rs U \<and> opt_refs inv_accepted_user_id rs U"

definition machines_ok :: "uuid set \<Rightarrow> machine list \<Rightarrow> bool" where
  "machines_ok U rs \<longleftrightarrow> keyed m_id rs \<and> distinct (some_values m_identity_public rs)
     \<and> opt_refs m_claimed_by_user_id rs U"

definition machine_sessions_ok :: "uuid set \<Rightarrow> machine_session list \<Rightarrow> bool" where
  "machine_sessions_ok M rs \<longleftrightarrow> keyed ms_id rs \<and> keyed ms_token_hash rs \<and> refs ms_machine_id rs M"

definition telemetry_ok :: "uuid set \<Rightarrow> int \<Rightarrow> telemetry list \<Rightarrow> bool" where
  "telemetry_ok M n rs \<longleftrightarrow> keyed tm_id rs \<and> refs tm_machine_id rs M \<and> refs tm_id rs {..n}"

definition devices_ok :: "uuid set \<Rightarrow> uuid set \<Rightarrow> device list \<Rightarrow> bool" where
  "devices_ok U M rs \<longleftrightarrow> keyed d_id rs \<and> refs d_user_id rs U \<and> opt_refs d_machine_id rs M"

definition sessions_ok :: "uuid set \<Rightarrow> session list \<Rightarrow> bool" where
  "sessions_ok U rs \<longleftrightarrow> keyed s_id rs \<and> keyed s_token_hash rs \<and> refs s_user_id rs U"

definition recovery_codes_ok :: "uuid set \<Rightarrow> recovery_code list \<Rightarrow> bool" where
  "recovery_codes_ok U rs \<longleftrightarrow> keyed rc_id rs \<and> count_where (\<lambda>r. rc_rotated_at r = None) rs \<le> 1
     \<and> (\<forall>r \<in> set rs. length (rc_code_hash r) = 32)
     \<and> opt_refs rc_created_by_user_id rs U \<and> opt_refs rc_rotated_by_user_id rs U"

definition user_recovery_codes_ok :: "uuid set \<Rightarrow> user_recovery_code list \<Rightarrow> bool" where
  "user_recovery_codes_ok U rs \<longleftrightarrow> keyed urc_user_id rs \<and> refs urc_user_id rs U
     \<and> (\<forall>r \<in> set rs. length (urc_code_hash r) = 32)"

definition resources_ok :: "uuid set \<Rightarrow> uuid set \<Rightarrow> int \<Rightarrow> resource list \<Rightarrow> bool" where
  "resources_ok U A n rs \<longleftrightarrow> keyed r_id rs
     \<and> keyed (\<lambda>r. (r_app_id r, r_resource_type r, r_app_resource_id r)) rs
     \<and> keyed r_change_seq rs
     \<and> refs r_owner_user_id rs U \<and> refs r_app_id rs A \<and> refs r_change_seq rs {..n}"

definition apps_ok :: "uuid set \<Rightarrow> registered_app list \<Rightarrow> bool" where
  "apps_ok U rs \<longleftrightarrow> keyed a_id rs \<and> keyed a_app_identifier rs \<and> opt_refs a_registered_by rs U"

definition db_ok :: "database \<Rightarrow> bool" where
  "db_ok d \<longleftrightarrow>
     keyed u_id (users d) \<and> keyed email_lower (users d)
     \<and> invitations_ok (user_ids d) (invitations d)
     \<and> keyed uk_user_id (user_keys d) \<and> refs uk_user_id (user_keys d) (user_ids d)
     \<and> keyed ua_user_id (user_avatars d) \<and> refs ua_user_id (user_avatars d) (user_ids d)
     \<and> machines_ok (user_ids d) (machines d)
     \<and> machine_sessions_ok (machine_ids d) (machine_sessions d)
     \<and> keyed dg_id (device_admin_groups d)
     \<and> telemetry_ok (machine_ids d) (telemetry_id_seq d) (machine_telemetry d)
     \<and> devices_ok (user_ids d) (machine_ids d) (devices d)
     \<and> keyed c_user_id (credentials d) \<and> refs c_user_id (credentials d) (user_ids d)
     \<and> sessions_ok (user_ids d) (sessions d)
     \<and> recovery_codes_ok (user_ids d) (recovery_codes d)
     \<and> user_recovery_codes_ok (user_ids d) (user_recovery_codes d)
     \<and> keyed tc_id (totp_credentials d) \<and> refs tc_user_id (totp_credentials d) (user_ids d)
     \<and> keyed wa_id (webauthn_credentials d) \<and> refs wa_user_id (webauthn_credentials d) (user_ids d)
     \<and> keyed e_seqno (events d)
     \<and> length (instance_rows d) = 1
     \<and> keyed tp_publisher (trusted_publishers d) \<and> opt_refs tp_added_by (trusted_publishers d) (user_ids d)
     \<and> apps_ok (user_ids d) (registered_apps d)
     \<and> resources_ok (user_ids d) (app_ids d) (resource_change_seq d) (resources d)"

lemmas table_ok_defs = invitations_ok_def machines_ok_def machine_sessions_ok_def
  telemetry_ok_def devices_ok_def sessions_ok_def recovery_codes_ok_def
  user_recovery_codes_ok_def resources_ok_def apps_ok_def

lemma db_okD:
  assumes "db_ok d"
  shows "keyed u_id (users d)"
    "keyed email_lower (users d)"
    "invitations_ok (user_ids d) (invitations d)"
    "keyed uk_user_id (user_keys d)"
    "refs uk_user_id (user_keys d) (user_ids d)"
    "keyed ua_user_id (user_avatars d)"
    "refs ua_user_id (user_avatars d) (user_ids d)"
    "machines_ok (user_ids d) (machines d)"
    "machine_sessions_ok (machine_ids d) (machine_sessions d)"
    "keyed dg_id (device_admin_groups d)"
    "telemetry_ok (machine_ids d) (telemetry_id_seq d) (machine_telemetry d)"
    "devices_ok (user_ids d) (machine_ids d) (devices d)"
    "keyed c_user_id (credentials d)"
    "refs c_user_id (credentials d) (user_ids d)"
    "sessions_ok (user_ids d) (sessions d)"
    "recovery_codes_ok (user_ids d) (recovery_codes d)"
    "user_recovery_codes_ok (user_ids d) (user_recovery_codes d)"
    "keyed tc_id (totp_credentials d)"
    "refs tc_user_id (totp_credentials d) (user_ids d)"
    "keyed wa_id (webauthn_credentials d)"
    "refs wa_user_id (webauthn_credentials d) (user_ids d)"
    "keyed e_seqno (events d)"
    "length (instance_rows d) = 1"
    "keyed tp_publisher (trusted_publishers d)"
    "opt_refs tp_added_by (trusted_publishers d) (user_ids d)"
    "apps_ok (user_ids d) (registered_apps d)"
    "resources_ok (user_ids d) (app_ids d) (resource_change_seq d) (resources d)"
  using assms by (simp_all add: db_ok_def)

text \<open>Replacing one table that no other table refers to.\<close>

lemma db_ok_table:
  assumes "db_ok d"
  shows "invitations_ok (user_ids d) rs0 \<Longrightarrow> db_ok (d\<lparr>invitations := rs0\<rparr>)"
    "keyed uk_user_id rs1 \<Longrightarrow> refs uk_user_id rs1 (user_ids d) \<Longrightarrow> db_ok (d\<lparr>user_keys := rs1\<rparr>)"
    "keyed ua_user_id rs2 \<Longrightarrow> refs ua_user_id rs2 (user_ids d) \<Longrightarrow> db_ok (d\<lparr>user_avatars := rs2\<rparr>)"
    "keyed dg_id rs3 \<Longrightarrow> db_ok (d\<lparr>device_admin_groups := rs3\<rparr>)"
    "machine_sessions_ok (machine_ids d) rs4 \<Longrightarrow> db_ok (d\<lparr>machine_sessions := rs4\<rparr>)"
    "devices_ok (user_ids d) (machine_ids d) rs5 \<Longrightarrow> db_ok (d\<lparr>devices := rs5\<rparr>)"
    "keyed c_user_id rs6 \<Longrightarrow> refs c_user_id rs6 (user_ids d) \<Longrightarrow> db_ok (d\<lparr>credentials := rs6\<rparr>)"
    "sessions_ok (user_ids d) rs7 \<Longrightarrow> db_ok (d\<lparr>sessions := rs7\<rparr>)"
    "recovery_codes_ok (user_ids d) rs8 \<Longrightarrow> db_ok (d\<lparr>recovery_codes := rs8\<rparr>)"
    "user_recovery_codes_ok (user_ids d) rs9 \<Longrightarrow> db_ok (d\<lparr>user_recovery_codes := rs9\<rparr>)"
    "keyed tc_id rs10 \<Longrightarrow> refs tc_user_id rs10 (user_ids d) \<Longrightarrow> db_ok (d\<lparr>totp_credentials := rs10\<rparr>)"
    "keyed e_seqno rs11 \<Longrightarrow> db_ok (d\<lparr>events := rs11\<rparr>)"
    "length rs12 = 1 \<Longrightarrow> db_ok (d\<lparr>instance_rows := rs12\<rparr>)"
    "keyed tp_publisher rs13 \<Longrightarrow> opt_refs tp_added_by rs13 (user_ids d) \<Longrightarrow> db_ok (d\<lparr>trusted_publishers := rs13\<rparr>)"
  using assms by (simp_all add: db_ok_def user_ids_def machine_ids_def app_ids_def)

section \<open>Rules about references\<close>

lemma refs_simps [simp]:
  "refs col [] A" "refs col (r # rs) A \<longleftrightarrow> col r \<in> A \<and> refs col rs A"
  "refs col (rs @ qs) A \<longleftrightarrow> refs col rs A \<and> refs col qs A"
  by (auto simp: refs_def)

lemma opt_refs_simps [simp]:
  "opt_refs col [] A"
  "opt_refs col (r # rs) A \<longleftrightarrow> (\<forall>a. col r = Some a \<longrightarrow> a \<in> A) \<and> opt_refs col rs A"
  "opt_refs col (rs @ qs) A \<longleftrightarrow> opt_refs col rs A \<and> opt_refs col qs A"
  by (auto simp: opt_refs_def)

lemma some_values_simps [simp]:
  "some_values col [] = []"
  "some_values col (r # rs) = (case col r of None \<Rightarrow> [] | Some a \<Rightarrow> [a]) @ some_values col rs"
  "some_values col (rs @ qs) = some_values col rs @ some_values col qs"
  by (simp_all add: some_values_def)

lemma set_some_values: "set (some_values col rs) = {a. \<exists>r \<in> set rs. col r = Some a}"
  by (induction rs) (auto split: option.splits)

lemma fetch_unique:
  assumes "r \<in> set rs" and "p r" and "\<And>q. q \<in> set rs \<Longrightarrow> p q \<Longrightarrow> q = r"
  shows "fetch_optional (filter p rs) = Some r"
proof (cases "fetch_optional (filter p rs)")
  case None
  then show ?thesis using assms(1,2) by (simp add: filter_empty_conv)
next
  case (Some q)
  then show ?thesis using assms(3) [of q] fetch_filter_SomeD [OF Some] by simp
qed

lemma some_values_unique:
  assumes "distinct (some_values col rs)" and "r \<in> set rs" "q \<in> set rs"
    and "col r = Some a" "col q = Some a"
  shows "r = q"
  using assms
proof (induction rs)
  case (Cons x xs)
  have in_xs: "a \<in> set (some_values col xs)" if "y \<in> set xs" "col y = Some a" for y
    using that by (auto simp: set_some_values)
  have d: "distinct (some_values col xs)" and x: "col x = Some a \<Longrightarrow> a \<notin> set (some_values col xs)"
    using Cons.prems(1) by (auto split: option.splits)
  show ?case
  proof (cases "r = x \<or> q = x")
    case True
    then show ?thesis using x in_xs Cons.prems(2-5) by auto
  next
    case False
    then show ?thesis using Cons.IH [OF d] Cons.prems(2-5) by simp
  qed
qed simp

lemma some_values_upd [simp]:
  "(\<And>r. col (f r) = col r) \<Longrightarrow> some_values col (upd_where p f rs) = some_values col rs"
  by (induction rs) auto

lemma distinct_some_values_filter:
  "distinct (some_values col rs) \<Longrightarrow> distinct (some_values col (filter p rs))"
  by (induction rs) (auto simp: set_some_values split: option.splits)

lemma refs_mono: "refs col rs A \<Longrightarrow> A \<subseteq> B \<Longrightarrow> refs col rs B"
  by (auto simp: refs_def)

lemma opt_refs_mono: "opt_refs col rs A \<Longrightarrow> A \<subseteq> B \<Longrightarrow> opt_refs col rs B"
  by (auto simp: opt_refs_def)

lemma refs_filter: "refs col rs A \<Longrightarrow> refs col (filter p rs) A"
  by (auto simp: refs_def)

lemma opt_refs_filter: "opt_refs col rs A \<Longrightarrow> opt_refs col (filter p rs) A"
  by (auto simp: opt_refs_def)

lemma refs_upd: "refs col rs A \<Longrightarrow> (\<And>r. p r \<Longrightarrow> col r \<in> A \<Longrightarrow> col (f r) \<in> A) \<Longrightarrow> refs col (upd_where p f rs) A"
  by (auto simp: refs_def upd_where_def)

lemma opt_refs_upd:
  "opt_refs col rs A \<Longrightarrow>
     (\<And>r a. p r \<Longrightarrow> (\<And>b. col r = Some b \<Longrightarrow> b \<in> A) \<Longrightarrow> col (f r) = Some a \<Longrightarrow> a \<in> A) \<Longrightarrow>
     opt_refs col (upd_where p f rs) A"
  by (auto simp: opt_refs_def upd_where_def)

lemma refs_upd_same [simp]:
  "(\<And>r. col (f r) = col r) \<Longrightarrow> refs col (upd_where p f rs) A = refs col rs A"
  by (induction rs) auto

lemma opt_refs_upd_same [simp]:
  "(\<And>r. col (f r) = col r) \<Longrightarrow> opt_refs col (upd_where p f rs) A = opt_refs col rs A"
  by (induction rs) auto

lemma count_where_upd_same [simp]:
  "(\<And>r. q (f r) = q r) \<Longrightarrow> count_where q (upd_where p f rs) = count_where q rs"
  by (induction rs) auto

lemma filter_upd_other:
  "(\<And>r. p r \<Longrightarrow> \<not> q r \<and> \<not> q (f r)) \<Longrightarrow> filter q (upd_where p f rs) = filter q rs"
  by (induction rs) auto

lemma ball_upd_where:
  "(\<forall>r \<in> set (upd_where p f rs). q r) \<longleftrightarrow> (\<forall>r \<in> set rs. if p r then q (f r) else q r)"
  by (auto simp: upd_where_def)

text \<open>\<open>ON DELETE CASCADE\<close> keeps the remaining references good; so does \<open>ON DELETE SET NULL\<close>.\<close>

lemma refs_cascade: "refs col rs A \<Longrightarrow> refs col (filter (\<lambda>r. col r \<noteq> x) rs) (A - {x})"
  by (auto simp: refs_def)

lemma opt_refs_set_null:
  assumes "opt_refs col rs A" and "\<And>r. col (f r) = None"
  shows "opt_refs col (upd_where (\<lambda>r. col r = Some x) f rs) (A - {x})"
  using assms by (auto simp: opt_refs_def upd_where_def)

lemma map_inj_upd_where:
  "(\<And>r. key (f r) = key r) \<Longrightarrow> key ` set (upd_where p f rs) = key ` set rs"
  using map_upd_where [of key f p rs] by (metis set_map)

section \<open>The relation\<close>

definition db_keep :: "database \<Rightarrow> database \<Rightarrow> bool" where
  "db_keep d d' \<longleftrightarrow>
     (db_ok d \<longrightarrow> db_ok d')
     \<and> resource_change_seq d \<le> resource_change_seq d' \<and> telemetry_id_seq d \<le> telemetry_id_seq d'"

lemma db_ok_rollback:
  "db_ok d \<Longrightarrow> resource_change_seq d \<le> n \<Longrightarrow> telemetry_id_seq d \<le> k \<Longrightarrow>
     db_ok (d\<lparr>events_seqno_seq := m, resource_change_seq := n, telemetry_id_seq := k\<rparr>)"
  by (auto simp: db_ok_def user_ids_def machine_ids_def app_ids_def resources_ok_def telemetry_ok_def
      refs_def)

interpretation integrity: db_relation db_keep
proof
  show "db_keep d d" for d by (simp add: db_keep_def)
  show "db_keep d1 d2 \<Longrightarrow> db_keep d2 d3 \<Longrightarrow> db_keep d1 d3" for d1 d2 d3
    by (auto simp: db_keep_def)
  show "db_keep d d' \<Longrightarrow> db_keep d (rollback d d')" for d d'
    by (auto simp: db_keep_def rollback_def intro: db_ok_rollback)
qed

lemma db_keepI:
  "(db_ok d \<Longrightarrow> db_ok d') \<Longrightarrow> resource_change_seq d' = resource_change_seq d \<Longrightarrow>
     telemetry_id_seq d' = telemetry_id_seq d \<Longrightarrow> db_keep d d'"
  by (simp add: db_keep_def)

lemma empty_db_ok: "db_ok empty_db"
  by (simp add: db_ok_def table_ok_defs)
    (simp add: empty_db_def)

end
