(* ===== verification/Identity_Users.thy ===== *)
theory Identity_Users
imports Audit_Log Integrity
begin

text \<open>
  \<open>identity::UserRepository\<close>: the account table and its lifecycle. Each method is one
  statement of type \<open>'a stmt\<close>; \<open>now\<close> is the transaction's time stamp and \<open>new_id\<close> the key
  PostgreSQL generates. \<open>update_user\<close> is \<open>UPDATE identity.users ... WHERE id = $1 RETURNING\<close>
  with \<open>fetch_one\<close>.
\<close>

section \<open>Statements\<close>

definition insert_user :: "user \<Rightarrow> user stmt" where
  "insert_user u d =
     (if u_id u \<in> user_ids d \<or> email_lower u \<in> email_lower ` set (users d)
      then sql_err UniqueViolation d
      else sql_ok u (d\<lparr>users := users d @ [u]\<rparr>))"

definition user_create ::
  "uuid \<Rightarrow> time \<Rightarrow> string \<Rightarrow> string \<Rightarrow> instance_role \<Rightarrow> user_lifecycle \<Rightarrow> user stmt" where
  "user_create new_id now email display_name instance_role lifecycle =
     insert_user \<lparr>u_id = new_id, u_email = email, u_display_name = display_name,
       u_lifecycle = lifecycle, u_instance_role = instance_role, u_kind = KindMember,
       u_locale = None, u_created_at = now, u_updated_at = now\<rparr>"

definition user_count :: "int stmt" where
  "user_count = query (\<lambda>d. int (length (users d)))"

definition count_active_owners :: "int stmt" where
  "count_active_owners = query (\<lambda>d. int (count_where
     (\<lambda>u. u_instance_role u = Owner \<and> u_lifecycle u = Active \<and> u_kind u = KindMember) (users d)))"

definition count_active_users :: "int stmt" where
  "count_active_users = query (\<lambda>d. int (count_where
     (\<lambda>u. u_lifecycle u = Active \<and> u_kind u = KindMember) (users d)))"

definition manageable :: "user \<Rightarrow> bool" where
  "manageable u = (u_lifecycle u \<in> {PendingInvite, Active, Deactivated})"

definition user_find_by_id :: "uuid \<Rightarrow> user option stmt" where
  "user_find_by_id uid = query (\<lambda>d. fetch_optional
     (filter (\<lambda>u. u_id u = uid \<and> manageable u) (users d)))"

definition user_find_any :: "uuid \<Rightarrow> user option stmt" where
  "user_find_any uid = query (\<lambda>d. fetch_optional (filter (\<lambda>u. u_id u = uid) (users d)))"

definition user_find_by_email :: "string \<Rightarrow> user option stmt" where
  "user_find_by_email email = query (\<lambda>d. fetch_optional
     (filter (\<lambda>u. email_lower u = lower email \<and> manageable u) (users d)))"

definition user_list_all :: "user list stmt" where
  "user_list_all = query (\<lambda>d. order_asc u_created_at
     (filter (\<lambda>u. manageable u \<and> u_kind u = KindMember) (users d)))"

definition list_active_owners_excluding :: "uuid list \<Rightarrow> user list stmt" where
  "list_active_owners_excluding exclude_ids = query (\<lambda>d. order_asc u_created_at
     (filter (\<lambda>u. u_instance_role u = Owner \<and> u_lifecycle u = Active \<and> u_kind u = KindMember
        \<and> \<not> u_id u \<in> set exclude_ids) (users d)))"

definition list_by_ids :: "uuid list \<Rightarrow> user list stmt" where
  "list_by_ids ids =
     (if ids = [] then sql_ok [] else query (\<lambda>d. filter (\<lambda>u. u_id u \<in> set ids) (users d)))"

definition list_with_lifecycle :: "user_lifecycle \<Rightarrow> user list stmt" where
  "list_with_lifecycle lifecycle = query (\<lambda>d. order_asc u_created_at
     (filter (\<lambda>u. u_lifecycle u = lifecycle \<and> u_kind u = KindMember) (users d)))"

definition update_user :: "uuid \<Rightarrow> (user \<Rightarrow> user) \<Rightarrow> user stmt" where
  "update_user uid f d =
     (case fetch_optional (filter (\<lambda>u. u_id u = uid) (users d)) of
        None \<Rightarrow> sql_err RowNotFound d
      | Some u \<Rightarrow>
          if \<exists>v \<in> set (users d). u_id v \<noteq> uid \<and> email_lower v = email_lower (f u)
          then sql_err UniqueViolation d
          else sql_ok (f u) (d\<lparr>users := upd_where (\<lambda>u. u_id u = uid) f (users d)\<rparr>))"

definition set_instance_role :: "time \<Rightarrow> uuid \<Rightarrow> instance_role \<Rightarrow> user stmt" where
  "set_instance_role now uid new_role =
     update_user uid (\<lambda>u. u\<lparr>u_instance_role := new_role, u_updated_at := now\<rparr>)"

definition update_profile :: "time \<Rightarrow> uuid \<Rightarrow> string option \<Rightarrow> string option \<Rightarrow> user stmt" where
  "update_profile now uid display_name locale =
     update_user uid (\<lambda>u. u\<lparr>u_display_name := (case display_name of None \<Rightarrow> u_display_name u | Some n \<Rightarrow> n),
       u_locale := coalesce locale (u_locale u), u_updated_at := now\<rparr>)"

definition update_email :: "time \<Rightarrow> uuid \<Rightarrow> string \<Rightarrow> user stmt" where
  "update_email now uid new_email =
     update_user uid (\<lambda>u. u\<lparr>u_email := new_email, u_updated_at := now\<rparr>)"

definition email_in_use :: "string \<Rightarrow> bool stmt" where
  "email_in_use email = query (\<lambda>d.
     fetch_optional (filter (\<lambda>u. email_lower u = lower email \<and> manageable u) (users d)) \<noteq> None)"

definition deactivate :: "time \<Rightarrow> uuid \<Rightarrow> user stmt" where
  "deactivate now uid = update_user uid (\<lambda>u. u\<lparr>u_lifecycle := Deactivated, u_updated_at := now\<rparr>)"

definition reactivate :: "time \<Rightarrow> uuid \<Rightarrow> user stmt" where
  "reactivate now uid = update_user uid (\<lambda>u. u\<lparr>u_lifecycle := Active, u_updated_at := now\<rparr>)"

text \<open>The row after the \<open>UPDATE\<close> of \<open>redact_and_terminate\<close>.\<close>

definition purged_email :: "ext \<Rightarrow> uuid \<Rightarrow> string" where
  "purged_email X uid = ''deleted+'' @ uuid_str X uid @ ''@purged.invalid''"

definition redacted :: "ext \<Rightarrow> time \<Rightarrow> uuid \<Rightarrow> user \<Rightarrow> user" where
  "redacted X now uid u = u\<lparr>u_email := purged_email X uid, u_display_name := ''[deleted user]'',
     u_locale := None, u_lifecycle := Anonymized, u_updated_at := now\<rparr>"

definition redact_and_terminate :: "ext \<Rightarrow> time \<Rightarrow> uuid \<Rightarrow> (user \<times> string) stmt" where
  "redact_and_terminate X now uid d =
     (case fetch_optional (filter (\<lambda>u. u_id u = uid) (users d)) of
        None \<Rightarrow> sql_err RowNotFound d
      | Some original \<Rightarrow>
          (case update_user uid (redacted X now uid) d of
             (Inl e, d') \<Rightarrow> (Inl e, d')
           | (Inr updated, d') \<Rightarrow> (Inr (updated, u_email original), d')))"

definition anonymize :: "ext \<Rightarrow> time \<Rightarrow> uuid \<Rightarrow> (user \<times> string) stmt" where
  "anonymize X now uid = redact_and_terminate X now uid"

text \<open>
  \<open>DELETE FROM identity.users WHERE id = $1\<close>, with the actions of every foreign key to
  \<open>identity.users\<close>. The audit log carries none.
\<close>

definition hard_remove :: "uuid \<Rightarrow> unit stmt" where
  "hard_remove uid d = sql_ok () (d\<lparr>
     users := filter (\<lambda>u. u_id u \<noteq> uid) (users d),
     invitations := upd_where (\<lambda>i. inv_accepted_user_id i = Some uid) (\<lambda>i. i\<lparr>inv_accepted_user_id := None\<rparr>)
       (filter (\<lambda>i. inv_invited_by i \<noteq> uid) (invitations d)),
     user_keys := filter (\<lambda>r. uk_user_id r \<noteq> uid) (user_keys d),
     user_avatars := filter (\<lambda>r. ua_user_id r \<noteq> uid) (user_avatars d),
     machines := upd_where (\<lambda>m. m_claimed_by_user_id m = Some uid) (\<lambda>m. m\<lparr>m_claimed_by_user_id := None\<rparr>)
       (machines d),
     devices := filter (\<lambda>r. d_user_id r \<noteq> uid) (devices d),
     credentials := filter (\<lambda>r. c_user_id r \<noteq> uid) (credentials d),
     sessions := filter (\<lambda>r. s_user_id r \<noteq> uid) (sessions d),
     recovery_codes :=
       upd_where (\<lambda>r. rc_rotated_by_user_id r = Some uid) (\<lambda>r. r\<lparr>rc_rotated_by_user_id := None\<rparr>)
        (upd_where (\<lambda>r. rc_created_by_user_id r = Some uid) (\<lambda>r. r\<lparr>rc_created_by_user_id := None\<rparr>)
         (recovery_codes d)),
     user_recovery_codes := filter (\<lambda>r. urc_user_id r \<noteq> uid) (user_recovery_codes d),
     totp_credentials := filter (\<lambda>r. tc_user_id r \<noteq> uid) (totp_credentials d),
     webauthn_credentials := filter (\<lambda>r. wa_user_id r \<noteq> uid) (webauthn_credentials d),
     resources := filter (\<lambda>r. r_owner_user_id r \<noteq> uid) (resources d),
     trusted_publishers := upd_where (\<lambda>r. tp_added_by r = Some uid) (\<lambda>r. r\<lparr>tp_added_by := None\<rparr>)
       (trusted_publishers d),
     registered_apps := upd_where (\<lambda>r. a_registered_by r = Some uid) (\<lambda>r. r\<lparr>a_registered_by := None\<rparr>)
       (registered_apps d)\<rparr>)"

lemmas user_read_defs [sql_defs] = user_count_def count_active_owners_def count_active_users_def
  user_find_by_id_def user_find_any_def user_find_by_email_def user_list_all_def
  list_active_owners_excluding_def list_with_lifecycle_def email_in_use_def

section \<open>What the statements keep\<close>

lemma insert_user_cases:
  assumes "insert_user u d = (r, d')"
  obtains (clash) "r = Inl UniqueViolation" and "d' = d"
  | (new) "r = Inr u" and "d' = d\<lparr>users := users d @ [u]\<rparr>"
      and "u_id u \<notin> user_ids d" and "email_lower u \<notin> email_lower ` set (users d)"
  using assms by (auto simp: insert_user_def sql_err_def sql_ok_def split: if_splits)

lemma update_user_cases:
  assumes "update_user uid f d = (r, d')"
  obtains (missing) "r = Inl RowNotFound" and "d' = d" and "uid \<notin> user_ids d"
  | (clash) "r = Inl UniqueViolation" and "d' = d" and "uid \<in> user_ids d"
  | (hit) u where "r = Inr (f u)" and "u \<in> set (users d)" and "u_id u = uid"
      and "d' = d\<lparr>users := upd_where (\<lambda>u. u_id u = uid) f (users d)\<rparr>"
      and "\<And>v. v \<in> set (users d) \<Longrightarrow> u_id v \<noteq> uid \<Longrightarrow> email_lower v \<noteq> email_lower (f u)"
proof (cases "fetch_optional (filter (\<lambda>u. u_id u = uid) (users d))")
  case None
  then show thesis using assms missing
    by (auto simp: update_user_def sql_err_def user_ids_def filter_empty_conv)
next
  case (Some u)
  then have u: "u \<in> set (users d)" "u_id u = uid" by (auto dest: fetch_filter_SomeD)
  show thesis
  proof (cases "\<exists>v \<in> set (users d). u_id v \<noteq> uid \<and> email_lower v = email_lower (f u)")
    case True
    with assms Some u show thesis
      by (intro clash) (auto simp: update_user_def sql_err_def user_ids_def)
  next
    case False
    with assms Some u show thesis
      by (intro hit [of u]) (auto simp: update_user_def sql_ok_def)
  qed
qed

text \<open>
  Only the ids and the folded emails of \<open>users\<close> matter to the other tables, so a statement on
  that table is checked once here.
\<close>

lemma db_ok_users:
  assumes "db_ok d" and "user_ids d \<subseteq> u_id ` set us" and "keyed u_id us" and "keyed email_lower us"
  shows "db_ok (d\<lparr>users := us\<rparr>)"
  using assms
  by (auto simp: db_ok_def table_ok_defs user_ids_def machine_ids_def app_ids_def
      elim!: refs_mono opt_refs_mono)

lemma insert_user_keep: "db_keep d (snd (insert_user u d))"
proof -
  obtain r d' where run: "insert_user u d = (r, d')" by fastforce
  then show ?thesis
  proof (cases rule: insert_user_cases)
    case new
    have "db_ok d'" if "db_ok d"
      unfolding new(2) using that new(3,4)
      by (intro db_ok_users) (auto simp: user_ids_def db_ok_def)
    then show ?thesis using new run by (auto intro: db_keepI)
  qed (use run in \<open>simp add: integrity.R_refl\<close>)
qed

lemma keyed_upd_key:
  assumes "keyed u_id us" and "keyed g us" and "\<And>u. u_id (f u) = u_id u"
    and "u \<in> set us" and "u_id u = uid" and "\<And>v. v \<in> set us \<Longrightarrow> u_id v \<noteq> uid \<Longrightarrow> g v \<noteq> g (f u)"
  shows "keyed g (upd_where (\<lambda>u. u_id u = uid) f us)"
  using assms
proof (induction us)
  case (Cons v us)
  show ?case
  proof (cases "u_id v = uid")
    case True
    then have "v = u" using Cons.prems by (auto simp: image_iff)
    moreover have "\<forall>w \<in> set us. u_id w \<noteq> uid" using Cons.prems(1) True by (auto simp: image_iff)
    moreover have "upd_where (\<lambda>u. u_id u = uid) f us = us"
      using \<open>\<forall>w \<in> set us. u_id w \<noteq> uid\<close> by (intro upd_where_none) auto
    ultimately show ?thesis using Cons.prems(2,6) True by (auto simp: image_iff) metis
  next
    case False
    then have u: "u \<in> set us" using Cons.prems(4,5) by auto
    then have IH: "keyed g (upd_where (\<lambda>u. u_id u = uid) f us)"
      using Cons by (metis (no_types, lifting) distinct.simps(2) list.set_intros(2) list.simps(9))
    have "g v \<notin> g ` set (upd_where (\<lambda>u. u_id u = uid) f us)"
    proof
      assume "g v \<in> g ` set (upd_where (\<lambda>u. u_id u = uid) f us)"
      then obtain w where w: "w \<in> set us" "g v = g (if u_id w = uid then f w else w)"
        by (auto simp: upd_where_def)
      show False
      proof (cases "u_id w = uid")
        case True
        then have "w = u" using Cons.prems(1,5) u w(1) by (auto dest: keyed_eqD)
        with w True Cons.prems(6) False show False by auto
      next
        case f: False
        with w Cons.prems(2) show False by auto
      qed
    qed
    with IH False show ?thesis by simp
  qed
qed simp

lemma update_user_keep:
  assumes "\<And>u. u_id (f u) = u_id u"
  shows "db_keep d (snd (update_user uid f d))"
proof -
  obtain r d' where run: "update_user uid f d = (r, d')" by fastforce
  then show ?thesis
  proof (cases rule: update_user_cases)
    case (hit u)
    have "db_ok d'" if "db_ok d"
      unfolding hit(4)
    proof (rule db_ok_users [OF that])
      show "keyed email_lower (upd_where (\<lambda>u. u_id u = uid) f (users d))"
        using that hit assms by (intro keyed_upd_key) (auto simp: db_ok_def)
    qed (use that assms in \<open>auto simp: user_ids_def db_ok_def map_inj_upd_where\<close>)
    then show ?thesis using hit run by (auto intro: db_keepI)
  qed (use run in \<open>simp_all add: integrity.R_refl\<close>)
qed

lemma hard_remove_keep: "db_keep d (snd (hard_remove uid d))"
proof (rule db_keepI)
  assume ok: "db_ok d"
  let ?d = "snd (hard_remove uid d)"
  have ids: "user_ids ?d = user_ids d - {uid}" "machine_ids ?d = machine_ids d" "app_ids ?d = app_ids d"
    by (auto simp: hard_remove_def user_ids_def machine_ids_def app_ids_def map_inj_upd_where)
  show "db_ok ?d"
    using ok unfolding db_ok_def ids
    by (simp add: hard_remove_def table_ok_defs keyed_filter refs_cascade refs_filter opt_refs_filter
        opt_refs_set_null ball_upd_where)
qed (simp_all add: hard_remove_def)

lemma user_statements_keep:
  "db_keep d (snd (user_create new_id now email name role lifecycle d))"
  "db_keep d (snd (set_instance_role now uid new_role d))"
  "db_keep d (snd (update_profile now uid dn loc d))"
  "db_keep d (snd (update_email now uid email d))"
  "db_keep d (snd (deactivate now uid d))"
  "db_keep d (snd (reactivate now uid d))"
  by (simp_all add: user_create_def insert_user_keep set_instance_role_def update_profile_def
      update_email_def deactivate_def reactivate_def update_user_keep)

lemma redacted_simps [simp]:
  "u_id (redacted X now uid u) = u_id u" "u_lifecycle (redacted X now uid u) = Anonymized"
  "email_lower (redacted X now uid u) = lower (purged_email X uid)"
  "u_display_name (redacted X now uid u) = ''[deleted user]''" "u_locale (redacted X now uid u) = None"
  by (simp_all add: redacted_def email_lower_def)

lemma anonymize_keep: "db_keep d (snd (anonymize X now uid d))"
  using update_user_keep [of "redacted X now uid" d uid]
  by (auto simp: anonymize_def redact_and_terminate_def integrity.R_refl split: option.splits prod.splits sum.splits)

section \<open>Properties\<close>


definition demo_user :: "uuid \<Rightarrow> string \<Rightarrow> user" where
  "demo_user uid email = \<lparr>u_id = uid, u_email = email, u_display_name = ''Ada'', u_lifecycle = Active,
     u_instance_role = Owner, u_kind = KindMember, u_locale = None, u_created_at = 0, u_updated_at = 0\<rparr>"


text \<open>The table behind \<open>anonymize\<close>: constraints hold, and the old address is nobody's.\<close>

definition anonymized :: "ext \<Rightarrow> time \<Rightarrow> user \<Rightarrow> database \<Rightarrow> database" where
  "anonymized X now u d = d\<lparr>users := upd_where (\<lambda>v. u_id v = u_id u) (redacted X now (u_id u)) (users d)\<rparr>"

lemma anonymized_mem:
  assumes "v \<in> set (users (anonymized X now u d))"
  obtains (other) "v \<in> set (users d)" and "u_id v \<noteq> u_id u"
  | (tombstone) "u_id v = u_id u" and "u_lifecycle v = Anonymized" and "email_lower v = lower (purged_email X (u_id u))"
  using assms by (auto simp: anonymized_def set_upd_where)

lemma anonymize_run:
  assumes "db_ok d" and "u \<in> set (users d)"
    and fresh: "\<And>v. v \<in> set (users d) \<Longrightarrow> email_lower v \<noteq> lower (purged_email X (u_id u))"
  shows "anonymize X now (u_id u) d = (Inr (redacted X now (u_id u) u, u_email u), anonymized X now u d)"
    and "db_ok (anonymized X now u d)"
    and "v \<in> set (users (anonymized X now u d)) \<Longrightarrow> email_lower v \<noteq> lower (u_email u)"
proof -
  have k: "keyed u_id (users d)" "keyed email_lower (users d)" using assms(1) by (auto simp: db_ok_def)
  have "fetch_optional (filter (\<lambda>v. u_id v = u_id u) (users d)) = Some u"
    using k(1) assms(2) by (rule fetch_keyed) simp_all
  then show "anonymize X now (u_id u) d = (Inr (redacted X now (u_id u) u, u_email u), anonymized X now u d)"
    using fresh unfolding anonymized_def
    by (auto simp: anonymize_def redact_and_terminate_def update_user_def sql_ok_def sql_err_def)
  show "db_ok (anonymized X now u d)"
    unfolding anonymized_def
  proof (rule db_ok_users [OF assms(1)])
    show "keyed email_lower (upd_where (\<lambda>v. u_id v = u_id u) (redacted X now (u_id u)) (users d))"
      by (rule keyed_upd_key [OF k _ assms(2) refl]) (use fresh in auto)
  qed (use k in \<open>simp_all add: user_ids_def map_inj_upd_where\<close>)
  show "email_lower v \<noteq> lower (u_email u)" if "v \<in> set (users (anonymized X now u d))"
    using that
  proof (cases rule: anonymized_mem)
    case other
    then show ?thesis using keyed_eqD [OF k(2) other(1) assms(2)] by (auto simp: email_lower_def)
  next
    case tombstone
    then show ?thesis using fresh [OF assms(2)] by (auto simp: email_lower_def)
  qed
qed

text \<open>
  \<open>anonymize\<close> closes an account and frees its address: it returns the original email, keeps
  a tombstone row with the id, and afterwards neither the id nor the old email finds an
  account, the email counts as unused, and a new account can be created with it.
\<close>

theorem anonymize_frees_email:
  assumes "db_ok d" and "u \<in> set (users d)"
    and "\<And>v. v \<in> set (users d) \<Longrightarrow>
           email_lower v \<noteq> lower (purged_email X (u_id u))"
    and "new_id \<notin> user_ids d"
  shows "\<exists>t d'. anonymize X now (u_id u) d = (Inr (t, u_email u), d') \<and> db_ok d'
     \<and> t \<in> set (users d') \<and> u_id t = u_id u \<and> u_lifecycle t = Anonymized
     \<and> u_display_name t = ''[deleted user]'' \<and> u_locale t = None
     \<and> user_find_by_id (u_id u) d' = (Inr None, d')
     \<and> user_find_by_email (u_email u) d' = (Inr None, d')
     \<and> email_in_use (u_email u) d' = (Inr False, d')
     \<and> (\<exists>v. fst (user_create new_id now (u_email u) name role lifecycle d') = Inr v)"
proof -
  let ?d' = "anonymized X now u d"
  note run = anonymize_run [OF assms(1-3)]
  have none: "filter (\<lambda>v. email_lower v = lower (u_email u) \<and> manageable v) (users ?d') = []"
    "filter (\<lambda>v. u_id v = u_id u \<and> manageable v) (users ?d') = []"
    using run(3) by (auto simp: filter_empty_conv manageable_def elim: anonymized_mem)
  have "redacted X now (u_id u) u \<in> set (users ?d')" using assms(2) by (auto simp: anonymized_def set_upd_where)
  moreover have "lower (u_email u) \<notin> email_lower ` set (users ?d')" using run(3) by force
  moreover have "user_ids ?d' = user_ids d" by (simp add: anonymized_def user_ids_def map_inj_upd_where)
  ultimately have "\<exists>v. fst (user_create new_id now (u_email u) name role lifecycle ?d') = Inr v"
    using assms(4) by (simp add: user_create_def insert_user_def sql_ok_def) (simp add: email_lower_def)
  moreover have "user_find_by_id (u_id u) ?d' = (Inr None, ?d')" "user_find_by_email (u_email u) ?d' = (Inr None, ?d')"
    "email_in_use (u_email u) ?d' = (Inr False, ?d')"
    by (simp_all add: none user_find_by_id_def user_find_by_email_def email_in_use_def query_def)
  ultimately show ?thesis
    using run(1,2) \<open>redacted X now (u_id u) u \<in> set (users ?d')\<close>
    by (intro exI [of _ "redacted X now (u_id u) u"] exI [of _ ?d']) simp
qed

theorem anonymize_frees_email_witness:
  "\<exists>t d'. anonymize demo_ext 5 7 (empty_db\<lparr>users := [demo_user 7 ''a@b.c'']\<rparr>) = (Inr (t, ''a@b.c''), d')
     \<and> email_in_use ''a@b.c'' d' = (Inr False, d')"
proof -
  let ?d = "empty_db\<lparr>users := [demo_user 7 ''a@b.c'']\<rparr>"
  have ok: "db_ok ?d"
    by (intro db_ok_users empty_db_ok) (simp_all add: user_ids_def)
  have "email_lower (demo_user 7 ''a@b.c'') \<noteq> lower (purged_email demo_ext 7)"
    by (simp add: email_lower_def demo_user_def lower_def ascii_lower_def purged_email_def)
  then show ?thesis
    using anonymize_frees_email [OF ok, of "demo_user 7 ''a@b.c''" demo_ext 8 5 "''Ada''" Member Active]
    by (simp add: user_ids_def demo_user_def) blast
qed

end
