(* ===== verification/Tokens.thy ===== *)
theory Tokens
imports Integrity
begin

text \<open>
  Opaque bearer tokens: 32 random bytes in hexadecimal, of which a table only keeps the SHA-256
  hash. Sessions, machine sessions and invitations are three such tables; the locale
  \<open>token_store\<close> is what their clients rely on: a token resolves to at most one live row,
  exactly the one that carries its hash.
\<close>

definition random_token :: "ext \<Rightarrow> nat \<Rightarrow> string" where
  "random_token X i = hex_encode (fill_bytes X i 32)"

definition token_sha256 :: "ext \<Rightarrow> string \<Rightarrow> bytes" where
  "token_sha256 X token = sha256 X (as_bytes token)"

text \<open>\<open>Utc::now() + ttl\<close> as the column stores it; \<open>ttl\<close> is in microseconds.\<close>

definition expiry :: "int \<Rightarrow> int \<Rightarrow> time" where
  "expiry utc ttl = (utc + 1000 * ttl) div 1000"

lemma expiry_eq: "expiry utc ttl = utc div 1000 + ttl"
  by (simp add: expiry_def)

lemma length_random_token [simp]: "length (random_token X i) = 64"
  by (simp add: random_token_def)

lemma random_token_inj: "random_token X i = random_token X j \<longleftrightarrow> fill_bytes X i 32 = fill_bytes X j 32"
  by (simp add: random_token_def)

locale token_store =
  fixes table :: "database \<Rightarrow> 'r list"
    and hash_col :: "'r \<Rightarrow> bytes"
    and live :: "database \<Rightarrow> time \<Rightarrow> 'r \<Rightarrow> bool"
    and find_active :: "ext \<Rightarrow> time \<Rightarrow> string \<Rightarrow> database \<Rightarrow> (sql_error + 'r option) \<times> database"
  assumes find_active_eq: "find_active X now token d =
      (Inr (fetch_optional (filter (\<lambda>r. hash_col r = token_sha256 X token \<and> live d now r) (table d))), d)"
    and unique_hash: "db_ok d \<Longrightarrow> keyed hash_col (table d)"
begin

lemma find_sound:
  "find_active X now token d = (Inr (Some r), d') \<Longrightarrow>
     d' = d \<and> r \<in> set (table d) \<and> hash_col r = token_sha256 X token \<and> live d now r"
  by (auto simp: find_active_eq dest: fetch_filter_SomeD)

lemma find_complete:
  assumes "db_ok d" and "r \<in> set (table d)" and "hash_col r = token_sha256 X token" and "live d now r"
  shows "find_active X now token d = (Inr (Some r), d)"
  unfolding find_active_eq using assms unique_hash
  by (subst fetch_keyed [of hash_col _ r]) auto

lemma find_none_iff:
  "find_active X now token d = (Inr None, d) \<longleftrightarrow>
     (\<forall>r \<in> set (table d). hash_col r = token_sha256 X token \<longrightarrow> \<not> live d now r)"
  by (auto simp: find_active_eq filter_empty_conv)

lemma find_dead:
  assumes "db_ok d" and "r \<in> set (table d)" and "hash_col r = token_sha256 X token" and "\<not> live d now r"
  shows "find_active X now token d = (Inr None, d)"
  unfolding find_none_iff using assms unique_hash by (metis keyed_eqD)

lemma find_read_only: "snd (find_active X now token d) = d"
  by (simp add: find_active_eq)

end

end
