(* ===== verification/Identity_Invitations.thy ===== *)
theory Identity_Invitations
imports Tokens Audit_Log
begin

text \<open>
  \<open>identity::InvitationRepository\<close>: invitation tokens, their acceptance, revocation and
  reissue. The stored row keeps only the hash of the token.
\<close>

section \<open>Operations\<close>

datatype reissue_rejection = InviteNotFound | AlreadyAccepted | AlreadyRevoked | Expired

text \<open>Seven days, in microseconds.\<close>

definition DEFAULT_INVITATION_TTL :: int where
  "DEFAULT_INVITATION_TTL = 7 * 24 * 60 * 60 * 1000000"

definition generate_invite_token :: "ext \<Rightarrow> nat \<Rightarrow> string" where
  "generate_invite_token X i = hex_encode (fill_bytes X i 32)"

definition hash_invite_token :: "ext \<Rightarrow> string \<Rightarrow> bytes" where
  "hash_invite_token X token = sha256 X (as_bytes token)"

definition insert_invitation :: "invitation \<Rightarrow> invitation stmt" where
  "insert_invitation v d =
     (if inv_id v \<in> inv_id ` set (invitations d)
         \<or> inv_token_hash v \<in> inv_token_hash ` set (invitations d)
      then sql_err UniqueViolation d
      else if inv_invited_by v \<notin> user_ids d
         \<or> (case inv_accepted_user_id v of None \<Rightarrow> False | Some u \<Rightarrow> u \<notin> user_ids d)
      then sql_err ForeignKeyViolation d
      else sql_ok v (d\<lparr>invitations := invitations d @ [v]\<rparr>))"

definition invitation_create ::
  "ext \<Rightarrow> time \<Rightarrow> uuid \<Rightarrow> string \<Rightarrow> instance_role \<Rightarrow> int \<Rightarrow> (sql_error, invitation \<times> string) action" where
  "invitation_create X now invited_by email role ttl =
     andthen (draw (generate_invite_token X)) (\<lambda>token.
     andthen (draw (utc_now X)) (\<lambda>utc.
     andthen (exec X (\<lambda>n. insert_invitation
       \<lparr>inv_id = gen_uuid X n, inv_email = email, inv_token_hash = hash_invite_token X token,
        inv_invited_by = invited_by, inv_instance_role = role, inv_created_at = now,
        inv_expires_at = expiry utc ttl, inv_accepted_at = None, inv_accepted_user_id = None,
        inv_revoked_at = None\<rparr>)) (\<lambda>invitation.
     ret (invitation, token))))"

definition pending :: "time \<Rightarrow> invitation \<Rightarrow> bool" where
  "pending now v = (inv_accepted_at v = None \<and> inv_revoked_at v = None \<and> now < inv_expires_at v)"

definition invitation_find_active :: "ext \<Rightarrow> time \<Rightarrow> string \<Rightarrow> invitation option stmt" where
  "invitation_find_active X now token = query (\<lambda>d. fetch_optional (filter
     (\<lambda>v. inv_token_hash v = hash_invite_token X token \<and> pending now v) (invitations d)))"

definition email_has_active_invite :: "time \<Rightarrow> string \<Rightarrow> bool stmt" where
  "email_has_active_invite now email = query (\<lambda>d. fetch_optional (filter
     (\<lambda>v. lower (inv_email v) = lower email \<and> pending now v) (invitations d)) \<noteq> None)"

definition mark_accepted :: "time \<Rightarrow> uuid \<Rightarrow> uuid \<Rightarrow> unit stmt" where
  "mark_accepted now invitation_id accepted_user d =
     (if invitation_id \<in> inv_id ` set (invitations d) \<and> accepted_user \<notin> user_ids d
      then sql_err ForeignKeyViolation d
      else sql_ok () (d\<lparr>invitations := upd_where (\<lambda>v. inv_id v = invitation_id)
        (\<lambda>v. v\<lparr>inv_accepted_at := Some now, inv_accepted_user_id := Some accepted_user\<rparr>) (invitations d)\<rparr>))"

definition count_pending :: "time \<Rightarrow> int stmt" where
  "count_pending now = query (\<lambda>d. int (count_where (pending now) (invitations d)))"

definition list_pending :: "time \<Rightarrow> invitation list stmt" where
  "list_pending now = query (\<lambda>d. order_desc inv_created_at (filter (pending now) (invitations d)))"

definition invitation_find_by_id :: "uuid \<Rightarrow> invitation option stmt" where
  "invitation_find_by_id vid = query (\<lambda>d. fetch_optional (filter (\<lambda>v. inv_id v = vid) (invitations d)))"

definition invitation_revoke :: "time \<Rightarrow> uuid \<Rightarrow> unit stmt" where
  "invitation_revoke now invitation_id d = sql_ok () (d\<lparr>invitations :=
     upd_where (\<lambda>v. inv_id v = invitation_id)
       (\<lambda>v. v\<lparr>inv_revoked_at := coalesce (inv_revoked_at v) (Some now)\<rparr>) (invitations d)\<rparr>)"

text \<open>The \<open>UPDATE ... RETURNING\<close> of \<open>reissue\<close>; a taken hash violates the unique index.\<close>

definition rotate_token :: "time \<Rightarrow> uuid \<Rightarrow> bytes \<Rightarrow> time \<Rightarrow> invitation option stmt" where
  "rotate_token now invitation_id new_hash new_expires_at d =
     (let p = (\<lambda>v. inv_id v = invitation_id \<and> pending now v);
          f = (\<lambda>v. v\<lparr>inv_token_hash := new_hash, inv_expires_at := new_expires_at\<rparr>)
      in case fetch_optional (filter p (invitations d)) of
           None \<Rightarrow> sql_ok None d
         | Some v \<Rightarrow>
             if \<exists>q \<in> set (invitations d). inv_id q \<noteq> invitation_id \<and> inv_token_hash q = new_hash
             then sql_err UniqueViolation d
             else sql_ok (Some (f v)) (d\<lparr>invitations := upd_where p f (invitations d)\<rparr>))"

definition reissue ::
  "ext \<Rightarrow> time \<Rightarrow> uuid \<Rightarrow> (sql_error, reissue_rejection + (invitation \<times> string)) action" where
  "reissue X now invitation_id =
     andthen (draw (generate_invite_token X)) (\<lambda>new_token.
     andthen (draw (utc_now X)) (\<lambda>utc.
     andthen (exec X (\<lambda>_. rotate_token now invitation_id (hash_invite_token X new_token)
                        (expiry utc DEFAULT_INVITATION_TTL))) (\<lambda>updated.
     case updated of
       Some row \<Rightarrow> ret (Inr (row, new_token))
     | None \<Rightarrow>
         andthen (exec X (\<lambda>_. invitation_find_by_id invitation_id)) (\<lambda>snapshot.
         ret (Inl (case snapshot of
             None \<Rightarrow> InviteNotFound
           | Some row \<Rightarrow>
               if inv_accepted_at row \<noteq> None then AlreadyAccepted
               else if inv_revoked_at row \<noteq> None then AlreadyRevoked
               else Expired))))))"

section \<open>Constraints\<close>

lemma insert_invitation_keep: "db_keep d (snd (insert_invitation v d))"
proof (rule db_keepI)
  assume ok: "db_ok d"
  then show "db_ok (snd (insert_invitation v d))"
    using db_okD(3) [OF ok] by (auto simp: insert_invitation_def invitations_ok_def intro!: db_ok_table)
qed (simp_all add: insert_invitation_def)

lemma keyed_rotate:
  assumes "distinct (map key vs)" and "distinct (map g vs)" and "v \<in> set vs"
    and "\<And>w. p w \<Longrightarrow> key w = key v" and "\<And>w. g (f w) = h"
    and "\<And>w. w \<in> set vs \<Longrightarrow> key w \<noteq> key v \<Longrightarrow> g w \<noteq> h"
  shows "distinct (map g (upd_where p f vs))"
proof -
  have "g (if p a then f a else a) \<noteq> g (if p b then f b else b)"
    if "a \<in> set vs" "b \<in> set vs" "a \<noteq> b" for a b
  proof -
    have "key a \<noteq> key b" "g a \<noteq> g b" using that assms(1,2) by (metis keyed_eqD)+
    with that assms(4-6) show ?thesis by (metis (full_types))
  qed
  then have "inj_on (\<lambda>w. g (if p w then f w else w)) (set vs)" by (auto intro!: inj_onI)
  with assms(1) show ?thesis by (simp add: upd_where_def distinct_map comp_def)
qed

lemma rotate_token_keep: "db_keep d (snd (rotate_token now vid h ex d))"
proof (rule db_keepI)
  let ?p = "\<lambda>v. inv_id v = vid \<and> pending now v"
  let ?f = "\<lambda>v. v\<lparr>inv_token_hash := h, inv_expires_at := ex\<rparr>"
  assume ok: "db_ok d"
  then have vs: "invitations_ok (user_ids d) (invitations d)" by (rule db_okD)
  have "invitations_ok (user_ids d) (upd_where ?p ?f (invitations d))"
    if v: "v \<in> set (invitations d)" "?p v"
      and free: "\<forall>q \<in> set (invitations d). inv_id q \<noteq> vid \<longrightarrow> inv_token_hash q \<noteq> h" for v
  proof -
    have "keyed inv_token_hash (upd_where ?p ?f (invitations d))"
      using vs v free by (intro keyed_rotate [of inv_id _ _ v]) (auto simp: invitations_ok_def)
    with vs show ?thesis by (simp add: invitations_ok_def)
  qed
  then show "db_ok (snd (rotate_token now vid h ex d))"
    using ok by (auto simp: rotate_token_def Let_def intro!: db_ok_table
        split: option.splits dest: fetch_filter_SomeD)
qed (auto simp: rotate_token_def Let_def split: option.splits)

lemma invitation_statements_keep:
  "db_keep d (snd (mark_accepted now vid uid d))"
  "db_keep d (snd (invitation_revoke now vid d))"
proof -
  have a: "invitations_ok U vs \<Longrightarrow> uid \<in> U \<Longrightarrow>
      invitations_ok U (upd_where (\<lambda>v. inv_id v = vid)
        (\<lambda>v. v\<lparr>inv_accepted_at := Some now, inv_accepted_user_id := Some uid\<rparr>) vs)" for U vs
    by (auto simp: invitations_ok_def intro: opt_refs_upd)
  have b: "vid \<notin> inv_id ` set vs \<Longrightarrow> upd_where (\<lambda>v. inv_id v = vid) f vs = vs" for f vs
    by (rule upd_where_none) auto
  show "db_keep d (snd (mark_accepted now vid uid d))"
    using a b [of "invitations d"]
    by (cases "vid \<in> inv_id ` set (invitations d)")
      (auto simp: mark_accepted_def intro!: db_keepI db_ok_table dest: db_okD(3))
  show "db_keep d (snd (invitation_revoke now vid d))"
    using db_okD(3) [of d]
    by (auto simp: invitation_revoke_def invitations_ok_def intro!: db_keepI db_ok_table)
qed

lemma hash_invite_token_eq: "hash_invite_token X token = token_sha256 X token"
  by (simp add: hash_invite_token_def token_sha256_def)

interpretation invitation_store: token_store invitations inv_token_hash "\<lambda>d now v. pending now v"
    invitation_find_active
  by unfold_locales
    (simp_all add: invitation_find_active_def query_def hash_invite_token_eq db_ok_def invitations_ok_def)

section \<open>Properties\<close>

lemma reissue_run:
  assumes "no_faults X"
  shows "reissue X now vid w =
    (let token = generate_invite_token X (w_tick w);
         (r, d') = rotate_token now vid (hash_invite_token X token)
                     (expiry (utc_now X (Suc (w_tick w))) DEFAULT_INVITATION_TTL) (w_db w);
         w' = w\<lparr>w_tick := w_tick w + 3, w_db := d'\<rparr>
     in case r of
          Inl e \<Rightarrow> (Inl e, w')
        | Inr (Some row) \<Rightarrow> (Inr (Inr (row, token)), w')
        | Inr None \<Rightarrow>
            (Inr (Inl (case fetch_optional (filter (\<lambda>v. inv_id v = vid) (invitations d')) of
                None \<Rightarrow> InviteNotFound
              | Some row \<Rightarrow> if inv_accepted_at row \<noteq> None then AlreadyAccepted
                            else if inv_revoked_at row \<noteq> None then AlreadyRevoked else Expired)),
             w'\<lparr>w_tick := w_tick w + 4\<rparr>))"
  using assms
  by (simp add: reissue_def andthen_def exec_no_fault invitation_find_by_id_def Let_def
      case_prod_unfold eval_nat_numeral split: sum.splits option.splits)

text \<open>
  Reissuing a pending invitation replaces its token: the new token resolves to the same
  invitation with the same address and role for seven days from the call, and the token
  handed out before resolves to nothing, at any time.
\<close>

theorem reissue_replaces_token:
  assumes "no_faults X" and "db_ok (w_db w)" and "v \<in> set (invitations (w_db w))" and "pending now v"
    and "inv_token_hash v = hash_invite_token X old"
    and "hash_invite_token X (generate_invite_token X (w_tick w))
           \<notin> inv_token_hash ` set (invitations (w_db w))"
  shows "\<exists>v' token w'. reissue X now (inv_id v) w = (Inr (Inr (v', token)), w')
    \<and> inv_id v' = inv_id v \<and> inv_email v' = inv_email v \<and> inv_instance_role v' = inv_instance_role v
    \<and> db_ok (w_db w')
    \<and> (\<forall>t. invitation_find_active X t token (w_db w') =
         (Inr (if t < utc_now X (Suc (w_tick w)) div 1000 + 7 * 24 * 60 * 60 * 1000000
               then Some v' else None), w_db w'))
    \<and> (\<forall>t. invitation_find_active X t old (w_db w') = (Inr None, w_db w'))"
proof -
  let ?token = "generate_invite_token X (w_tick w)"
  let ?h = "hash_invite_token X ?token" and ?ex = "expiry (utc_now X (Suc (w_tick w))) DEFAULT_INVITATION_TTL"
  let ?p = "\<lambda>q. inv_id q = inv_id v \<and> pending now q"
  let ?f = "\<lambda>v. v\<lparr>inv_token_hash := ?h, inv_expires_at := ?ex\<rparr>"
  define d' where "d' = (w_db w)\<lparr>invitations := upd_where ?p ?f (invitations (w_db w))\<rparr>"
  have k: "keyed inv_id (invitations (w_db w))" "keyed inv_token_hash (invitations (w_db w))"
    using db_okD(3) [OF assms(2)] by (simp_all add: invitations_ok_def)
  have "fetch_optional (filter ?p (invitations (w_db w))) = Some v"
    using k(1) assms(3) by (rule fetch_keyed) (use assms(4) in simp_all)
  then have rot: "rotate_token now (inv_id v) ?h ?ex (w_db w) = (Inr (Some (?f v)), d')"
    using assms(6) by (auto simp: rotate_token_def sql_ok_def sql_err_def d'_def image_iff Let_def)
  then have run: "reissue X now (inv_id v) w = (Inr (Inr (?f v, ?token)), w\<lparr>w_tick := w_tick w + 3, w_db := d'\<rparr>)"
    by (simp add: reissue_run [OF assms(1)] Let_def)
  have ok: "db_ok d'"
    using rotate_token_keep [of "w_db w" now "inv_id v" ?h ?ex] rot assms(2) by (simp add: db_keep_def)
  have mem: "?f v \<in> set (invitations d')" using assms(3,4) by (auto simp: d'_def set_upd_where)
  have other: "inv_token_hash q \<noteq> hash_invite_token X old" if "q \<in> set (invitations d')" for q
  proof -
    from that obtain r where r: "r \<in> set (invitations (w_db w))" "q = (if ?p r then ?f r else r)"
      by (auto simp: d'_def upd_where_def)
    show ?thesis
    proof (cases "?p r")
      case True
      then have "r = v" using k(1) r(1) assms(3) by (auto dest: keyed_eqD)
      with r True assms(3,5,6) show ?thesis by (auto simp: image_iff)
    next
      case False
      then have "r \<noteq> v" using assms(4) by auto
      with k(2) r assms(3,5) False show ?thesis by (metis keyed_eqD)
    qed
  qed
  have live: "pending t (?f v) \<longleftrightarrow> t < utc_now X (Suc (w_tick w)) div 1000 + 7 * 24 * 60 * 60 * 1000000" for t
    using assms(4) by (simp add: pending_def expiry_eq DEFAULT_INVITATION_TTL_def)
  have new: "invitation_find_active X t ?token d' =
      (Inr (if pending t (?f v) then Some (?f v) else None), d')" for t
    using invitation_store.find_complete [OF ok mem, of X ?token t]
      invitation_store.find_dead [OF ok mem, of X ?token t]
    by (simp add: hash_invite_token_eq)
  have "invitation_find_active X t old d' = (Inr None, d')" for t
    using other by (simp add: invitation_store.find_none_iff flip: hash_invite_token_eq)
  with run ok new live show ?thesis
    by (intro exI [of _ "?f v"] exI [of _ ?token] exI [of _ "w\<lparr>w_tick := w_tick w + 3, w_db := d'\<rparr>"]) simp
qed

definition invited_world :: world where
  "invited_world = demo_world\<lparr>w_db := empty_db\<lparr>users :=
     [\<lparr>u_id = 7, u_email = ''ada@b.c'', u_display_name = ''Ada'', u_lifecycle = Active,
       u_instance_role = Owner, u_kind = KindMember, u_locale = None, u_created_at = 0, u_updated_at = 0\<rparr>],
     invitations := [\<lparr>inv_id = 1, inv_email = ''bob@b.c'', inv_token_hash = hash_invite_token demo_ext ''old'',
       inv_invited_by = 7, inv_instance_role = Member, inv_created_at = 0, inv_expires_at = 100,
       inv_accepted_at = None, inv_accepted_user_id = None, inv_revoked_at = None\<rparr>]\<rparr>\<rparr>"

lemma invited_world_ok: "db_ok (w_db invited_world)"
  using empty_db_ok
  by (simp add: invited_world_def db_ok_def user_ids_def table_ok_defs machine_ids_def app_ids_def)

theorem reissue_replaces_token_witness:
  "\<exists>v' token w'. reissue demo_ext 5 1 invited_world = (Inr (Inr (v', token)), w')
     \<and> invitation_find_active demo_ext 6 ''old'' (w_db w') = (Inr None, w_db w')"
proof -
  have "hash_invite_token demo_ext (generate_invite_token demo_ext 0) \<noteq> hash_invite_token demo_ext ''old''"
    by code_simp
  then show ?thesis
    using reissue_replaces_token [of demo_ext invited_world "hd (invitations (w_db invited_world))" 5 "''old''"]
      invited_world_ok
    by (simp add: demo_ext_documented pending_def) (auto simp: invited_world_def)
qed

text \<open>
  A reissue that refuses says why and changes nothing: an unknown id, an accepted, a
  revoked or an expired invitation each get their own rejection, and every other outcome is
  a new token or a database error.
\<close>

theorem reissue_rejects:
  assumes "no_faults X" and "db_ok (w_db w)" and "reissue X now vid w = (Inr (Inl why), w')"
  shows "w_db w' = w_db w
    \<and> (case why of
         InviteNotFound \<Rightarrow> vid \<notin> inv_id ` set (invitations (w_db w))
       | AlreadyAccepted \<Rightarrow> (\<exists>v \<in> set (invitations (w_db w)). inv_id v = vid \<and> inv_accepted_at v \<noteq> None)
       | AlreadyRevoked \<Rightarrow> (\<exists>v \<in> set (invitations (w_db w)). inv_id v = vid \<and> inv_accepted_at v = None
             \<and> inv_revoked_at v \<noteq> None)
       | Expired \<Rightarrow> (\<exists>v \<in> set (invitations (w_db w)). inv_id v = vid \<and> inv_accepted_at v = None
             \<and> inv_revoked_at v = None \<and> inv_expires_at v \<le> now))"
proof -
  let ?p = "\<lambda>v. inv_id v = vid \<and> pending now v"
  have none: "fetch_optional (filter ?p (invitations (w_db w))) = None" and same: "w_db w' = w_db w"
    and why: "why = (case fetch_optional (filter (\<lambda>v. inv_id v = vid) (invitations (w_db w))) of
                None \<Rightarrow> InviteNotFound
              | Some row \<Rightarrow> if inv_accepted_at row \<noteq> None then AlreadyAccepted
                            else if inv_revoked_at row \<noteq> None then AlreadyRevoked else Expired)"
    using assms(3) unfolding reissue_run [OF assms(1)] rotate_token_def Let_def
    by (auto simp: sql_ok_def sql_err_def split: option.splits if_splits prod.splits sum.splits)
  show ?thesis
  proof (cases "fetch_optional (filter (\<lambda>v. inv_id v = vid) (invitations (w_db w)))")
    case None
    then show ?thesis using same why by (auto simp: filter_empty_conv)
  next
    case (Some v)
    then have v: "v \<in> set (invitations (w_db w))" "inv_id v = vid" by (auto dest: fetch_filter_SomeD)
    then have "\<not> pending now v" using none by (auto simp: filter_empty_conv)
    with v Some same why show ?thesis by (auto simp: pending_def)
  qed
qed

theorem reissue_rejects_witness:
  "\<exists>w'. reissue demo_ext 100 1 invited_world = (Inr (Inl Expired), w') \<and> w_db w' = w_db invited_world"
proof -
  have "\<exists>w'. reissue demo_ext 100 1 invited_world = (Inr (Inl Expired), w')"
    by (simp add: reissue_run demo_ext_documented rotate_token_def sql_ok_def pending_def invited_world_def Let_def)
  then show ?thesis
    using reissue_rejects [OF _ invited_world_ok, of demo_ext 100 1 Expired] by (auto simp: demo_ext_documented)
qed

end
