(* ===== verification/Identity_Devices.thy ===== *)
theory Identity_Devices
imports Tokens Audit_Log
begin

text \<open>
  \<open>identity::enrollment\<close> and \<open>identity::machine_telemetry\<close>: key bundles, avatars, machines,
  machine sessions, the device-admin group, telemetry and device enrollments.
\<close>

section \<open>Key bundles and avatars\<close>

definition user_key_create :: "uuid \<Rightarrow> user_key_material \<Rightarrow> unit stmt" where
  "user_key_create user_id km d =
     (if user_id \<in> uk_user_id ` set (user_keys d) then sql_err UniqueViolation d
      else if user_id \<notin> user_ids d then sql_err ForeignKeyViolation d
      else sql_ok () (d\<lparr>user_keys := user_keys d @ [\<lparr>uk_user_id = user_id, uk_material = km\<rparr>]\<rparr>))"

definition user_key_update :: "uuid \<Rightarrow> bytes \<Rightarrow> bytes \<Rightarrow> string \<Rightarrow> unit stmt" where
  "user_key_update user_id master_key_wrapped kdf_salt kdf_params d =
     sql_ok () (d\<lparr>user_keys := upd_where (\<lambda>r. uk_user_id r = user_id)
       (\<lambda>r. r\<lparr>uk_material := (uk_material r)\<lparr>km_master_key_wrapped := master_key_wrapped,
          km_kdf_salt := kdf_salt, km_kdf_params := kdf_params\<rparr>\<rparr>) (user_keys d)\<rparr>)"

definition user_key_get :: "uuid \<Rightarrow> user_key_material option stmt" where
  "user_key_get user_id = query (\<lambda>d. map_option uk_material
     (fetch_optional (filter (\<lambda>r. uk_user_id r = user_id) (user_keys d))))"

definition avatar_get :: "uuid \<Rightarrow> bytes option stmt" where
  "avatar_get user_id = query (\<lambda>d. map_option ua_avatar
     (fetch_optional (filter (\<lambda>r. ua_user_id r = user_id) (user_avatars d))))"

definition avatar_upsert :: "time \<Rightarrow> uuid \<Rightarrow> bytes \<Rightarrow> unit stmt" where
  "avatar_upsert now user_id avatar d =
     (if user_id \<in> ua_user_id ` set (user_avatars d)
      then sql_ok () (d\<lparr>user_avatars := upd_where (\<lambda>r. ua_user_id r = user_id)
             (\<lambda>r. r\<lparr>ua_avatar := avatar, ua_updated_at := now\<rparr>) (user_avatars d)\<rparr>)
      else if user_id \<notin> user_ids d then sql_err ForeignKeyViolation d
      else sql_ok () (d\<lparr>user_avatars := user_avatars d
             @ [\<lparr>ua_user_id = user_id, ua_avatar = avatar, ua_updated_at = now\<rparr>]\<rparr>))"

section \<open>Machines\<close>

definition insert_machine :: "machine \<Rightarrow> machine stmt" where
  "insert_machine m d =
     (if m_id m \<in> machine_ids d
         \<or> (case m_identity_public m of None \<Rightarrow> False
            | Some k \<Rightarrow> k \<in> set (some_values m_identity_public (machines d)))
      then sql_err UniqueViolation d
      else if (case m_claimed_by_user_id m of None \<Rightarrow> False | Some u \<Rightarrow> u \<notin> user_ids d)
      then sql_err ForeignKeyViolation d
      else sql_ok m (d\<lparr>machines := machines d @ [m]\<rparr>))"

definition machine_create :: "uuid \<Rightarrow> time \<Rightarrow> string \<Rightarrow> string \<Rightarrow> uuid option \<Rightarrow> machine stmt" where
  "machine_create new_id now label platform claimed_by =
     insert_machine \<lparr>m_id = new_id, m_label = label, m_platform = platform,
       m_claimed_by_user_id = claimed_by, m_identity_public = None, m_agent_version = None,
       m_location_enabled = False, m_created_at = now, m_last_seen_at = None\<rparr>"

text \<open>\<open>ON CONFLICT (machine_identity_public) DO UPDATE ... RETURNING id\<close>.\<close>

definition register_or_update :: "uuid \<Rightarrow> time \<Rightarrow> bytes \<Rightarrow> string \<Rightarrow> string \<Rightarrow> uuid stmt" where
  "register_or_update new_id now identity_public platform label d =
     (case fetch_optional (filter (\<lambda>m. m_identity_public m = Some identity_public) (machines d)) of
        Some m \<Rightarrow> sql_ok (m_id m) (d\<lparr>machines := upd_where (\<lambda>q. m_identity_public q = Some identity_public)
            (\<lambda>q. q\<lparr>m_label := label, m_platform := platform, m_last_seen_at := Some now\<rparr>) (machines d)\<rparr>)
      | None \<Rightarrow>
          (case insert_machine \<lparr>m_id = new_id, m_label = label, m_platform = platform,
             m_claimed_by_user_id = None, m_identity_public = Some identity_public,
             m_agent_version = None, m_location_enabled = False, m_created_at = now,
             m_last_seen_at = Some now\<rparr> d of
             (Inl e, d') \<Rightarrow> (Inl e, d') | (Inr m, d') \<Rightarrow> (Inr (m_id m), d')))"

definition touch_checkin :: "time \<Rightarrow> uuid \<Rightarrow> string \<Rightarrow> unit stmt" where
  "touch_checkin now machine_id agent_version d = sql_ok () (d\<lparr>machines :=
     upd_where (\<lambda>m. m_id m = machine_id)
       (\<lambda>m. m\<lparr>m_last_seen_at := Some now, m_agent_version := Some agent_version\<rparr>) (machines d)\<rparr>)"

definition location_enabled :: "uuid \<Rightarrow> bool stmt" where
  "location_enabled machine_id d =
     (case fetch_one (filter (\<lambda>m. m_id m = machine_id) (machines d)) of
        Inl e \<Rightarrow> sql_err e d | Inr m \<Rightarrow> sql_ok (m_location_enabled m) d)"

definition set_location_enabled :: "uuid \<Rightarrow> bool \<Rightarrow> unit stmt" where
  "set_location_enabled machine_id enabled d = sql_ok () (d\<lparr>machines :=
     upd_where (\<lambda>m. m_id m = machine_id) (\<lambda>m. m\<lparr>m_location_enabled := enabled\<rparr>) (machines d)\<rparr>)"

section \<open>Machine sessions\<close>

definition generate_machine_token :: "ext \<Rightarrow> nat \<Rightarrow> string" where
  "generate_machine_token X i = hex_encode (fill_bytes X i 32)"

definition hash_machine_token :: "ext \<Rightarrow> string \<Rightarrow> bytes" where
  "hash_machine_token X token = sha256 X (as_bytes token)"

definition insert_machine_session :: "machine_session \<Rightarrow> machine_session stmt" where
  "insert_machine_session s d =
     (if ms_id s \<in> ms_id ` set (machine_sessions d)
         \<or> ms_token_hash s \<in> ms_token_hash ` set (machine_sessions d)
      then sql_err UniqueViolation d
      else if ms_machine_id s \<notin> machine_ids d then sql_err ForeignKeyViolation d
      else sql_ok s (d\<lparr>machine_sessions := machine_sessions d @ [s]\<rparr>))"

definition machine_session_create ::
  "ext \<Rightarrow> time \<Rightarrow> uuid \<Rightarrow> int \<Rightarrow> (sql_error, machine_session \<times> string) action" where
  "machine_session_create X now machine_id ttl =
     andthen (draw (generate_machine_token X)) (\<lambda>token.
     andthen (draw (utc_now X)) (\<lambda>utc.
     andthen (exec X (\<lambda>n. insert_machine_session
       \<lparr>ms_id = gen_uuid X n, ms_machine_id = machine_id, ms_token_hash = hash_machine_token X token,
        ms_created_at = now, ms_expires_at = expiry utc ttl, ms_revoked_at = None\<rparr>)) (\<lambda>session.
     ret (session, token))))"

definition machine_session_find_active :: "ext \<Rightarrow> time \<Rightarrow> string \<Rightarrow> machine_session option stmt" where
  "machine_session_find_active X now token = query (\<lambda>d. fetch_optional (filter
     (\<lambda>s. ms_token_hash s = hash_machine_token X token \<and> ms_revoked_at s = None \<and> now < ms_expires_at s)
     (machine_sessions d)))"

section \<open>Telemetry\<close>

definition group_active :: "(uuid \<times> bytes) option stmt" where
  "group_active = query (\<lambda>d. map_option (\<lambda>g. (dg_id g, dg_public g))
     (fetch_optional (order_desc dg_created_at (device_admin_groups d))))"

definition group_create :: "uuid \<Rightarrow> time \<Rightarrow> bytes \<Rightarrow> uuid stmt" where
  "group_create new_id now group_public d =
     (if new_id \<in> dg_id ` set (device_admin_groups d) then sql_err UniqueViolation d
      else sql_ok new_id (d\<lparr>device_admin_groups := device_admin_groups d
             @ [\<lparr>dg_id = new_id, dg_public = group_public, dg_created_at = now\<rparr>]\<rparr>))"

record new_telemetry =
  nt_kind :: string
  nt_recipient_key_id :: bytes
  nt_seq :: int
  nt_ciphertext :: bytes
  nt_signature :: bytes

text \<open>The identity column counts every attempt, failed ones included.\<close>

definition insert_telemetry :: "uuid \<Rightarrow> new_telemetry \<Rightarrow> unit stmt" where
  "insert_telemetry machine_id blob d =
     (let k = telemetry_id_seq d + 1; d1 = d\<lparr>telemetry_id_seq := k\<rparr> in
      if machine_id \<notin> machine_ids d then sql_err ForeignKeyViolation d1
      else sql_ok () (d1\<lparr>machine_telemetry := machine_telemetry d
             @ [\<lparr>tm_id = k, tm_machine_id = machine_id, tm_kind = nt_kind blob,
                 tm_recipient_key_id = nt_recipient_key_id blob, tm_seq = nt_seq blob,
                 tm_ciphertext = nt_ciphertext blob, tm_signature = nt_signature blob\<rparr>]\<rparr>))"

text \<open>One statement per blob, outside any transaction; the first error stops the loop.\<close>

fun telemetry_insert :: "ext \<Rightarrow> uuid \<Rightarrow> new_telemetry list \<Rightarrow> (sql_error, unit) action" where
  "telemetry_insert X machine_id [] = ret ()"
| "telemetry_insert X machine_id (blob # blobs) =
     andthen (exec X (\<lambda>_. insert_telemetry machine_id blob)) (\<lambda>_.
     telemetry_insert X machine_id blobs)"

section \<open>Devices\<close>

record new_device =
  nd_user_id :: uuid
  nd_machine_id :: "uuid option"
  nd_device_label :: string
  nd_platform :: string
  nd_device_public_key :: bytes

definition insert_device :: "device \<Rightarrow> device stmt" where
  "insert_device v d =
     (if d_id v \<in> d_id ` set (devices d) then sql_err UniqueViolation d
      else if d_user_id v \<notin> user_ids d
         \<or> (case d_machine_id v of None \<Rightarrow> False | Some m \<Rightarrow> m \<notin> machine_ids d)
      then sql_err ForeignKeyViolation d
      else sql_ok v (d\<lparr>devices := devices d @ [v]\<rparr>))"

definition device_register :: "uuid \<Rightarrow> time \<Rightarrow> new_device \<Rightarrow> device stmt" where
  "device_register new_id now nd =
     insert_device \<lparr>d_id = new_id, d_user_id = nd_user_id nd, d_machine_id = nd_machine_id nd,
       d_device_label = nd_device_label nd, d_platform = nd_platform nd,
       d_device_public_key = nd_device_public_key nd, d_created_at = now, d_last_seen_at = None,
       d_revoked_at = None\<rparr>"

definition device_list_for_user :: "uuid \<Rightarrow> device list stmt" where
  "device_list_for_user user_id = query (\<lambda>d. order_asc d_created_at
     (filter (\<lambda>v. d_user_id v = user_id \<and> d_revoked_at v = None) (devices d)))"

definition device_get_owned :: "uuid \<Rightarrow> uuid \<Rightarrow> device option stmt" where
  "device_get_owned device_id user_id = query (\<lambda>d. fetch_optional
     (filter (\<lambda>v. d_id v = device_id \<and> d_user_id v = user_id) (devices d)))"

definition device_revoke_owned :: "time \<Rightarrow> uuid \<Rightarrow> uuid \<Rightarrow> bool stmt" where
  "device_revoke_owned now device_id user_id d =
     (let p = (\<lambda>v. d_id v = device_id \<and> d_user_id v = user_id \<and> d_revoked_at v = None)
      in sql_ok (0 < count_where p (devices d))
           (d\<lparr>devices := upd_where p (\<lambda>v. v\<lparr>d_revoked_at := Some now\<rparr>) (devices d)\<rparr>))"

section \<open>Constraints\<close>

text \<open>New machines only widen what the other tables may refer to.\<close>

lemma db_ok_machines:
  assumes "db_ok d" and "machine_ids d \<subseteq> m_id ` set ms" and "machines_ok (user_ids d) ms"
  shows "db_ok (d\<lparr>machines := ms\<rparr>)"
  using assms
  by (auto simp: db_ok_def machine_sessions_ok_def telemetry_ok_def devices_ok_def user_ids_def
      machine_ids_def app_ids_def elim!: refs_mono opt_refs_mono)

lemma insert_machine_keep: "db_keep d (snd (insert_machine m d))"
proof (rule db_keepI)
  assume ok: "db_ok d"
  then show "db_ok (snd (insert_machine m d))"
    using db_okD(8) [OF ok]
    by (auto simp: insert_machine_def machine_ids_def machines_ok_def set_some_values
        intro!: db_ok_machines split: option.splits)
qed (simp_all add: insert_machine_def)

lemma machines_upd_keep:
  assumes "\<And>m. m_id (f m) = m_id m" "\<And>m. m_identity_public (f m) = m_identity_public m"
    "\<And>m. m_claimed_by_user_id (f m) = m_claimed_by_user_id m"
  shows "db_keep d (d\<lparr>machines := upd_where p f (machines d)\<rparr>)"
  using assms db_okD(8) [of d]
  by (auto simp: machines_ok_def machine_ids_def map_inj_upd_where intro!: db_keepI db_ok_machines)

lemma register_or_update_keep: "db_keep d (snd (register_or_update new_id now pk platform label d))"
  using insert_machine_keep
  by (auto simp: register_or_update_def intro: machines_upd_keep split: option.splits prod.splits sum.splits)
    (metis snd_conv)+

lemma user_key_keep:
  "db_keep d (snd (user_key_create uid km d))" "db_keep d (snd (user_key_update uid mk salt params d))"
  using db_okD(4,5) [of d]
  by (auto simp: user_key_create_def user_key_update_def intro!: db_keepI db_ok_table)

lemma avatar_keep: "db_keep d (snd (avatar_upsert now uid avatar d))"
  using db_okD(6,7) [of d]
  by (auto simp: avatar_upsert_def intro!: db_keepI db_ok_table)

lemma machine_statements_keep:
  "db_keep d (snd (machine_create new_id now label platform claimed d))"
  "db_keep d (snd (touch_checkin now mid version d))"
  "db_keep d (snd (set_location_enabled mid b d))"
  by (simp_all add: machine_create_def insert_machine_keep touch_checkin_def set_location_enabled_def
      machines_upd_keep)

lemma insert_machine_session_keep: "db_keep d (snd (insert_machine_session s d))"
  using db_okD(9) [of d]
  by (auto simp: insert_machine_session_def machine_sessions_ok_def intro!: db_keepI db_ok_table)

lemma group_create_keep: "db_keep d (snd (group_create new_id now pub d))"
  using db_okD(10) [of d]
  by (auto simp: group_create_def intro!: db_keepI db_ok_table)

lemma device_keep:
  "db_keep d (snd (insert_device v d))" "db_keep d (snd (device_revoke_owned now did uid d))"
  using db_okD(12) [of d]
  by (auto simp: insert_device_def device_revoke_owned_def devices_ok_def Let_def
      intro!: db_keepI db_ok_table split: option.splits)

lemma insert_telemetry_keep: "db_keep d (snd (insert_telemetry mid blob d))"
proof -
  have t: "telemetry_ok M (n + 1) rs" if "telemetry_ok M n rs" for M n rs
    using that by (auto simp: telemetry_ok_def elim: refs_mono)
  have n: "n + 1 \<notin> tm_id ` set rs" if "telemetry_ok M n rs" for M n rs
    using that by (fastforce simp: telemetry_ok_def refs_def)
  show ?thesis
    using t n [OF db_okD(11)]
    by (auto simp: db_keep_def insert_telemetry_def Let_def db_ok_def user_ids_def machine_ids_def
        app_ids_def) (auto simp: telemetry_ok_def elim: refs_mono)
qed

section \<open>Machine sessions as a token store\<close>

lemma hash_machine_token_eq: "hash_machine_token X token = token_sha256 X token"
  by (simp add: hash_machine_token_def token_sha256_def)

definition machine_session_live :: "database \<Rightarrow> time \<Rightarrow> machine_session \<Rightarrow> bool" where
  "machine_session_live d now s = (ms_revoked_at s = None \<and> now < ms_expires_at s)"

interpretation machine_store: token_store machine_sessions ms_token_hash machine_session_live
    machine_session_find_active
  by unfold_locales
    (simp_all add: machine_session_find_active_def query_def machine_session_live_def
      hash_machine_token_eq db_ok_def machine_sessions_ok_def)

section \<open>Properties\<close>

text \<open>
  Registering a machine is idempotent on its identity key: a second registration with the
  same key returns the id of the first one and adds no row; it updates label, platform and
  last-seen time, keeps the claim, the agent version and the location policy, and touches no
  other machine.
\<close>

theorem register_idempotent:
  assumes "db_ok d" and "register_or_update id1 t1 key plat1 label1 d = (Inr mid, d1)"
  shows "\<exists>d2. register_or_update id2 t2 key plat2 label2 d1 = (Inr mid, d2)
    \<and> machine_ids d2 = machine_ids d1 \<and> length (machines d2) = length (machines d1)
    \<and> db_ok d2
    \<and> (\<forall>m \<in> set (machines d1). m_id m \<noteq> mid \<longrightarrow> m \<in> set (machines d2))
    \<and> (\<exists>m \<in> set (machines d1). m_id m = mid \<and> m_identity_public m = Some key
         \<and> m\<lparr>m_label := label2, m_platform := plat2, m_last_seen_at := Some t2\<rparr> \<in> set (machines d2))"
proof -
  have ok1: "db_ok d1"
    using register_or_update_keep [of d id1 t1 key plat1 label1] assms by (simp add: db_keep_def)
  have found: "\<exists>m. m \<in> set (machines d1) \<and> m_id m = mid \<and> m_identity_public m = Some key"
  proof (cases "fetch_optional (filter (\<lambda>m. m_identity_public m = Some key) (machines d))")
    case None
    with assms(2) show ?thesis
      by (auto simp: register_or_update_def insert_machine_def sql_ok_def sql_err_def split: if_splits)
  next
    case (Some m)
    then have "m \<in> set (machines d)" "m_identity_public m = Some key" by (auto dest: fetch_filter_SomeD)
    with Some assms(2) show ?thesis
      by (intro exI [of _ "m\<lparr>m_label := label1, m_platform := plat1, m_last_seen_at := Some t1\<rparr>"])
        (auto simp: register_or_update_def sql_ok_def set_upd_where)
  qed
  then obtain m where m: "m \<in> set (machines d1)" "m_id m = mid" "m_identity_public m = Some key"
    by blast
  have uniq: "q = m" if "q \<in> set (machines d1)" "m_identity_public q = Some key" for q
    using db_okD(8) [OF ok1] that m
    by (auto simp: machines_ok_def intro: some_values_unique)
  have f: "fetch_optional (filter (\<lambda>q. m_identity_public q = Some key) (machines d1)) = Some m"
    using m(1) by (rule fetch_unique) (simp_all add: m(3) uniq)
  let ?d2 = "d1\<lparr>machines := upd_where (\<lambda>q. m_identity_public q = Some key)
            (\<lambda>q. q\<lparr>m_label := label2, m_platform := plat2, m_last_seen_at := Some t2\<rparr>) (machines d1)\<rparr>"
  have run: "register_or_update id2 t2 key plat2 label2 d1 = (Inr mid, ?d2)"
    using f m(2) by (simp add: register_or_update_def sql_ok_def)
  have "db_ok ?d2"
    using register_or_update_keep [of d1 id2 t2 key plat2 label2] run ok1 by (simp add: db_keep_def)
  moreover have "machine_ids ?d2 = machine_ids d1" by (simp add: machine_ids_def map_inj_upd_where)
  moreover have "q \<in> set (machines ?d2)" if "q \<in> set (machines d1)" "m_id q \<noteq> mid" for q
  proof -
    have "m_identity_public q \<noteq> Some key" using uniq [OF that(1)] that(2) m(2) by auto
    with that(1) show ?thesis by (simp add: set_upd_where)
  qed
  moreover have "m\<lparr>m_label := label2, m_platform := plat2, m_last_seen_at := Some t2\<rparr> \<in> set (machines ?d2)"
    using m(1,3) by (auto simp: set_upd_where)
  ultimately show ?thesis using run m by (intro exI [of _ ?d2]) auto
qed

theorem register_idempotent_witness:
  "\<exists>d1 d2. register_or_update 1 0 [1, 2] ''linux'' ''a'' empty_db = (Inr 1, d1)
     \<and> register_or_update 2 5 [1, 2] ''linux'' ''b'' d1 = (Inr 1, d2) \<and> length (machines d2) = 1"
proof -
  obtain d1 where "register_or_update 1 0 [1, 2] ''linux'' ''a'' empty_db = (Inr 1, d1)"
    and "length (machines d1) = 1"
    by (simp add: register_or_update_def insert_machine_def machine_ids_def sql_ok_def)
  with register_idempotent [OF empty_db_ok this(1), of 2 5 "''linux''" "''b''"] show ?thesis by auto
qed

lemma insert_telemetry_run:
  "insert_telemetry mid blob d = (r, d') \<Longrightarrow>
     (r = Inl ForeignKeyViolation \<and> mid \<notin> machine_ids d \<and> machine_telemetry d' = machine_telemetry d
      \<and> machines d' = machines d)
     \<or> (r = Inr () \<and> mid \<in> machine_ids d \<and> machines d' = machines d
        \<and> (\<exists>k. machine_telemetry d' = machine_telemetry d
             @ [\<lparr>tm_id = k, tm_machine_id = mid, tm_kind = nt_kind blob,
                 tm_recipient_key_id = nt_recipient_key_id blob, tm_seq = nt_seq blob,
                 tm_ciphertext = nt_ciphertext blob, tm_signature = nt_signature blob\<rparr>]))"
  by (auto simp: insert_telemetry_def Let_def sql_err_def sql_ok_def split: if_splits)

text \<open>The blobs that a list of stored rows came from.\<close>

definition blob_of :: "telemetry \<Rightarrow> new_telemetry" where
  "blob_of r = \<lparr>nt_kind = tm_kind r, nt_recipient_key_id = tm_recipient_key_id r,
     nt_seq = tm_seq r, nt_ciphertext = tm_ciphertext r, nt_signature = tm_signature r\<rparr>"

text \<open>
  C33. A telemetry batch is not atomic, yet it never stores anything else: whatever fails on the
  way, what a batch leaves behind is rows for exactly a prefix of it, in order, all under the
  named machine; an \<open>Ok\<close> means that the whole batch is stored.
\<close>

theorem telemetry_insert_prefix:
  assumes "telemetry_insert X mid blobs w = (r, w')"
  shows "\<exists>rows. machine_telemetry (w_db w') = machine_telemetry (w_db w) @ rows
    \<and> prefix (map blob_of rows) blobs \<and> (\<forall>t \<in> set rows. tm_machine_id t = mid)
    \<and> (r = Inr () \<longrightarrow> map blob_of rows = blobs)"
  using assms
proof (induction blobs arbitrary: w)
  case (Cons blob blobs)
  from Cons.prems have "andthen (exec X (\<lambda>_. insert_telemetry mid blob)) (\<lambda>_. telemetry_insert X mid blobs) w
      = (r, w')" by simp
  then show ?case
  proof (cases rule: andthen_cases)
    case (stop e)
    then show ?thesis
      by (auto elim!: exec_cases dest!: insert_telemetry_run simp: blob_of_def)
  next
    case (go u w1)
    obtain k where w1: "machine_telemetry (w_db w1) = machine_telemetry (w_db w)
             @ [\<lparr>tm_id = k, tm_machine_id = mid, tm_kind = nt_kind blob,
                 tm_recipient_key_id = nt_recipient_key_id blob, tm_seq = nt_seq blob,
                 tm_ciphertext = nt_ciphertext blob, tm_signature = nt_signature blob\<rparr>]"
      using go(1) by (auto elim!: exec_eq_InrE dest!: insert_telemetry_run)
    obtain rows where rows: "machine_telemetry (w_db w') = machine_telemetry (w_db w1) @ rows"
      "prefix (map blob_of rows) blobs" "\<forall>t \<in> set rows. tm_machine_id t = mid"
      "r = Inr () \<longrightarrow> map blob_of rows = blobs"
      using Cons.IH [OF go(2)] by blast
    moreover have "blob_of \<lparr>tm_id = k, tm_machine_id = mid, tm_kind = nt_kind blob,
                 tm_recipient_key_id = nt_recipient_key_id blob, tm_seq = nt_seq blob,
                 tm_ciphertext = nt_ciphertext blob, tm_signature = nt_signature blob\<rparr> = blob"
      by (simp add: blob_of_def)
    ultimately show ?thesis using w1 by simp
  qed
qed simp

theorem telemetry_insert_prefix_witness:
  "\<exists>rows. machine_telemetry (w_db (snd (telemetry_insert demo_ext 3
       [\<lparr>nt_kind = ''location'', nt_recipient_key_id = [], nt_seq = 1, nt_ciphertext = [9], nt_signature = []\<rparr>]
       demo_world))) = machine_telemetry (w_db demo_world) @ rows \<and> (\<forall>t \<in> set rows. tm_machine_id t = 3)"
  using telemetry_insert_prefix [of demo_ext 3
      "[\<lparr>nt_kind = ''location'', nt_recipient_key_id = [], nt_seq = 1, nt_ciphertext = [9], nt_signature = []\<rparr>]"
      demo_world] by (metis prod.collapse)

end
