(* ===== verification/Auth_Sessions.thy ===== *)
theory Auth_Sessions
imports Tokens Audit_Log
begin

text \<open>
  \<open>auth::SessionRepository\<close>: the user sessions. A method inside a transaction takes its time
  stamp \<open>now\<close>; \<open>session_create\<close> also draws a token and reads the clock, so it is an action.
\<close>

section \<open>Operations\<close>

definition TOKEN_BYTES :: nat where
  "TOKEN_BYTES = 32"

definition generate_token :: "ext \<Rightarrow> nat \<Rightarrow> string" where
  "generate_token X i = hex_encode (fill_bytes X i TOKEN_BYTES)"

definition hash_token :: "ext \<Rightarrow> string \<Rightarrow> bytes" where
  "hash_token X token = sha256 X (as_bytes token)"

text \<open>24 hours, in microseconds.\<close>

definition DEFAULT_SESSION_TTL :: int where
  "DEFAULT_SESSION_TTL = 24 * 60 * 60 * 1000000"

definition insert_session :: "session \<Rightarrow> session stmt" where
  "insert_session s d =
     (if s_id s \<in> s_id ` set (sessions d) \<or> s_token_hash s \<in> s_token_hash ` set (sessions d)
      then sql_err UniqueViolation d
      else if s_user_id s \<notin> user_ids d then sql_err ForeignKeyViolation d
      else sql_ok s (d\<lparr>sessions := sessions d @ [s]\<rparr>))"

definition session_create ::
  "ext \<Rightarrow> time \<Rightarrow> uuid \<Rightarrow> int \<Rightarrow> string option \<Rightarrow> string option \<Rightarrow> (sql_error, session \<times> string) action" where
  "session_create X now user_id ttl user_agent ip_address =
     andthen (draw (generate_token X)) (\<lambda>token.
     andthen (draw (utc_now X)) (\<lambda>utc.
     andthen (exec X (\<lambda>n. insert_session
       \<lparr>s_id = gen_uuid X n, s_user_id = user_id, s_token_hash = hash_token X token,
        s_created_at = now, s_expires_at = expiry utc ttl, s_revoked_at = None,
        s_user_agent = user_agent, s_ip_address = ip_address, s_last_seen_at = None,
        s_label = None\<rparr>)) (\<lambda>session.
     ret (session, token))))"

definition session_active :: "time \<Rightarrow> session \<Rightarrow> bool" where
  "session_active now s = (s_revoked_at s = None \<and> now < s_expires_at s)"

definition user_active :: "database \<Rightarrow> uuid \<Rightarrow> bool" where
  "user_active d uid = list_ex (\<lambda>u. u_id u = uid \<and> u_lifecycle u = Active) (users d)"

definition session_find_active :: "ext \<Rightarrow> time \<Rightarrow> string \<Rightarrow> session option stmt" where
  "session_find_active X now token = query (\<lambda>d. fetch_optional (filter
     (\<lambda>s. s_token_hash s = hash_token X token \<and> s_revoked_at s = None \<and> now < s_expires_at s
        \<and> user_active d (s_user_id s)) (sessions d)))"

definition session_revoke :: "time \<Rightarrow> uuid \<Rightarrow> unit stmt" where
  "session_revoke now session_id d = sql_ok () (d\<lparr>sessions :=
     upd_where (\<lambda>s. s_id s = session_id)
       (\<lambda>s. s\<lparr>s_revoked_at := coalesce (s_revoked_at s) (Some now)\<rparr>) (sessions d)\<rparr>)"

definition revoke_all_for_user_except :: "time \<Rightarrow> uuid \<Rightarrow> uuid \<Rightarrow> nat stmt" where
  "revoke_all_for_user_except now user_id keep_session_id d =
     (let p = (\<lambda>s. s_user_id s = user_id \<and> s_id s \<noteq> keep_session_id \<and> s_revoked_at s = None
                   \<and> now < s_expires_at s)
      in sql_ok (count_where p (sessions d))
           (d\<lparr>sessions := upd_where p (\<lambda>s. s\<lparr>s_revoked_at := Some now\<rparr>) (sessions d)\<rparr>))"

definition revoke_all_for_user :: "time \<Rightarrow> uuid \<Rightarrow> nat stmt" where
  "revoke_all_for_user now user_id d =
     (let p = (\<lambda>s. s_user_id s = user_id \<and> s_revoked_at s = None \<and> now < s_expires_at s)
      in sql_ok (count_where p (sessions d))
           (d\<lparr>sessions := upd_where p (\<lambda>s. s\<lparr>s_revoked_at := Some now\<rparr>) (sessions d)\<rparr>))"

definition session_count_active :: "time \<Rightarrow> int stmt" where
  "session_count_active now = query (\<lambda>d. int (count_where
     (\<lambda>s. s_revoked_at s = None \<and> now < s_expires_at s) (sessions d)))"

definition session_list_for_user :: "uuid \<Rightarrow> session list stmt" where
  "session_list_for_user user_id = query (\<lambda>d. order_desc s_created_at
     (filter (\<lambda>s. s_user_id s = user_id) (sessions d)))"

definition session_list_all_active :: "time \<Rightarrow> session list stmt" where
  "session_list_all_active now = query (\<lambda>d. order_desc s_created_at
     (filter (\<lambda>s. s_revoked_at s = None \<and> now < s_expires_at s) (sessions d)))"

definition touch_last_seen :: "time \<Rightarrow> uuid \<Rightarrow> unit stmt" where
  "touch_last_seen now session_id d = sql_ok () (d\<lparr>sessions :=
     upd_where (\<lambda>s. s_id s = session_id
         \<and> (case s_last_seen_at s of None \<Rightarrow> True | Some t \<Rightarrow> t < now - 5 * 60 * 1000000))
       (\<lambda>s. s\<lparr>s_last_seen_at := Some now\<rparr>) (sessions d)\<rparr>)"

definition session_set_label :: "uuid \<Rightarrow> uuid \<Rightarrow> string option \<Rightarrow> unit stmt" where
  "session_set_label session_id user_id label d = sql_ok () (d\<lparr>sessions :=
     upd_where (\<lambda>s. s_id s = session_id \<and> s_user_id s = user_id) (\<lambda>s. s\<lparr>s_label := label\<rparr>) (sessions d)\<rparr>)"

text \<open>\<open>MAX(COALESCE(last_seen_at, created_at)) ... GROUP BY user_id\<close>, as the returned map.\<close>

definition last_activity_by_user :: "uuid list \<Rightarrow> (uuid \<Rightarrow> time option) stmt" where
  "last_activity_by_user ids =
     (if ids = [] then sql_ok (\<lambda>_. None)
      else query (\<lambda>d uid.
        let ts = map (\<lambda>s. case s_last_seen_at s of None \<Rightarrow> s_created_at s | Some t \<Rightarrow> t)
                   (filter (\<lambda>s. s_user_id s = uid \<and> uid \<in> set ids) (sessions d))
        in if ts = [] then None else Some (Max (set ts))))"

definition session_find_by_id :: "uuid \<Rightarrow> session option stmt" where
  "session_find_by_id session_id = query (\<lambda>d. fetch_optional
     (filter (\<lambda>s. s_id s = session_id) (sessions d)))"

lemmas session_write_defs [sql_defs] = session_revoke_def revoke_all_for_user_except_def
  revoke_all_for_user_def touch_last_seen_def session_set_label_def

section \<open>Constraints\<close>

lemma sessions_ok_upd:
  assumes "sessions_ok U ss" and "\<And>s. s_id (f s) = s_id s" "\<And>s. s_token_hash (f s) = s_token_hash s"
    "\<And>s. s_user_id (f s) = s_user_id s"
  shows "sessions_ok U (upd_where p f ss)"
  using assms by (simp add: sessions_ok_def)

lemma insert_session_cases:
  assumes "insert_session s d = (r, d')"
  obtains (refused) e where "r = Inl e" and "d' = d"
  | (new) "r = Inr s" and "d' = d\<lparr>sessions := sessions d @ [s]\<rparr>" and "s_user_id s \<in> user_ids d"
      and "s_id s \<notin> s_id ` set (sessions d)" and "s_token_hash s \<notin> s_token_hash ` set (sessions d)"
  using assms by (auto simp: insert_session_def sql_err_def sql_ok_def split: if_splits)

lemma insert_session_keep: "db_keep d (snd (insert_session s d))"
proof -
  obtain r d' where run: "insert_session s d = (r, d')" by fastforce
  then show ?thesis
  proof (cases rule: insert_session_cases)
    case new
    have "sessions_ok (user_ids d) (sessions d @ [s])" if "db_ok d"
      using db_okD [OF that] new by (auto simp: sessions_ok_def)
    then show ?thesis using new(2) run by (auto intro!: db_keepI db_ok_table)
  qed (use run in \<open>simp add: integrity.R_refl\<close>)
qed

lemma session_statements_keep:
  "db_keep d (snd (session_revoke now sid d))"
  "db_keep d (snd (revoke_all_for_user_except now uid sid d))"
  "db_keep d (snd (revoke_all_for_user now uid d))"
  "db_keep d (snd (touch_last_seen now sid d))"
  "db_keep d (snd (session_set_label sid uid label d))"
  using db_okD(15) [of d]
  by (simp_all add: sql_defs Let_def db_keepI db_ok_table(8) sessions_ok_upd)

lemma session_statements_log:
  "events (snd (insert_session s d)) = events d"
  "events_seqno_seq (snd (insert_session s d)) = events_seqno_seq d"
  by (simp_all add: insert_session_def)

section \<open>Sessions as a token store\<close>

definition session_live :: "database \<Rightarrow> time \<Rightarrow> session \<Rightarrow> bool" where
  "session_live d now s = (s_revoked_at s = None \<and> now < s_expires_at s \<and> user_active d (s_user_id s))"

lemma hash_token_eq: "hash_token X token = token_sha256 X token"
  by (simp add: hash_token_def token_sha256_def)

interpretation session_store: token_store sessions s_token_hash session_live session_find_active
  by unfold_locales
    (simp_all add: session_find_active_def query_def session_live_def hash_token_eq db_ok_def sessions_ok_def)

lemma session_create_Inr:
  assumes "session_create X now uid ttl ua ip w = (Inr (s, token), w')"
  shows "token = generate_token X (w_tick w)"
    and "s = \<lparr>s_id = gen_uuid X (Suc (Suc (w_tick w))), s_user_id = uid, s_token_hash = hash_token X token,
        s_created_at = now, s_expires_at = expiry (utc_now X (Suc (w_tick w))) ttl, s_revoked_at = None,
        s_user_agent = ua, s_ip_address = ip, s_last_seen_at = None, s_label = None\<rparr>"
    and "insert_session s (w_db w) = (Inr s, w_db w')"
    and "w_db w' = (w_db w)\<lparr>sessions := sessions (w_db w) @ [s]\<rparr>"
    and "w_limiter w' = w_limiter w"
  using assms unfolding session_create_def
  by (auto elim!: andthen_eq_InrE exec_eq_InrE simp: insert_session_def sql_ok_def sql_err_def
      split: if_splits)

lemma session_create_no_fault:
  assumes "no_faults X" and "uid \<in> user_ids (w_db w)"
    and "gen_uuid X (Suc (Suc (w_tick w))) \<notin> s_id ` set (sessions (w_db w))"
    and "hash_token X (generate_token X (w_tick w)) \<notin> s_token_hash ` set (sessions (w_db w))"
  shows "\<exists>s w'. session_create X now uid ttl ua ip w = (Inr (s, generate_token X (w_tick w)), w')"
  using assms by (simp add: session_create_def andthen_def exec_no_fault insert_session_def sql_ok_def)

lemma user_active_iff: "user_active d uid \<longleftrightarrow> (\<exists>u \<in> set (users d). u_id u = uid \<and> u_lifecycle u = Active)"
  by (simp add: user_active_def list_ex_iff)

section \<open>Properties\<close>

text \<open>
  C8. The life of a session token: the token \<open>session_create\<close> returns has 64 characters and
  resolves to exactly the new session of that user from then until its expiry, as long as the
  account is active, and to nothing from the expiry on; once the session is revoked it
  resolves to nothing at any time.
\<close>

theorem session_token_life:
  assumes "db_ok (w_db w)" and "session_create X now uid ttl ua ip w = (Inr (s, token), w')"
  shows "length token = 64 \<and> s_user_id s = uid
    \<and> s_expires_at s = utc_now X (Suc (w_tick w)) div 1000 + ttl
    \<and> (\<forall>t. session_find_active X t token (w_db w') =
          (Inr (if t < s_expires_at s \<and> user_active (w_db w) uid then Some s else None), w_db w'))
    \<and> (\<forall>t t'. fst (session_find_active X t token (snd (session_revoke t' (s_id s) (w_db w')))) = Inr None)"
proof -
  note r = session_create_Inr [OF assms(2)]
  have ok: "db_ok (w_db w')"
    using insert_session_keep [of "w_db w" s] r(3) assms(1) by (simp add: db_keep_def)
  have h: "s_token_hash s = token_sha256 X token" by (simp add: r(2) hash_token_eq)
  have "session_find_active X t token (w_db w') =
          (Inr (if t < s_expires_at s \<and> user_active (w_db w) uid then Some s else None), w_db w')" for t
  proof (cases "session_live (w_db w') t s")
    case True
    then show ?thesis
      using session_store.find_complete [OF ok _ h True] r(2,4)
      by (simp add: session_live_def user_active_def)
  next
    case False
    then show ?thesis
      using session_store.find_dead [OF ok _ h False] r(2,4)
      by (simp add: session_live_def user_active_def)
  qed
  moreover have "fst (session_find_active X t token (snd (session_revoke t' (s_id s) (w_db w')))) = Inr None" for t t'
  proof -
    let ?s = "s\<lparr>s_revoked_at := coalesce (s_revoked_at s) (Some t')\<rparr>"
    have "db_ok (snd (session_revoke t' (s_id s) (w_db w')))"
      using session_statements_keep(1) ok by (auto simp: db_keep_def)
    moreover have "?s \<in> set (sessions (snd (session_revoke t' (s_id s) (w_db w'))))"
      by (simp add: session_revoke_def r(4))
    moreover have "s_token_hash ?s = token_sha256 X token" using h by simp
    moreover have "\<not> session_live d t ?s" for d by (simp add: session_live_def r(2))
    ultimately show ?thesis by (metis session_store.find_dead fst_conv)
  qed
  ultimately show ?thesis
    by (simp add: r(1,2) expiry_eq generate_token_def TOKEN_BYTES_def)
qed

definition demo_active_user :: user where
  "demo_active_user = \<lparr>u_id = 7, u_email = ''ada@b.c'', u_display_name = ''Ada'', u_lifecycle = Active,
     u_instance_role = Owner, u_kind = KindMember, u_locale = None, u_created_at = 0, u_updated_at = 0\<rparr>"

definition user_world :: world where
  "user_world = demo_world\<lparr>w_db := empty_db\<lparr>users := [demo_active_user]\<rparr>\<rparr>"

lemma user_world_ok: "db_ok (w_db user_world)"
  using empty_db_ok
  by (auto simp: user_world_def db_ok_def user_ids_def table_ok_defs machine_ids_def app_ids_def)

theorem session_token_life_witness:
  "\<exists>s token w'. session_create demo_ext 0 7 DEFAULT_SESSION_TTL None None user_world = (Inr (s, token), w')
     \<and> session_find_active demo_ext 5 token (w_db w') = (Inr (Some s), w_db w')"
proof -
  obtain s w' where run: "session_create demo_ext 0 7 DEFAULT_SESSION_TTL None None user_world =
      (Inr (s, generate_token demo_ext 0), w')"
    using session_create_no_fault [of demo_ext 7 user_world 0 DEFAULT_SESSION_TTL None None]
    by (auto simp: demo_ext_documented user_world_def user_ids_def demo_active_user_def)
  have "user_active (w_db user_world) 7"
    by (simp add: user_active_def user_world_def demo_active_user_def)
  with session_token_life [OF user_world_ok run] run show ?thesis
    by (auto simp: DEFAULT_SESSION_TTL_def user_world_def)
qed

text \<open>
  Signing out every other device: after \<open>revoke_all_for_user_except\<close>, at any
  later time a token resolves exactly when its session was live and is the kept one or another
  user's; the returned number is how many live sessions were cut off.
\<close>

theorem revoke_others_exact:
  assumes "db_ok d" and "s \<in> set (sessions d)" and "s_token_hash s = hash_token X token"
    and "revoke_all_for_user_except now uid keep d = (Inr n, d')" and "now \<le> t"
  shows "((\<exists>s'. fst (session_find_active X t token d') = Inr (Some s')) \<longleftrightarrow>
      session_live d t s \<and> (s_user_id s \<noteq> uid \<or> s_id s = keep))
    \<and> n = card {s \<in> set (sessions d). s_user_id s = uid \<and> s_id s \<noteq> keep \<and> session_active now s}"
proof -
  let ?p = "\<lambda>s. s_user_id s = uid \<and> s_id s \<noteq> keep \<and> s_revoked_at s = None \<and> now < s_expires_at s"
  let ?s = "if ?p s then s\<lparr>s_revoked_at := Some now\<rparr> else s"
  have d': "d' = d\<lparr>sessions := upd_where ?p (\<lambda>s. s\<lparr>s_revoked_at := Some now\<rparr>) (sessions d)\<rparr>"
    and n: "n = count_where ?p (sessions d)"
    using assms(4) by (auto simp: revoke_all_for_user_except_def sql_ok_def Let_def)
  have ok: "db_ok d'"
    using session_statements_keep(2) [of d now uid keep] assms(1,4) by (simp add: db_keep_def)
  have mem: "?s \<in> set (sessions d')" using assms(2) by (auto simp: d' upd_where_def)
  have h: "s_token_hash ?s = token_sha256 X token" using assms(3) by (simp add: hash_token_eq)
  have live: "session_live d' t ?s \<longleftrightarrow> session_live d t s \<and> (s_user_id s \<noteq> uid \<or> s_id s = keep)"
    using assms(5) by (auto simp: session_live_def user_active_def d')
  have "(\<exists>s'. fst (session_find_active X t token d') = Inr (Some s')) \<longleftrightarrow> session_live d' t ?s"
    using session_store.find_complete [OF ok mem h, of t] session_store.find_dead [OF ok mem h, of t]
    by (cases "session_live d' t ?s") simp_all
  moreover have "distinct (filter ?p (sessions d))"
    using assms(1) by (auto simp: db_ok_def sessions_ok_def distinct_map)
  then have "n = card {s \<in> set (sessions d). ?p s}"
    by (simp add: n count_where_def flip: distinct_card)
  ultimately show ?thesis using live by (simp add: session_active_def)
qed

definition two_sessions :: database where
  "two_sessions = empty_db\<lparr>users := [demo_active_user], sessions :=
     [\<lparr>s_id = 1, s_user_id = 7, s_token_hash = hash_token demo_ext ''a'', s_created_at = 0,
       s_expires_at = 100, s_revoked_at = None, s_user_agent = None, s_ip_address = None,
       s_last_seen_at = None, s_label = None\<rparr>,
      \<lparr>s_id = 2, s_user_id = 7, s_token_hash = hash_token demo_ext ''b'', s_created_at = 0,
       s_expires_at = 100, s_revoked_at = None, s_user_agent = None, s_ip_address = None,
       s_last_seen_at = None, s_label = None\<rparr>]\<rparr>"

lemma two_sessions_ok: "db_ok two_sessions"
proof -
  have "hash_token demo_ext ''a'' \<noteq> hash_token demo_ext ''b''" by code_simp
  then show ?thesis
    using empty_db_ok
    by (auto simp: two_sessions_def db_ok_def user_ids_def table_ok_defs machine_ids_def app_ids_def
        demo_active_user_def)
qed

theorem revoke_others_exact_witness:
  "\<exists>d'. revoke_all_for_user_except 10 7 2 two_sessions = (Inr 1, d')
     \<and> (\<exists>s'. fst (session_find_active demo_ext 20 ''b'' d') = Inr (Some s'))"
proof -
  let ?s = "sessions two_sessions ! 1"
  obtain d' where run: "revoke_all_for_user_except 10 7 2 two_sessions = (Inr 1, d')"
    by (simp add: revoke_all_for_user_except_def two_sessions_def sql_ok_def)
  have s: "?s \<in> set (sessions two_sessions)" "s_token_hash ?s = hash_token demo_ext ''b''"
    "session_live two_sessions 20 ?s" "s_id ?s = 2"
    by (simp_all add: two_sessions_def session_live_def user_active_def demo_active_user_def)
  show ?thesis
    using revoke_others_exact [OF two_sessions_ok s(1,2) run, of 20] s(3,4) run by simp
qed

end
