(* ===== verification/Session_Refinement.thy ===== *)
theory Session_Refinement
imports Auth_Sessions Identity_Users
begin

text \<open>
  What the session repository promises, as an abstract store: a finite map from token hashes to
  the open sessions, without revoked rows, labels or time stamps of use. The statements on the
  tables \<open>auth.sessions\<close> and \<open>identity.users\<close> are shown to implement it, answers included.
\<close>

section \<open>The abstract store\<close>

datatype entry = Entry (en_session: uuid) (en_user: uuid) (en_expires: time)

record session_spec =
  sp_open :: "bytes \<Rightarrow> entry option"
  sp_ids :: "uuid set"
  sp_hashes :: "bytes set"
  sp_accounts :: "uuid set"
  sp_active :: "uuid set"

datatype session_op =
  OpenSession uuid uuid bytes time time "string option" "string option"
  | Resolve time string
  | Revoke time uuid
  | RevokeOthers time uuid uuid
  | RevokeUser time uuid
  | CountActive time
  | Touch time uuid
  | SetLabel uuid uuid "string option"
  | Deactivate time uuid
  | Reactivate time uuid

datatype session_answer = Refused sql_error | Resolved "(uuid \<times> uuid) option" | Counted nat | Acknowledged

definition drop_where :: "(entry \<Rightarrow> bool) \<Rightarrow> (bytes \<Rightarrow> entry option) \<Rightarrow> bytes \<Rightarrow> entry option" where
  "drop_where P m h = (case m h of None \<Rightarrow> None | Some e \<Rightarrow> if P e then None else Some e)"

definition hits :: "(entry \<Rightarrow> bool) \<Rightarrow> (bytes \<Rightarrow> entry option) \<Rightarrow> nat" where
  "hits P m = card {h. \<exists>e. m h = Some e \<and> P e}"

definition revoke_entries :: "(entry \<Rightarrow> bool) \<Rightarrow> session_spec \<Rightarrow> session_answer \<times> session_spec" where
  "revoke_entries P a = (Counted (hits P (sp_open a)), a\<lparr>sp_open := drop_where P (sp_open a)\<rparr>)"

fun spec_run :: "ext \<Rightarrow> session_op \<Rightarrow> session_spec \<Rightarrow> session_answer \<times> session_spec" where
  "spec_run X (OpenSession sid uid h now expires ua ip) a =
     (if sid \<in> sp_ids a \<or> h \<in> sp_hashes a then (Refused UniqueViolation, a)
      else if uid \<notin> sp_accounts a then (Refused ForeignKeyViolation, a)
      else (Acknowledged, a\<lparr>sp_open := (sp_open a)(h := Some (Entry sid uid expires)),
              sp_ids := insert sid (sp_ids a), sp_hashes := insert h (sp_hashes a)\<rparr>))"
| "spec_run X (Resolve now token) a =
     (Resolved (case sp_open a (sha256 X (as_bytes token)) of None \<Rightarrow> None
        | Some (Entry sid uid expires) \<Rightarrow> if now < expires \<and> uid \<in> sp_active a then Some (sid, uid) else None), a)"
| "spec_run X (Revoke now sid) a = (Acknowledged, a\<lparr>sp_open := drop_where (\<lambda>e. en_session e = sid) (sp_open a)\<rparr>)"
| "spec_run X (RevokeOthers now uid keep) a = revoke_entries (\<lambda>e. en_user e = uid \<and> en_session e \<noteq> keep \<and> now < en_expires e) a"
| "spec_run X (RevokeUser now uid) a = revoke_entries (\<lambda>e. en_user e = uid \<and> now < en_expires e) a"
| "spec_run X (CountActive now) a = (Counted (hits (\<lambda>e. now < en_expires e) (sp_open a)), a)"
| "spec_run X (Touch now sid) a = (Acknowledged, a)"
| "spec_run X (SetLabel sid uid label) a = (Acknowledged, a)"
| "spec_run X (Deactivate now uid) a =
     (if uid \<in> sp_accounts a then (Acknowledged, a\<lparr>sp_active := sp_active a - {uid}\<rparr>) else (Refused RowNotFound, a))"
| "spec_run X (Reactivate now uid) a =
     (if uid \<in> sp_accounts a then (Acknowledged, a\<lparr>sp_active := insert uid (sp_active a)\<rparr>) else (Refused RowNotFound, a))"

section \<open>The statements behind it\<close>

definition answer :: "('a \<Rightarrow> session_answer) \<Rightarrow> 'a stmt \<Rightarrow> database \<Rightarrow> session_answer \<times> database" where
  "answer f st d = (case st d of (Inl e, d') \<Rightarrow> (Refused e, d') | (Inr a, d') \<Rightarrow> (f a, d'))"

fun session_run :: "ext \<Rightarrow> session_op \<Rightarrow> database \<Rightarrow> session_answer \<times> database" where
  "session_run X (OpenSession sid uid h now expires ua ip) = answer (\<lambda>_. Acknowledged) (insert_session
     \<lparr>s_id = sid, s_user_id = uid, s_token_hash = h, s_created_at = now, s_expires_at = expires,
      s_revoked_at = None, s_user_agent = ua, s_ip_address = ip, s_last_seen_at = None, s_label = None\<rparr>)"
| "session_run X (Resolve now token) =
     answer (\<lambda>s. Resolved (map_option (\<lambda>s. (s_id s, s_user_id s)) s)) (session_find_active X now token)"
| "session_run X (Revoke now sid) = answer (\<lambda>_. Acknowledged) (session_revoke now sid)"
| "session_run X (RevokeOthers now uid keep) = answer Counted (revoke_all_for_user_except now uid keep)"
| "session_run X (RevokeUser now uid) = answer Counted (revoke_all_for_user now uid)"
| "session_run X (CountActive now) = answer (\<lambda>n. Counted (nat n)) (session_count_active now)"
| "session_run X (Touch now sid) = answer (\<lambda>_. Acknowledged) (touch_last_seen now sid)"
| "session_run X (SetLabel sid uid label) = answer (\<lambda>_. Acknowledged) (session_set_label sid uid label)"
| "session_run X (Deactivate now uid) = answer (\<lambda>_. Acknowledged) (deactivate now uid)"
| "session_run X (Reactivate now uid) = answer (\<lambda>_. Acknowledged) (reactivate now uid)"

text \<open>What a client sees of a sequence of calls.\<close>

fun runs :: "('op \<Rightarrow> 's \<Rightarrow> 'r \<times> 's) \<Rightarrow> 'op list \<Rightarrow> 's \<Rightarrow> 'r list \<times> 's" where
  "runs step [] s = ([], s)"
| "runs step (c # cs) s = (let (r, s') = step c s; (rs, s'') = runs step cs s' in (r # rs, s''))"

section \<open>Abstraction\<close>

definition entry_of :: "session \<Rightarrow> entry" where
  "entry_of s = Entry (s_id s) (s_user_id s) (s_expires_at s)"

definition open_map :: "session list \<Rightarrow> bytes \<Rightarrow> entry option" where
  "open_map rs h = map_option entry_of (find (\<lambda>s. s_token_hash s = h \<and> s_revoked_at s = None) rs)"

definition abs_sessions :: "database \<Rightarrow> session_spec" where
  "abs_sessions d = \<lparr>sp_open = open_map (sessions d), sp_ids = s_id ` set (sessions d),
     sp_hashes = s_token_hash ` set (sessions d), sp_accounts = user_ids d, sp_active = {uid. user_active d uid}\<rparr>"

lemma open_map_iff:
  assumes "keyed s_token_hash rs"
  shows "open_map rs h = Some e \<longleftrightarrow>
    (\<exists>s \<in> set rs. s_token_hash s = h \<and> s_revoked_at s = None \<and> entry_of s = e)"
proof
  assume "open_map rs h = Some e"
  then show "\<exists>s \<in> set rs. s_token_hash s = h \<and> s_revoked_at s = None \<and> entry_of s = e"
    by (auto simp: open_map_def find_Some_iff)
next
  assume "\<exists>s \<in> set rs. s_token_hash s = h \<and> s_revoked_at s = None \<and> entry_of s = e"
  then obtain s where s: "s \<in> set rs" "s_token_hash s = h" "s_revoked_at s = None" "entry_of s = e" by blast
  then have "find (\<lambda>s. s_token_hash s = h \<and> s_revoked_at s = None) rs \<noteq> None" by (auto simp: find_None_iff)
  then obtain q where q: "find (\<lambda>s. s_token_hash s = h \<and> s_revoked_at s = None) rs = Some q" by blast
  then have "q \<in> set rs" "s_token_hash q = h" by (auto simp: find_Some_iff)
  with s assms have "q = s" by (metis keyed_eqD)
  with q s(4) show "open_map rs h = Some e" by (simp add: open_map_def)
qed

lemma option_eqI: "(\<And>e. x = Some e \<longleftrightarrow> y = Some e) \<Longrightarrow> x = y"
  by (cases x; cases y) auto

lemma open_map_append:
  assumes "keyed s_token_hash (rs @ [s])" and "s_revoked_at s = None"
  shows "open_map (rs @ [s]) = (open_map rs)(s_token_hash s := Some (entry_of s))"
proof (intro ext option_eqI)
  fix h e
  show "open_map (rs @ [s]) h = Some e \<longleftrightarrow> ((open_map rs)(s_token_hash s := Some (entry_of s))) h = Some e"
    using assms open_map_iff [of rs h e] open_map_iff [of "rs @ [s]" h e] by (auto simp: image_iff)
qed

lemma drop_where_iff: "drop_where P m h = Some e \<longleftrightarrow> m h = Some e \<and> \<not> P e"
  by (auto simp: drop_where_def split: option.splits)

lemma image_upd_where:
  assumes "\<And>r. g (f r) = g r"
  shows "g ` set (upd_where p f rs) = g ` set rs"
  using map_upd_where [of g f p rs] assms by (metis list.set_map)

text \<open>An update that revokes exactly the open sessions of some entries.\<close>

lemma open_map_revoke:
  assumes "keyed s_token_hash rs" and "\<And>s. s_token_hash (f s) = s_token_hash s"
    and "\<And>s. s \<in> set rs \<Longrightarrow> s_revoked_at (f s) \<noteq> None"
    and "\<And>s. s \<in> set rs \<Longrightarrow> s_revoked_at s = None \<Longrightarrow> p s \<longleftrightarrow> P (entry_of s)"
  shows "open_map (upd_where p f rs) = drop_where P (open_map rs)"
proof (intro ext option_eqI)
  fix h e
  have "keyed s_token_hash (upd_where p f rs)" using assms(1,2) by simp
  then have "open_map (upd_where p f rs) h = Some e \<longleftrightarrow>
      (\<exists>s \<in> set rs. s_token_hash s = h \<and> s_revoked_at s = None \<and> entry_of s = e \<and> \<not> P e)"
    using assms(3,4) by (fastforce simp: open_map_iff set_upd_where)
  also have "\<dots> \<longleftrightarrow> drop_where P (open_map rs) h = Some e"
    by (auto simp: drop_where_iff open_map_iff [OF assms(1)])
  finally show "open_map (upd_where p f rs) h = Some e \<longleftrightarrow> drop_where P (open_map rs) h = Some e" .
qed

text \<open>An update that the abstraction does not see.\<close>

lemma open_map_same:
  assumes "\<And>s. s_token_hash (f s) = s_token_hash s" "\<And>s. s_revoked_at (f s) = s_revoked_at s"
    "\<And>s. entry_of (f s) = entry_of s"
  shows "open_map (upd_where p f rs) = open_map rs"
proof
  fix h
  let ?g = "\<lambda>s. if p s then f s else s"
  have "find Q (map ?g rs) = map_option ?g (find Q rs)" if "\<And>s. Q (?g s) = Q s" for Q
    using that by (induction rs) auto
  then show "open_map (upd_where p f rs) h = open_map rs h"
    using assms by (simp add: open_map_def upd_where_def option.map_comp comp_def if_distrib cong: if_cong)
qed

lemma hits_open_map:
  assumes "keyed s_token_hash rs"
    and "\<And>s. s \<in> set rs \<Longrightarrow> p s \<longleftrightarrow> s_revoked_at s = None \<and> P (entry_of s)"
  shows "hits P (open_map rs) = count_where p rs"
proof -
  have "{h. \<exists>e. open_map rs h = Some e \<and> P e} = s_token_hash ` set (filter p rs)"
    using assms by (auto simp: open_map_iff)
  also have "card \<dots> = length (filter p rs)"
    using assms(1) keyed_filter [OF assms(1), of p] by (metis distinct_card length_map list.set_map)
  finally show ?thesis by (simp add: hits_def count_where_def)
qed

section \<open>Every statement implements its abstract operation\<close>

lemmas answer_defs = answer_def sql_ok_def sql_err_def query_def Let_def

text \<open>A revoking statement keeps users, identifiers and hashes.\<close>

lemma abs_revoked:
  assumes "db_ok d" and "\<And>s. s_id (f s) = s_id s" "\<And>s. s_token_hash (f s) = s_token_hash s"
    and "\<And>s. s \<in> set (sessions d) \<Longrightarrow> s_revoked_at (f s) \<noteq> None"
    and "\<And>s. s \<in> set (sessions d) \<Longrightarrow> s_revoked_at s = None \<Longrightarrow> p s \<longleftrightarrow> P (entry_of s)"
  shows "abs_sessions (d\<lparr>sessions := upd_where p f (sessions d)\<rparr>)
    = (abs_sessions d)\<lparr>sp_open := drop_where P (open_map (sessions d))\<rparr>"
proof -
  have "keyed s_token_hash (sessions d)" using assms(1) by (simp add: db_ok_def sessions_ok_def)
  then show ?thesis
    using assms open_map_revoke [of "sessions d" f p P]
    by (simp add: abs_sessions_def image_upd_where user_ids_def user_active_def)
qed

lemma revoke_refines:
  assumes "db_ok d"
  shows "spec_run X (Revoke now sid) (abs_sessions d)
    = (Acknowledged, abs_sessions (snd (session_run X (Revoke now sid) d)))"
  using abs_revoked [OF assms, of "\<lambda>s. s\<lparr>s_revoked_at := coalesce (s_revoked_at s) (Some now)\<rparr>" "\<lambda>s. s_id s = sid"
    "\<lambda>e. en_session e = sid"]
  by (simp add: answer_defs session_revoke_def entry_of_def coalesce_def abs_sessions_def split: option.splits)

lemma revoke_entries_refines:
  assumes "db_ok d" and "\<And>s. p s \<longleftrightarrow> s_revoked_at s = None \<and> P (entry_of s)"
  shows "revoke_entries P (abs_sessions d) = (Counted (count_where p (sessions d)),
    abs_sessions (d\<lparr>sessions := upd_where p (\<lambda>s. s\<lparr>s_revoked_at := Some now\<rparr>) (sessions d)\<rparr>))"
proof -
  have "keyed s_token_hash (sessions d)" using assms(1) by (simp add: db_ok_def sessions_ok_def)
  then have "hits P (open_map (sessions d)) = count_where p (sessions d)" by (rule hits_open_map) (rule assms(2))
  moreover have "abs_sessions (d\<lparr>sessions := upd_where p (\<lambda>s. s\<lparr>s_revoked_at := Some now\<rparr>) (sessions d)\<rparr>)
      = (abs_sessions d)\<lparr>sp_open := drop_where P (open_map (sessions d))\<rparr>"
    by (rule abs_revoked) (use assms in simp_all)
  ultimately show ?thesis by (simp add: revoke_entries_def abs_sessions_def)
qed

lemma resolve_refines:
  assumes "db_ok d"
  shows "(case open_map (sessions d) (sha256 X (as_bytes token)) of None \<Rightarrow> None
      | Some (Entry sid uid expires) \<Rightarrow> if now < expires \<and> user_active d uid then Some (sid, uid) else None)
    = map_option (\<lambda>s. (s_id s, s_user_id s)) (fetch_optional (filter
        (\<lambda>s. s_token_hash s = hash_token X token \<and> s_revoked_at s = None \<and> now < s_expires_at s
           \<and> user_active d (s_user_id s)) (sessions d)))"
    (is "?spec = map_option _ (fetch_optional (filter ?p _))")
proof (rule option_eqI)
  fix e
  have k: "keyed s_token_hash (sessions d)" using assms by (simp add: db_ok_def sessions_ok_def)
  have "?spec = Some e \<longleftrightarrow> (\<exists>en. open_map (sessions d) (sha256 X (as_bytes token)) = Some en
      \<and> now < en_expires en \<and> user_active d (en_user en) \<and> (en_session en, en_user en) = e)"
    by (auto split: option.splits entry.splits)
  also have "\<dots> \<longleftrightarrow> (\<exists>s \<in> set (sessions d). ?p s \<and> (s_id s, s_user_id s) = e)"
    unfolding open_map_iff [OF k] by (auto simp: hash_token_def entry_of_def)
  also have "\<dots> \<longleftrightarrow> map_option (\<lambda>s. (s_id s, s_user_id s)) (fetch_optional (filter ?p (sessions d))) = Some e"
    using fetch_keyed [OF k, of _ ?p] by (auto dest: fetch_filter_SomeD)
  finally show "?spec = Some e \<longleftrightarrow> map_option (\<lambda>s. (s_id s, s_user_id s)) (fetch_optional (filter ?p (sessions d))) = Some e" .
qed

lemma seen_only:
  assumes "\<And>s. s_id (f s) = s_id s" "\<And>s. s_token_hash (f s) = s_token_hash s" "\<And>s. s_revoked_at (f s) = s_revoked_at s"
    "\<And>s. entry_of (f s) = entry_of s"
  shows "abs_sessions (d\<lparr>sessions := upd_where p f (sessions d)\<rparr>) = abs_sessions d"
  using assms by (simp add: abs_sessions_def open_map_same image_upd_where user_ids_def user_active_def)

lemma update_user_active:
  assumes "db_ok d" and "\<And>u. email_lower (f u) = email_lower u" "\<And>u. u_id (f u) = u_id u" "\<And>u. u_lifecycle (f u) = l"
  shows "(case update_user uid f d of (Inl e, d') \<Rightarrow> (Refused e, abs_sessions d') | (Inr _, d') \<Rightarrow> (Acknowledged, abs_sessions d'))
    = (if uid \<in> user_ids d then (Acknowledged, (abs_sessions d)\<lparr>sp_active :=
         (if l = Active then insert uid (sp_active (abs_sessions d)) else sp_active (abs_sessions d) - {uid})\<rparr>)
       else (Refused RowNotFound, abs_sessions d))"
proof (cases "uid \<in> user_ids d")
  case False
  then have "filter (\<lambda>u. u_id u = uid) (users d) = []" by (auto simp: user_ids_def filter_empty_conv)
  then show ?thesis using False by (simp add: update_user_def sql_err_def)
next
  case True
  then obtain u where u: "u \<in> set (users d)" "u_id u = uid" by (auto simp: user_ids_def)
  have k: "keyed u_id (users d)" "keyed email_lower (users d)" using assms(1) by (simp_all add: db_ok_def)
  have "fetch_optional (filter (\<lambda>u. u_id u = uid) (users d)) = Some u"
    using u by (intro fetch_keyed [OF k(1)]) auto
  moreover have "\<not> (\<exists>v \<in> set (users d). u_id v \<noteq> uid \<and> email_lower v = email_lower (f u))"
    using assms(2) u keyed_eqD [OF k(2)] by metis
  moreover have "user_ids (d\<lparr>users := upd_where (\<lambda>u. u_id u = uid) f (users d)\<rparr>) = user_ids d"
    using assms(3) by (simp add: user_ids_def image_upd_where)
  moreover have "user_active (d\<lparr>users := upd_where (\<lambda>u. u_id u = uid) f (users d)\<rparr>) v
      \<longleftrightarrow> (if v = uid then l = Active else user_active d v)" for v
    using assms(3,4) u unfolding user_active_iff by (auto simp: upd_where_def)
  ultimately show ?thesis
    using True by (auto simp: update_user_def sql_ok_def abs_sessions_def split: if_splits)
qed

lemma lifecycle_refines:
  assumes "db_ok d"
  shows "spec_run X (Deactivate now uid) (abs_sessions d) =
      (let (a, d') = session_run X (Deactivate now uid) d in (a, abs_sessions d'))"
    and "spec_run X (Reactivate now uid) (abs_sessions d) =
      (let (a, d') = session_run X (Reactivate now uid) d in (a, abs_sessions d'))"
proof -
  have acc: "sp_accounts (abs_sessions d) = user_ids d" by (simp add: abs_sessions_def)
  have split: "(let (a, d') = answer (\<lambda>_. Acknowledged) (update_user uid f) d in (a, abs_sessions d'))
      = (case update_user uid f d of (Inl e, d') \<Rightarrow> (Refused e, abs_sessions d') | (Inr _, d') \<Rightarrow> (Acknowledged, abs_sessions d'))"
    for f by (simp add: answer_def split: prod.splits sum.splits)
  show "spec_run X (Deactivate now uid) (abs_sessions d) =
      (let (a, d') = session_run X (Deactivate now uid) d in (a, abs_sessions d'))"
    unfolding session_run.simps deactivate_def split
    by (subst update_user_active [OF assms, where l = Deactivated]) (simp_all add: email_lower_def acc)
  show "spec_run X (Reactivate now uid) (abs_sessions d) =
      (let (a, d') = session_run X (Reactivate now uid) d in (a, abs_sessions d'))"
    unfolding session_run.simps reactivate_def split
    by (subst update_user_active [OF assms, where l = Active]) (simp_all add: email_lower_def acc)
qed

lemma open_session_refines:
  assumes "db_ok d" and "s_revoked_at s = None" and "insert_session s d = (Inr s', d')"
  shows "abs_sessions d' = (abs_sessions d)\<lparr>sp_open := (open_map (sessions d))(s_token_hash s := Some (entry_of s)),
    sp_ids := insert (s_id s) (s_id ` set (sessions d)), sp_hashes := insert (s_token_hash s) (s_token_hash ` set (sessions d))\<rparr>"
  using assms(3)
proof (cases rule: insert_session_cases)
  case new
  then have "keyed s_token_hash (sessions d @ [s])"
    using assms(1) by (simp add: db_ok_def sessions_ok_def)
  then show ?thesis
    using new(2) by (simp add: abs_sessions_def open_map_append assms(2) user_ids_def user_active_def)
qed simp

lemma session_step_refines:
  assumes "db_ok d"
  shows "spec_run X op (abs_sessions d) = (let (a, d') = session_run X op d in (a, abs_sessions d'))"
proof (cases op)
  case (OpenSession sid uid h now expires ua ip)
  let ?s = "\<lparr>s_id = sid, s_user_id = uid, s_token_hash = h, s_created_at = now, s_expires_at = expires,
      s_revoked_at = None, s_user_agent = ua, s_ip_address = ip, s_last_seen_at = None, s_label = None\<rparr>"
  have "abs_sessions (d\<lparr>sessions := sessions d @ [?s]\<rparr>) = (abs_sessions d)\<lparr>sp_open := (open_map (sessions d))(h := Some (entry_of ?s)),
      sp_ids := insert sid (s_id ` set (sessions d)), sp_hashes := insert h (s_token_hash ` set (sessions d))\<rparr>"
    if "sid \<notin> s_id ` set (sessions d)" "h \<notin> s_token_hash ` set (sessions d)" "uid \<in> user_ids d"
    using open_session_refines [OF assms, of ?s ?s] that by (simp add: insert_session_def sql_ok_def)
  then show ?thesis
    using OpenSession by (auto simp: answer_defs insert_session_def abs_sessions_def entry_of_def)
next
  case (Resolve now token)
  have "spec_run X op (abs_sessions d) = (Resolved (case open_map (sessions d) (sha256 X (as_bytes token)) of None \<Rightarrow> None
      | Some (Entry sid uid expires) \<Rightarrow> if now < expires \<and> user_active d uid then Some (sid, uid) else None), abs_sessions d)"
    unfolding Resolve spec_run.simps by (simp add: abs_sessions_def split: option.splits entry.splits)
  then show ?thesis
    using resolve_refines [OF assms, where X = X and token = token and now = now] Resolve
    by (simp add: answer_defs session_find_active_def)
next
  case (Revoke now sid)
  then show ?thesis using revoke_refines [OF assms] by (simp add: answer_defs session_revoke_def)
next
  case (RevokeOthers now uid keep)
  show ?thesis
    unfolding RevokeOthers spec_run.simps session_run.simps revoke_all_for_user_except_def answer_defs
    by (subst revoke_entries_refines [OF assms, where now = now]) (auto simp: entry_of_def)
next
  case (RevokeUser now uid)
  show ?thesis
    unfolding RevokeUser spec_run.simps session_run.simps revoke_all_for_user_def answer_defs
    by (subst revoke_entries_refines [OF assms, where now = now]) (auto simp: entry_of_def)
next
  case (CountActive now)
  have "keyed s_token_hash (sessions d)" using assms by (simp add: db_ok_def sessions_ok_def)
  then have "hits (\<lambda>e. now < en_expires e) (open_map (sessions d))
      = count_where (\<lambda>s. s_revoked_at s = None \<and> now < s_expires_at s) (sessions d)"
    by (rule hits_open_map) (simp add: entry_of_def)
  then show ?thesis
    using CountActive by (simp add: answer_defs session_count_active_def) (simp add: abs_sessions_def)
next
  case (Touch now sid)
  then show ?thesis by (simp add: answer_defs touch_last_seen_def seen_only entry_of_def)
next
  case (SetLabel sid uid label)
  then show ?thesis by (simp add: answer_defs session_set_label_def seen_only entry_of_def)
qed (use lifecycle_refines [OF assms] in simp_all)

lemma answer_ok:
  assumes "db_keep d (snd (st d))" and "db_ok d"
  shows "db_ok (snd (answer f st d))"
  using assms by (cases "st d") (simp add: answer_def db_keep_def split: sum.splits)

lemma session_run_ok:
  assumes "db_ok d" and "session_run X op d = (a, d')"
  shows "db_ok d'"
proof -
  have "db_ok (snd (session_run X op d))"
    by (cases op) (auto intro!: answer_ok [OF _ assms(1)] insert_session_keep session_statements_keep
        user_statements_keep simp: session_find_active_def session_count_active_def query_def integrity.R_refl)
  with assms(2) show ?thesis by simp
qed



end
