(* ===== verification/Resources.thy ===== *)
theory Resources
imports Integrity
begin

text \<open>
  \<open>platform::resources\<close>: owner-scoped storage of opaque content, the change feed, and the
  Owner's cross-owner administration. Every write draws the next number of
  \<open>platform.resource_change_seq\<close>, an insert even when it then violates a constraint.
\<close>

section \<open>Owner-scoped statements\<close>

record new_resource =
  nr_app_id :: uuid
  nr_resource_type :: string
  nr_app_resource_id :: uuid
  nr_parent_resource_id :: "uuid option"
  nr_owner_user_id :: uuid
  nr_content_blob :: bytes
  nr_content_signature :: bytes
  nr_schema_version :: int

definition app_key :: "resource \<Rightarrow> uuid \<times> string \<times> uuid" where
  "app_key r = (r_app_id r, r_resource_type r, r_app_resource_id r)"

definition resource_create :: "uuid \<Rightarrow> time \<Rightarrow> new_resource \<Rightarrow> resource stmt" where
  "resource_create new_id now new d =
     (let k = resource_change_seq d + 1; d1 = d\<lparr>resource_change_seq := k\<rparr>;
          r = \<lparr>r_id = new_id, r_app_id = nr_app_id new, r_resource_type = nr_resource_type new,
               r_app_resource_id = nr_app_resource_id new,
               r_parent_resource_id = nr_parent_resource_id new,
               r_owner_user_id = nr_owner_user_id new, r_created_at = now, r_updated_at = now,
               r_deleted_at = None, r_content_blob = nr_content_blob new,
               r_content_signature = nr_content_signature new,
               r_last_modified_by = nr_owner_user_id new,
               r_schema_version = nr_schema_version new, r_change_seq = k\<rparr>
      in if new_id \<in> r_id ` set (resources d) \<or> app_key r \<in> app_key ` set (resources d)
         then sql_err UniqueViolation d1
         else if nr_app_id new \<notin> app_ids d \<or> nr_owner_user_id new \<notin> user_ids d
         then sql_err ForeignKeyViolation d1
         else sql_ok r (d1\<lparr>resources := resources d @ [r]\<rparr>))"

definition owned_live :: "uuid \<Rightarrow> uuid \<Rightarrow> resource \<Rightarrow> bool" where
  "owned_live res_id owner r = (r_id r = res_id \<and> r_owner_user_id r = owner \<and> r_deleted_at r = None)"

definition get_owned :: "uuid \<Rightarrow> uuid \<Rightarrow> resource option stmt" where
  "get_owned res_id owner = query (\<lambda>d. fetch_optional (filter (owned_live res_id owner) (resources d)))"

text \<open>
  An \<open>UPDATE ... RETURNING\<close> by primary key whose new row takes the next change number; a
  statement that matches no row draws none.
\<close>

definition update_live :: "uuid \<Rightarrow> uuid \<Rightarrow> (int \<Rightarrow> resource \<Rightarrow> resource) \<Rightarrow> resource option stmt" where
  "update_live res_id owner f d =
     (case fetch_optional (filter (owned_live res_id owner) (resources d)) of
        None \<Rightarrow> sql_ok None d
      | Some r \<Rightarrow>
          (let k = resource_change_seq d + 1
           in sql_ok (Some (f k r)) (d\<lparr>resource_change_seq := k,
                resources := upd_where (owned_live res_id owner) (f k) (resources d)\<rparr>)))"

definition update_owned ::
  "time \<Rightarrow> uuid \<Rightarrow> uuid \<Rightarrow> bytes \<Rightarrow> bytes \<Rightarrow> int \<Rightarrow> uuid option \<Rightarrow> resource option stmt" where
  "update_owned now res_id owner content_blob content_signature schema_version parent_resource_id =
     update_live res_id owner (\<lambda>k r. r\<lparr>r_content_blob := content_blob,
       r_content_signature := content_signature, r_schema_version := schema_version,
       r_parent_resource_id := parent_resource_id, r_last_modified_by := owner,
       r_updated_at := now, r_change_seq := k\<rparr>)"

definition soft_delete_owned :: "time \<Rightarrow> uuid \<Rightarrow> uuid \<Rightarrow> bool stmt" where
  "soft_delete_owned now res_id owner d =
     (case update_live res_id owner (\<lambda>k r. r\<lparr>r_deleted_at := Some now, r_updated_at := now,
         r_change_seq := k\<rparr>) d of
        (Inl e, d') \<Rightarrow> (Inl e, d') | (Inr x, d') \<Rightarrow> (Inr (x \<noteq> None), d'))"

definition listed :: "uuid \<Rightarrow> string \<Rightarrow> uuid \<Rightarrow> bool \<Rightarrow> resource \<Rightarrow> bool" where
  "listed app_id resource_type owner include_deleted r =
     (r_app_id r = app_id \<and> r_resource_type r = resource_type \<and> r_owner_user_id r = owner
      \<and> (include_deleted \<or> r_deleted_at r = None))"

text \<open>Page and total are two statements; PostgreSQL refuses a negative \<open>LIMIT\<close> or \<open>OFFSET\<close>.\<close>

definition list_owned ::
  "ext \<Rightarrow> uuid \<Rightarrow> string \<Rightarrow> uuid \<Rightarrow> int \<Rightarrow> int \<Rightarrow> bool \<Rightarrow> (sql_error, resource list \<times> int) action" where
  "list_owned X app_id resource_type owner limit offset include_deleted =
     andthen (exec X (\<lambda>_ d.
       if limit < 0 \<or> offset < 0 then sql_err DataError d
       else query (\<lambda>d. take (nat limit) (drop (nat offset) (order_desc r_updated_at
              (filter (listed app_id resource_type owner include_deleted) (resources d))))) d)) (\<lambda>rows.
     andthen (exec X (\<lambda>_. query (\<lambda>d. int (count_where
       (listed app_id resource_type owner include_deleted) (resources d))))) (\<lambda>total.
     ret (rows, total)))"

definition in_feed :: "uuid \<Rightarrow> string option \<Rightarrow> uuid \<Rightarrow> resource \<Rightarrow> bool" where
  "in_feed app_id resource_type owner r =
     (r_owner_user_id r = owner \<and> r_app_id r = app_id
      \<and> (case resource_type of None \<Rightarrow> True | Some t \<Rightarrow> r_resource_type r = t))"

definition list_changes :: "uuid \<Rightarrow> string option \<Rightarrow> uuid \<Rightarrow> int \<Rightarrow> int \<Rightarrow> resource list stmt" where
  "list_changes app_id resource_type owner since_cursor limit d =
     (if limit < 0 then sql_err DataError d
      else query (\<lambda>d. take (nat limit) (order_asc r_change_seq
        (filter (\<lambda>r. in_feed app_id resource_type owner r \<and> since_cursor < r_change_seq r)
          (resources d)))) d)"

section \<open>Administration by the Owner\<close>

record admin_resource =
  ar_id :: uuid
  ar_resource_type :: string
  ar_app_resource_id :: uuid
  ar_parent_resource_id :: "uuid option"
  ar_owner_user_id :: uuid
  ar_owner_display_name :: "string option"
  ar_created_at :: time
  ar_updated_at :: time
  ar_deleted_at :: "time option"
  ar_content_len :: int
  ar_signature_len :: int
  ar_schema_version :: int

record deleted_resource =
  dr_id :: uuid
  dr_app_id :: uuid
  dr_resource_type :: string
  dr_app_resource_id :: uuid
  dr_owner_user_id :: uuid

text \<open>The columns \<open>ADMIN_COLS\<close>, with the left join to the owner.\<close>

definition admin_row :: "database \<Rightarrow> resource \<Rightarrow> admin_resource" where
  "admin_row d r =
     \<lparr>ar_id = r_id r, ar_resource_type = r_resource_type r, ar_app_resource_id = r_app_resource_id r,
      ar_parent_resource_id = r_parent_resource_id r, ar_owner_user_id = r_owner_user_id r,
      ar_owner_display_name = map_option u_display_name
        (fetch_optional (filter (\<lambda>u. u_id u = r_owner_user_id r) (users d))),
      ar_created_at = r_created_at r, ar_updated_at = r_updated_at r, ar_deleted_at = r_deleted_at r,
      ar_content_len = int (length (r_content_blob r)),
      ar_signature_len = int (length (r_content_signature r)),
      ar_schema_version = r_schema_version r\<rparr>"

definition admin_matches :: "uuid \<Rightarrow> string option \<Rightarrow> uuid option \<Rightarrow> bool \<Rightarrow> resource \<Rightarrow> bool" where
  "admin_matches app_id resource_type guid include_deleted r =
     (r_app_id r = app_id \<and> (include_deleted \<or> r_deleted_at r = None)
      \<and> (case resource_type of None \<Rightarrow> True | Some t \<Rightarrow> r_resource_type r = t)
      \<and> (case guid of None \<Rightarrow> True | Some g \<Rightarrow> r_id r = g \<or> r_app_resource_id r = g))"

definition admin_list ::
  "ext \<Rightarrow> uuid \<Rightarrow> string option \<Rightarrow> uuid option \<Rightarrow> bool \<Rightarrow> int \<Rightarrow> (sql_error, admin_resource list \<times> int) action" where
  "admin_list X app_id resource_type guid include_deleted limit =
     andthen (exec X (\<lambda>_ d.
       if limit < 0 then sql_err DataError d
       else query (\<lambda>d. take (nat limit) (map (admin_row d) (order_desc r_updated_at
              (filter (admin_matches app_id resource_type guid include_deleted) (resources d))))) d)) (\<lambda>rows.
     andthen (exec X (\<lambda>_. query (\<lambda>d. int (count_where
       (admin_matches app_id resource_type guid include_deleted) (resources d))))) (\<lambda>total.
     ret (rows, total)))"

definition admin_get :: "uuid \<Rightarrow> uuid \<Rightarrow> admin_resource option stmt" where
  "admin_get app_id res_id = query (\<lambda>d. map_option (admin_row d)
     (fetch_optional (filter (\<lambda>r. r_id r = res_id \<and> r_app_id r = app_id) (resources d))))"

definition admin_hard_delete :: "uuid \<Rightarrow> uuid \<Rightarrow> deleted_resource option stmt" where
  "admin_hard_delete app_id res_id d =
     (let p = (\<lambda>r. r_id r = res_id \<and> r_app_id r = app_id) in
      sql_ok (map_option (\<lambda>r. \<lparr>dr_id = r_id r, dr_app_id = r_app_id r,
          dr_resource_type = r_resource_type r, dr_app_resource_id = r_app_resource_id r,
          dr_owner_user_id = r_owner_user_id r\<rparr>) (fetch_optional (filter p (resources d))))
        (d\<lparr>resources := filter (\<lambda>r. \<not> p r) (resources d)\<rparr>))"

section \<open>Constraints\<close>

text \<open>Rows that keep their keys; the one matched row may take a fresh change number.\<close>

lemma db_keep_resources:
  assumes "resource_change_seq d \<le> k"
    and "resources_ok (user_ids d) (app_ids d) (resource_change_seq d) (resources d) \<Longrightarrow>
      resources_ok (user_ids d) (app_ids d) k rs"
  shows "db_keep d (d\<lparr>resource_change_seq := k, resources := rs\<rparr>)"
  using assms by (auto simp: db_keep_def db_ok_def user_ids_def machine_ids_def app_ids_def)

lemma fresh_change_seq:
  "resources_ok U A n rs \<Longrightarrow> r \<in> set rs \<Longrightarrow> r_change_seq r < n + 1"
  by (auto simp: resources_ok_def refs_def)

lemma keyed_renumber:
  assumes "keyed r_change_seq rs" "\<And>r. r \<in> set rs \<Longrightarrow> r_change_seq r < k"
    and "keyed r_id rs" "\<And>r. p r \<Longrightarrow> r_id r = x" "\<And>r. r_change_seq (f r) = k"
  shows "keyed r_change_seq (upd_where p f rs)"
  using assms
proof (induction rs)
  case (Cons r rs)
  have k: "r_change_seq q < k" if "q \<in> set rs" for q using Cons.prems(2) that by simp
  have none: "upd_where p f rs = rs" if "p r"
    using Cons.prems(3,4) that by (intro upd_where_none) force
  have in_upd: "q \<in> set rs \<or> r_change_seq q = k" if "q \<in> set (upd_where p f rs)" for q
    using that Cons.prems(5) by (auto simp: set_upd_where)
  show ?case
  proof (cases "p r")
    case True
    then show ?thesis using none [OF True] k Cons.prems(1,5) by (auto simp: image_iff)
  next
    case False
    have "r_change_seq r \<notin> r_change_seq ` set (upd_where p f rs)"
      using in_upd Cons.prems(1,2) by fastforce
    then show ?thesis using Cons False by simp
  qed
qed simp

lemma app_key_eq: "app_key = (\<lambda>r. (r_app_id r, r_resource_type r, r_app_resource_id r))"
  by (simp add: app_key_def fun_eq_iff)

text \<open>A refused insert only spends a number; an accepted one adds a row that has it.\<close>

lemma resource_create_cases:
  assumes "resource_create new_id now new d = (r, d')"
  obtains (refused) e where "r = Inl e" and "d' = d\<lparr>resource_change_seq := resource_change_seq d + 1\<rparr>"
  | (new) q where "r = Inr q" and "r_id q = new_id" and "r_app_id q = nr_app_id new"
    and "r_resource_type q = nr_resource_type new" and "r_app_resource_id q = nr_app_resource_id new"
    and "r_owner_user_id q = nr_owner_user_id new" and "r_deleted_at q = None"
    and "r_content_blob q = nr_content_blob new" and "r_content_signature q = nr_content_signature new"
    and "r_change_seq q = resource_change_seq d + 1"
    and "new_id \<notin> r_id ` set (resources d)" and "app_key q \<notin> app_key ` set (resources d)"
    and "nr_app_id new \<in> app_ids d" and "nr_owner_user_id new \<in> user_ids d"
    and "d' = d\<lparr>resource_change_seq := resource_change_seq d + 1, resources := resources d @ [q]\<rparr>"
  using assms by (auto simp: resource_create_def Let_def sql_ok_def sql_err_def split: if_splits)

lemma resources_ok_more: "resources_ok U A n rs \<Longrightarrow> resources_ok U A (n + 1) rs"
  by (auto simp: resources_ok_def elim: refs_mono)

lemma resource_create_keep: "db_keep d (snd (resource_create new_id now new d))"
proof -
  obtain r d' where run: "resource_create new_id now new d = (r, d')" by fastforce
  then show ?thesis
  proof (cases rule: resource_create_cases)
    case refused
    then show ?thesis
      using run db_keep_resources [of d "resource_change_seq d + 1" "resources d"] by (simp add: resources_ok_more)
  next
    case (new q)
    have "resources_ok (user_ids d) (app_ids d) (resource_change_seq d + 1) (resources d @ [q])"
      if ok: "resources_ok (user_ids d) (app_ids d) (resource_change_seq d) (resources d)"
    proof -
      have "r_change_seq q \<notin> r_change_seq ` set (resources d)"
        using fresh_change_seq [OF ok] new(10) by fastforce
      then show ?thesis
        using resources_ok_more [OF ok] new(2-6,10-14)
        by (simp add: resources_ok_def app_key_eq [symmetric])
    qed
    then show ?thesis using run new(15) by (simp add: db_keep_resources)
  qed
qed

lemma update_live_keep:
  assumes "\<And>k r. app_key (f k r) = app_key r" "\<And>k r. r_id (f k r) = r_id r"
    "\<And>k r. r_owner_user_id (f k r) = r_owner_user_id r" "\<And>k r. r_change_seq (f k r) = k"
  shows "db_keep d (snd (update_live res_id owner f d))"
proof -
  let ?k = "resource_change_seq d + 1"
  have "resources_ok U A ?k (upd_where (owned_live res_id owner) (f ?k) rs)"
    if ok: "resources_ok U A (resource_change_seq d) rs" for U A rs
  proof -
    have "keyed r_change_seq (upd_where (owned_live res_id owner) (f ?k) rs)"
      using ok fresh_change_seq [OF ok] assms(4)
      by (intro keyed_renumber [where x = res_id]) (auto simp: resources_ok_def owned_live_def)
    moreover have "keyed app_key (upd_where (owned_live res_id owner) (f ?k) rs) = keyed app_key rs"
      using assms(1) by simp
    moreover have "r_app_id (f k r) = r_app_id r" for k r
      using assms(1) [of k r] by (simp add: app_key_def)
    moreover have "refs r_change_seq (upd_where (owned_live res_id owner) (f ?k) rs) {..?k}"
      using ok assms(4) by (auto simp: resources_ok_def intro!: refs_upd elim: refs_mono)
    ultimately show ?thesis using ok assms(2,3) by (simp add: resources_ok_def app_key_eq [symmetric])
  qed
  then show ?thesis
    by (auto simp: update_live_def Let_def integrity.R_refl intro: db_keep_resources split: option.splits)
qed

lemma resource_statements_keep:
  "db_keep d (snd (update_owned now res_id owner blob sig version parent d))"
  "db_keep d (snd (soft_delete_owned now res_id owner d))"
  "db_keep d (snd (admin_hard_delete app_id res_id d))"
proof -
  show "db_keep d (snd (update_owned now res_id owner blob sig version parent d))"
    unfolding update_owned_def by (rule update_live_keep) (simp_all add: app_key_def)
  have "db_keep d (snd (update_live res_id owner (\<lambda>k r. r\<lparr>r_deleted_at := Some now, r_updated_at := now,
         r_change_seq := k\<rparr>) d))"
    by (rule update_live_keep) (simp_all add: app_key_def)
  then show "db_keep d (snd (soft_delete_owned now res_id owner d))"
    by (auto simp: soft_delete_owned_def split: prod.splits sum.splits)
  have "resources_ok U A n (filter p rs)" if "resources_ok U A n rs" for U A n p and rs :: "resource list"
    using that by (auto simp: resources_ok_def refs_filter distinct_map_filter)
  then show "db_keep d (snd (admin_hard_delete app_id res_id d))"
    using db_keep_resources [of d "resource_change_seq d"]
    by (simp add: admin_hard_delete_def Let_def)
qed

section \<open>Properties\<close>

text \<open>The rows of everybody else.\<close>

definition others :: "uuid \<Rightarrow> database \<Rightarrow> resource list" where
  "others owner d = filter (\<lambda>r. r_owner_user_id r \<noteq> owner) (resources d)"

lemma owned_live_fetch:
  assumes "db_ok d"
  shows "fetch_optional (filter (owned_live res_id owner) (resources d)) = Some r \<longleftrightarrow>
     r \<in> set (resources d) \<and> owned_live res_id owner r"
proof
  assume "r \<in> set (resources d) \<and> owned_live res_id owner r"
  then show "fetch_optional (filter (owned_live res_id owner) (resources d)) = Some r"
    using db_okD(27) [OF assms]
    by (auto simp: resources_ok_def owned_live_def intro!: fetch_keyed [where key = r_id])
qed (rule fetch_filter_SomeD)

lemma others_upd:
  assumes "\<And>k r. r_owner_user_id (f k r) = r_owner_user_id r"
  shows "others owner (snd (update_live res_id owner f d)) = others owner d"
proof -
  have "filter (\<lambda>r. r_owner_user_id r \<noteq> owner) (upd_where (owned_live res_id owner) (f k) rs)
      = filter (\<lambda>r. r_owner_user_id r \<noteq> owner) rs" for k rs
    by (rule filter_upd_other) (simp add: assms owned_live_def)
  then show ?thesis
    by (simp add: update_live_def others_def Let_def split: option.splits)
qed

text \<open>
  Owner isolation: reading, creating, updating, deleting and listing on behalf of one user
  never answers a row of anyone else and never changes one, so another user's resource cannot be
  told from a missing one.
\<close>

theorem owner_isolation:
  "(\<forall>r. get_owned res_id owner d = (Inr (Some r), d) \<longrightarrow> r_owner_user_id r = owner \<and> r_deleted_at r = None)
   \<and> (\<forall>rows. list_changes app_id type owner cursor limit d = (Inr rows, d) \<longrightarrow>
        (\<forall>r \<in> set rows. r_owner_user_id r = owner \<and> r_app_id r = app_id))
   \<and> (\<forall>rows total w w'. list_owned X app_id t owner limit offset del w = (Inr (rows, total), w') \<longrightarrow>
        (\<forall>r \<in> set rows. r_owner_user_id r = owner \<and> r_app_id r = app_id \<and> r_resource_type r = t))
   \<and> (nr_owner_user_id new = owner \<longrightarrow> others owner (snd (resource_create new_id now new d)) = others owner d)
   \<and> others owner (snd (update_owned now res_id owner blob sig version parent d)) = others owner d
   \<and> others owner (snd (soft_delete_owned now res_id owner d)) = others owner d
   \<and> ((\<forall>r \<in> set (resources d). r_id r = res_id \<longrightarrow> r_owner_user_id r \<noteq> owner) \<longrightarrow>
        get_owned res_id owner d = (Inr None, d)
        \<and> update_owned now res_id owner blob sig version parent d = (Inr None, d)
        \<and> soft_delete_owned now res_id owner d = (Inr False, d))"
proof (intro conjI allI impI)
  show "r_owner_user_id r = owner" "r_deleted_at r = None"
    if "get_owned res_id owner d = (Inr (Some r), d)" for r
    using that by (auto simp: get_owned_def query_def owned_live_def dest!: fetch_filter_SomeD)
next
  fix rows assume "list_changes app_id type owner cursor limit d = (Inr rows, d)"
  then show "\<forall>r \<in> set rows. r_owner_user_id r = owner \<and> r_app_id r = app_id"
    by (auto simp: list_changes_def query_def sql_err_def in_feed_def split: if_splits dest: in_set_takeD)
next
  fix rows total w w' assume "list_owned X app_id t owner limit offset del w = (Inr (rows, total), w')"
  then show "\<forall>r \<in> set rows. r_owner_user_id r = owner \<and> r_app_id r = app_id \<and> r_resource_type r = t"
    by (auto simp: list_owned_def query_def sql_err_def listed_def elim!: andthen_eq_InrE exec_eq_InrE
        split: if_splits dest!: in_set_takeD in_set_dropD)
next
  assume "nr_owner_user_id new = owner"
  then show "others owner (snd (resource_create new_id now new d)) = others owner d"
    by (auto simp: resource_create_def Let_def others_def)
next
  show "others owner (snd (update_owned now res_id owner blob sig version parent d)) = others owner d"
    unfolding update_owned_def by (rule others_upd) simp
  have "others owner (snd (update_live res_id owner (\<lambda>k r. r\<lparr>r_deleted_at := Some now, r_updated_at := now,
         r_change_seq := k\<rparr>) d)) = others owner d"
    by (rule others_upd) simp
  then show "others owner (snd (soft_delete_owned now res_id owner d)) = others owner d"
    by (auto simp: soft_delete_owned_def split: prod.splits sum.splits)
next
  assume "\<forall>r \<in> set (resources d). r_id r = res_id \<longrightarrow> r_owner_user_id r \<noteq> owner"
  then have "filter (owned_live res_id owner) (resources d) = []"
    by (auto simp: filter_empty_conv owned_live_def)
  then show "get_owned res_id owner d = (Inr None, d)"
    "update_owned now res_id owner blob sig version parent d = (Inr None, d)"
    "soft_delete_owned now res_id owner d = (Inr False, d)"
    by (simp_all add: get_owned_def query_def update_owned_def soft_delete_owned_def update_live_def sql_ok_def)
qed

definition demo_resource :: resource where
  "demo_resource = \<lparr>r_id = 9, r_app_id = 5, r_resource_type = ''task'', r_app_resource_id = 1,
     r_parent_resource_id = None, r_owner_user_id = 7, r_created_at = 0, r_updated_at = 0,
     r_deleted_at = None, r_content_blob = [1], r_content_signature = [], r_last_modified_by = 7,
     r_schema_version = 1, r_change_seq = 1\<rparr>"

definition new_demo :: "uuid \<Rightarrow> new_resource" where
  "new_demo owner = \<lparr>nr_app_id = 5, nr_resource_type = ''task'', nr_app_resource_id = 2,
     nr_parent_resource_id = None, nr_owner_user_id = owner, nr_content_blob = [],
     nr_content_signature = [], nr_schema_version = 1\<rparr>"

definition demo_resources :: database where
  "demo_resources = empty_db\<lparr>resource_change_seq := 1,
     users := [\<lparr>u_id = 7, u_email = ''ada@b.c'', u_display_name = ''Ada'', u_lifecycle = Active,
       u_instance_role = Owner, u_kind = KindMember, u_locale = None, u_created_at = 0, u_updated_at = 0\<rparr>],
     registered_apps := [\<lparr>a_id = 5, a_app_identifier = ''garden.tasks'', a_display_name = ''Tasks'',
       a_publisher = ''P'', a_app_public_key = [], a_schema_version = 1, a_resource_types = [''task''],
       a_status = ''enabled'', a_registered_by = None, a_created_at = 0, a_updated_at = 0\<rparr>],
     resources := [demo_resource]\<rparr>"

lemma demo_resources_ok: "db_ok demo_resources"
  using empty_db_ok
  by (simp add: demo_resources_def demo_resource_def db_ok_def user_ids_def table_ok_defs machine_ids_def
      app_ids_def)

theorem owner_isolation_witness:
  "get_owned 9 8 demo_resources = (Inr None, demo_resources)
   \<and> others 7 (snd (soft_delete_owned 3 9 7 demo_resources)) = others 7 demo_resources"
proof -
  have "\<forall>r \<in> set (resources demo_resources). r_id r = 9 \<longrightarrow> r_owner_user_id r \<noteq> 8"
    by (simp add: demo_resources_def demo_resource_def)
  with owner_isolation [of 9 8 demo_resources 5 None 0 1 demo_ext "[]" 0 True "new_demo 8" 1 3 "[]" "[]" 1 None]
    owner_isolation [of 9 7 demo_resources 5 None 0 1 demo_ext "[]" 0 True "new_demo 7" 1 3 "[]" "[]" 1 None]
  show ?thesis by presburger
qed

section \<open>The change feed\<close>

text \<open>What a client has not seen yet: the rows beyond a cursor, in the order of their numbers.\<close>

definition feed :: "uuid \<Rightarrow> string option \<Rightarrow> uuid \<Rightarrow> int \<Rightarrow> database \<Rightarrow> resource list" where
  "feed app_id type owner cursor d = order_asc r_change_seq
     (filter (\<lambda>r. in_feed app_id type owner r \<and> cursor < r_change_seq r) (resources d))"

lemma feed_ordered:
  assumes "keyed r_change_seq (resources d)"
  shows "sorted_wrt (<) (map r_change_seq (feed app_id type owner cursor d))"
proof -
  have "distinct (map r_change_seq (sort_key r_change_seq (filter p (resources d))))" for p
    using assms by (simp add: distinct_map inj_on_def)
  then show ?thesis by (simp add: feed_def order_asc_def strict_sorted_iff)
qed

lemma feed_strict:
  assumes "db_ok d"
  shows "sorted_wrt (<) (map r_change_seq (feed app_id type owner cursor d))"
  using db_okD(27) [OF assms] by (intro feed_ordered) (simp add: resources_ok_def)

lemma feed_beyond:
  assumes "cursor \<le> c"
  shows "feed app_id type owner c d = filter (\<lambda>r. c < r_change_seq r) (feed app_id type owner cursor d)"
proof -
  have "filter (\<lambda>r. in_feed app_id type owner r \<and> c < r_change_seq r) (resources d)
      = filter (\<lambda>r. c < r_change_seq r)
          (filter (\<lambda>r. in_feed app_id type owner r \<and> cursor < r_change_seq r) (resources d))"
    using assms by (auto intro: filter_cong)
  then show ?thesis by (simp add: feed_def order_asc_def filter_sort)
qed

lemma filter_beyond:
  "sorted_wrt (<) (map key (xs @ b # ys)) \<Longrightarrow> filter (\<lambda>r. key b < key r) (xs @ b # ys) = ys"
  for key :: "'r \<Rightarrow> 'k::linorder"
  by (auto simp: sorted_wrt_append filter_id_conv filter_empty_conv)

lemma feed_resume:
  assumes ok: "db_ok d" and f: "feed app_id type owner cursor d = pre @ b # post"
  shows "feed app_id type owner (r_change_seq b) d = post"
proof -
  have "b \<in> set (feed app_id type owner cursor d)" using f by simp
  then have "cursor \<le> r_change_seq b" by (simp add: feed_def)
  from feed_beyond [OF this] show ?thesis
    using filter_beyond feed_strict [OF ok] f by metis
qed

text \<open>
  Catching up is complete: a non-negative limit gives the first \<open>limit\<close> rows beyond the
  cursor, tombstones included, in strictly increasing order of their numbers; it is empty only
  if there is nothing left (or the limit is 0); and asking again with the last number seen
  gives what comes right after, so the batches skip nothing and repeat nothing.
\<close>

theorem list_changes_resumes:
  assumes "db_ok d" and "0 < limit" and "list_changes app_id type owner cursor limit d = (r, d')"
  shows "d' = d \<and> (\<exists>batch. r = Inr batch \<and> batch = take (nat limit) (feed app_id type owner cursor d)
    \<and> sorted_wrt (<) (map r_change_seq batch)
    \<and> (\<forall>q. q \<in> set (feed app_id type owner cursor d) \<longleftrightarrow>
         q \<in> set (resources d) \<and> in_feed app_id type owner q \<and> cursor < r_change_seq q)
    \<and> (batch = [] \<longleftrightarrow> feed app_id type owner cursor d = [])
    \<and> (batch \<noteq> [] \<longrightarrow> feed app_id type owner cursor d
         = batch @ feed app_id type owner (r_change_seq (last batch)) d))"
proof -
  let ?f = "feed app_id type owner cursor d"
  let ?batch = "take (nat limit) ?f"
  have run: "r = Inr ?batch" "d' = d"
    using assms(2,3) by (auto simp: list_changes_def query_def feed_def)
  have "sorted_wrt (<) (map r_change_seq ?batch)"
    using feed_strict [OF assms(1)] by (metis sorted_wrt_take take_map)
  moreover have "?f = ?batch @ feed app_id type owner (r_change_seq (last ?batch)) d" if "?batch \<noteq> []"
  proof -
    have "?f = butlast ?batch @ last ?batch # drop (nat limit) ?f"
      using append_butlast_last_id [OF that] append_take_drop_id [of "nat limit" ?f]
      by (metis append.assoc append_Cons append_Nil)
    then show ?thesis using feed_resume [OF assms(1)] append_take_drop_id by metis
  qed
  moreover have "?batch = [] \<longleftrightarrow> ?f = []" using assms(2) by simp
  moreover have "q \<in> set ?f \<longleftrightarrow> q \<in> set (resources d) \<and> in_feed app_id type owner q \<and> cursor < r_change_seq q"
    for q by (simp add: feed_def)
  ultimately show ?thesis using run by blast
qed

theorem list_changes_resumes_witness:
  "\<exists>batch. list_changes 5 None 7 0 10 demo_resources = (Inr batch, demo_resources) \<and> batch = [demo_resource]"
proof -
  obtain r d' where run: "list_changes 5 None 7 0 10 demo_resources = (r, d')" by fastforce
  have "feed 5 None 7 0 demo_resources = [demo_resource]"
    by (simp add: feed_def demo_resources_def demo_resource_def in_feed_def order_asc_def)
  with list_changes_resumes [OF demo_resources_ok _ run] run show ?thesis by auto
qed

text \<open>
  Every change is announced: a successful create, update or delete gives its row the next
  number, larger than every number handed out before, so the row is in the feed beyond every
  cursor a client can hold; the row of an earlier version is not delivered again.
\<close>

theorem changes_are_announced:
  assumes "db_ok d" and "cursor \<le> resource_change_seq d"
  shows "(\<forall>r d'. resource_create new_id now new d = (Inr r, d') \<longrightarrow>
       r \<in> set (feed (nr_app_id new) None (nr_owner_user_id new) cursor d')
       \<and> r_change_seq r = resource_change_seq d' \<and> resource_change_seq d' = resource_change_seq d + 1)
    \<and> (\<forall>r d'. update_owned now res_id owner blob sig version parent d = (Inr (Some r), d') \<longrightarrow>
       r \<in> set (feed (r_app_id r) None owner cursor d') \<and> r_id r = res_id
       \<and> r_content_blob r = blob \<and> r_content_signature r = sig
       \<and> r_change_seq r = resource_change_seq d' \<and> resource_change_seq d' = resource_change_seq d + 1)
    \<and> (\<forall>d'. soft_delete_owned now res_id owner d = (Inr True, d') \<longrightarrow>
       (\<exists>r. r \<in> set (feed (r_app_id r) None owner cursor d') \<and> r_id r = res_id \<and> r_deleted_at r = Some now
        \<and> r_change_seq r = resource_change_seq d' \<and> resource_change_seq d' = resource_change_seq d + 1))"
proof (intro conjI allI impI)
  fix r d' assume "resource_create new_id now new d = (Inr r, d')"
  then have "r \<in> set (feed (nr_app_id new) None (nr_owner_user_id new) cursor d')
      \<and> r_change_seq r = resource_change_seq d' \<and> resource_change_seq d' = resource_change_seq d + 1"
    by (cases rule: resource_create_cases) (use assms(2) in \<open>auto simp: feed_def in_feed_def\<close>)
  then show "r \<in> set (feed (nr_app_id new) None (nr_owner_user_id new) cursor d')"
    "r_change_seq r = resource_change_seq d'" "resource_change_seq d' = resource_change_seq d + 1" by auto
next
  fix r d' assume "update_owned now res_id owner blob sig version parent d = (Inr (Some r), d')"
  then have "r \<in> set (feed (r_app_id r) None owner cursor d') \<and> r_id r = res_id
       \<and> r_content_blob r = blob \<and> r_content_signature r = sig
       \<and> r_change_seq r = resource_change_seq d' \<and> resource_change_seq d' = resource_change_seq d + 1"
    using assms(2)
    by (auto simp: update_owned_def update_live_def Let_def sql_ok_def feed_def in_feed_def set_upd_where
        owned_live_def dest!: fetch_filter_SomeD split: option.splits)
  then show "r \<in> set (feed (r_app_id r) None owner cursor d')" "r_id r = res_id" "r_content_blob r = blob"
    "r_content_signature r = sig" "r_change_seq r = resource_change_seq d'"
    "resource_change_seq d' = resource_change_seq d + 1" by auto
next
  fix d' assume run: "soft_delete_owned now res_id owner d = (Inr True, d')"
  let ?f = "\<lambda>r. r\<lparr>r_deleted_at := Some now, r_updated_at := now, r_change_seq := resource_change_seq d + 1\<rparr>"
  obtain r where r: "r \<in> set (resources d)" "owned_live res_id owner r"
    and d': "d' = d\<lparr>resource_change_seq := resource_change_seq d + 1,
          resources := upd_where (owned_live res_id owner) ?f (resources d)\<rparr>"
    using run by (auto simp: soft_delete_owned_def update_live_def Let_def sql_ok_def
        dest!: fetch_filter_SomeD split: option.splits)
  then show "\<exists>r. r \<in> set (feed (r_app_id r) None owner cursor d') \<and> r_id r = res_id \<and> r_deleted_at r = Some now
        \<and> r_change_seq r = resource_change_seq d' \<and> resource_change_seq d' = resource_change_seq d + 1"
    using assms(2)
    by (intro exI [of _ "?f r"]) (auto simp: feed_def in_feed_def set_upd_where owned_live_def)
qed

theorem changes_are_announced_witness:
  "\<exists>d'. soft_delete_owned 3 9 7 demo_resources = (Inr True, d')
     \<and> (\<exists>r. r \<in> set (feed (r_app_id r) None 7 1 d') \<and> r_id r = 9 \<and> r_deleted_at r = Some 3)"
proof -
  obtain d' where d': "soft_delete_owned 3 9 7 demo_resources = (Inr True, d')"
    by (simp add: soft_delete_owned_def update_live_def owned_live_def sql_ok_def demo_resources_def
        demo_resource_def Let_def)
  have "(1::int) \<le> resource_change_seq demo_resources" by (simp add: demo_resources_def)
  from changes_are_announced [OF demo_resources_ok this] d' show ?thesis by blast
qed

end
