(* ===== verification/Sync_Interleaving.thy ===== *)
theory Sync_Interleaving
imports Resources
begin

text \<open>
  Concurrent writers against one client that follows the change feed. A statement of the resource
  repository draws its change number when it runs and shows its row when its implicit
  transaction commits; here these are two steps, so that the steps of several requests mix.
\<close>

section \<open>A statement as draw and commit\<close>

definition inserted_row :: "uuid \<Rightarrow> time \<Rightarrow> new_resource \<Rightarrow> int \<Rightarrow> resource" where
  "inserted_row new_id now new k =
     \<lparr>r_id = new_id, r_app_id = nr_app_id new, r_resource_type = nr_resource_type new,
      r_app_resource_id = nr_app_resource_id new, r_parent_resource_id = nr_parent_resource_id new,
      r_owner_user_id = nr_owner_user_id new, r_created_at = now, r_updated_at = now,
      r_deleted_at = None, r_content_blob = nr_content_blob new,
      r_content_signature = nr_content_signature new, r_last_modified_by = nr_owner_user_id new,
      r_schema_version = nr_schema_version new, r_change_seq = k\<rparr>"

definition updated_row ::
  "time \<Rightarrow> uuid \<Rightarrow> bytes \<Rightarrow> bytes \<Rightarrow> int \<Rightarrow> uuid option \<Rightarrow> int \<Rightarrow> resource \<Rightarrow> resource" where
  "updated_row now owner blob sig version parent k r =
     r\<lparr>r_content_blob := blob, r_content_signature := sig, r_schema_version := version,
       r_parent_resource_id := parent, r_last_modified_by := owner, r_updated_at := now, r_change_seq := k\<rparr>"

definition deleted_row :: "time \<Rightarrow> int \<Rightarrow> resource \<Rightarrow> resource" where
  "deleted_row now k r = r\<lparr>r_deleted_at := Some now, r_updated_at := now, r_change_seq := k\<rparr>"

definition draw_seq :: "database \<Rightarrow> database" where
  "draw_seq d = d\<lparr>resource_change_seq := resource_change_seq d + 1\<rparr>"

lemma drawn_seq [simp]:
  "r_change_seq (inserted_row new_id now new k) = k"
  "r_change_seq (updated_row now owner blob sig version parent k r) = k" "r_change_seq (deleted_row now k r) = k"
  "resource_change_seq (draw_seq d) = resource_change_seq d + 1"
  by (simp_all add: inserted_row_def updated_row_def deleted_row_def draw_seq_def)

text \<open>The commit makes the row visible: in place of its old version, or as a new one.\<close>

definition commit_row :: "resource \<Rightarrow> resource stmt" where
  "commit_row q d =
     (if r_id q \<in> r_id ` set (resources d)
      then sql_ok q (d\<lparr>resources := upd_where (\<lambda>r. r_id r = r_id q) (\<lambda>_. q) (resources d)\<rparr>)
      else if app_key q \<in> app_key ` set (resources d) then sql_err UniqueViolation d
      else if r_app_id q \<notin> app_ids d \<or> r_owner_user_id q \<notin> user_ids d then sql_err ForeignKeyViolation d
      else sql_ok q (d\<lparr>resources := resources d @ [q]\<rparr>))"

lemma resource_create_split:
  assumes "new_id \<notin> r_id ` set (resources d)"
  shows "resource_create new_id now new d
    = commit_row (inserted_row new_id now new (resource_change_seq (draw_seq d))) (draw_seq d)"
  using assms
  by (simp add: resource_create_def commit_row_def inserted_row_def draw_seq_def Let_def app_key_def
      sql_ok_def sql_err_def app_ids_def user_ids_def)

lemma update_live_split:
  assumes "keyed r_id (resources d)" and "r \<in> set (resources d)" and "owned_live res_id owner r"
    and "\<And>k. r_id (f k r) = r_id r"
  shows "update_live res_id owner f d
    = map_prod (map_sum id Some) id (commit_row (f (resource_change_seq (draw_seq d)) r) (draw_seq d))"
proof -
  have only: "q = r" if "q \<in> set (resources d)" "r_id q = r_id r" for q
    using keyed_eqD [OF assms(1) that(1) assms(2)] that(2) by simp
  have id: "r_id r = res_id" using assms(3) by (simp add: owned_live_def)
  have "fetch_optional (filter (owned_live res_id owner) (resources d)) = Some r"
    using assms by (intro fetch_keyed [of r_id]) (auto simp: owned_live_def)
  moreover have "upd_where (owned_live res_id owner) (f k) (resources d)
      = upd_where (\<lambda>q. r_id q = r_id r) (\<lambda>_. f k r) (resources d)" for k
    unfolding upd_where_def using only assms(3) id by (auto simp: owned_live_def dest!: only)
  ultimately show ?thesis
    using assms(2,4) by (auto simp: update_live_def commit_row_def draw_seq_def Let_def sql_ok_def)
qed

section \<open>Writers and a client\<close>

record sync_state =
  sy_db :: database
  sy_pending :: "resource list"
  sy_cursor :: int
  sy_seen :: "resource list"

text \<open>
  What the client does with a batch: it keeps the largest number it has seen, and asks with it
  the next time.
\<close>

definition advance :: "int \<Rightarrow> resource list \<Rightarrow> int" where
  "advance cursor rows = fold (\<lambda>r c. max (r_change_seq r) c) rows cursor"

text \<open>
  The steps of one app's writers and of one client. An update or delete holds the lock of its row
  until it commits. With \<open>fifo\<close> the commits come in the order of the drawn numbers.
\<close>

inductive sync_step :: "bool \<Rightarrow> uuid \<Rightarrow> string option \<Rightarrow> uuid \<Rightarrow> int \<Rightarrow> sync_state \<Rightarrow> sync_state \<Rightarrow> bool"
  for fifo app_id type owner limit where
  insert: "new_id \<notin> r_id ` set (resources (sy_db s)) \<union> r_id ` set (sy_pending s) \<Longrightarrow>
     d = draw_seq (sy_db s) \<Longrightarrow> q = inserted_row new_id now new (resource_change_seq d) \<Longrightarrow>
     sync_step fifo app_id type owner limit s (s\<lparr>sy_db := d, sy_pending := sy_pending s @ [q]\<rparr>)"
| update: "r \<in> set (resources (sy_db s)) \<Longrightarrow> owned_live res_id user r \<Longrightarrow>
     r_id r \<notin> r_id ` set (sy_pending s) \<Longrightarrow>
     d = draw_seq (sy_db s) \<Longrightarrow> q = updated_row now user blob sig version parent (resource_change_seq d) r \<Longrightarrow>
     sync_step fifo app_id type owner limit s (s\<lparr>sy_db := d, sy_pending := sy_pending s @ [q]\<rparr>)"
| delete: "r \<in> set (resources (sy_db s)) \<Longrightarrow> owned_live res_id user r \<Longrightarrow>
     r_id r \<notin> r_id ` set (sy_pending s) \<Longrightarrow>
     d = draw_seq (sy_db s) \<Longrightarrow> q = deleted_row now (resource_change_seq d) r \<Longrightarrow>
     sync_step fifo app_id type owner limit s (s\<lparr>sy_db := d, sy_pending := sy_pending s @ [q]\<rparr>)"
| commit: "sy_pending s = ps @ q # qs \<Longrightarrow> fifo \<longrightarrow> ps = [] \<Longrightarrow> d = snd (commit_row q (sy_db s)) \<Longrightarrow>
     sync_step fifo app_id type owner limit s (s\<lparr>sy_db := d, sy_pending := ps @ qs\<rparr>)"
| sync: "fst (list_changes app_id type owner (sy_cursor s) limit (sy_db s)) = Inr rows \<Longrightarrow>
     sync_step fifo app_id type owner limit s
       (s\<lparr>sy_cursor := advance (sy_cursor s) rows, sy_seen := sy_seen s @ rows\<rparr>)"

inductive_cases sync_step_cases: "sync_step fifo app_id type owner limit s s'"

definition sync_start :: "database \<Rightarrow> int \<Rightarrow> sync_state" where
  "sync_start d cursor = \<lparr>sy_db = d, sy_pending = [], sy_cursor = cursor, sy_seen = []\<rparr>"

section \<open>In order, nothing is missed\<close>

text \<open>
  The invariant: no number in flight is below a committed one or the cursor, and what the cursor
  has passed was delivered.
\<close>

definition sync_inv :: "uuid \<Rightarrow> string option \<Rightarrow> uuid \<Rightarrow> int \<Rightarrow> sync_state \<Rightarrow> bool" where
  "sync_inv app_id type owner start s \<longleftrightarrow>
     sorted_wrt (<) (map r_change_seq (sy_pending s)) 
     \<and> keyed r_id (resources (sy_db s)) \<and> keyed r_change_seq (resources (sy_db s))
     \<and> (\<forall>p \<in> set (sy_pending s). sy_cursor s < r_change_seq p \<and> r_change_seq p \<le> resource_change_seq (sy_db s)
          \<and> (\<forall>r \<in> set (resources (sy_db s)). r_change_seq r < r_change_seq p))
     \<and> (\<forall>r \<in> set (resources (sy_db s)). r_change_seq r \<le> resource_change_seq (sy_db s)
          \<and> (in_feed app_id type owner r \<and> start < r_change_seq r \<and> r_change_seq r \<le> sy_cursor s
             \<longrightarrow> r \<in> set (sy_seen s)))
     \<and> start \<le> sy_cursor s \<and> sy_cursor s \<le> resource_change_seq (sy_db s)"

lemma advance_bounds:
  "cursor \<le> advance cursor rows" "\<forall>r \<in> set rows. r_change_seq r \<le> advance cursor rows"
  "advance cursor rows = cursor \<or> (\<exists>r \<in> set rows. advance cursor rows = r_change_seq r)"
proof -
  have "cursor \<le> advance cursor rows \<and> (\<forall>r \<in> set rows. r_change_seq r \<le> advance cursor rows)
    \<and> (advance cursor rows = cursor \<or> (\<exists>r \<in> set rows. advance cursor rows = r_change_seq r))"
  proof (induction rows arbitrary: cursor)
    case (Cons r rows)
    have "advance cursor (r # rows) = advance (max (r_change_seq r) cursor) rows" by (simp add: advance_def)
    then show ?case using Cons [of "max (r_change_seq r) cursor"] by (auto simp: max_def split: if_splits)
  qed (simp add: advance_def)
  then show "cursor \<le> advance cursor rows" "\<forall>r \<in> set rows. r_change_seq r \<le> advance cursor rows"
    "advance cursor rows = cursor \<or> (\<exists>r \<in> set rows. advance cursor rows = r_change_seq r)" by blast+
qed

text \<open>A batch has everything of the feed up to its largest number.\<close>

lemma batch_complete:
  assumes k: "keyed r_change_seq (resources d)"
    and run: "fst (list_changes app_id type owner cursor limit d) = Inr rows"
    and r: "r \<in> set (resources d)" "in_feed app_id type owner r" "cursor < r_change_seq r"
      "r_change_seq r \<le> advance cursor rows"
  shows "r \<in> set rows"
proof -
  let ?f = "feed app_id type owner cursor d"
  have rows: "rows = take (nat limit) ?f"
    using run by (auto simp: list_changes_def query_def feed_def sql_err_def split: if_splits)
  have sorted: "sorted (map r_change_seq ?f)" by (simp add: feed_def sorted_order_asc)
  have in_f: "r \<in> set ?f" using r(1-3) by (simp add: feed_def)
  obtain q where q: "q \<in> set rows" "r_change_seq r \<le> r_change_seq q"
    using advance_bounds(3) [of cursor rows] r(3,4) by fastforce
  show ?thesis
  proof (rule ccontr)
    assume "r \<notin> set rows"
    with in_f rows have d: "r \<in> set (drop (nat limit) ?f)"
      by (metis UnE append_take_drop_id set_append)
    have "map r_change_seq ?f = map r_change_seq rows @ map r_change_seq (drop (nat limit) ?f)"
      unfolding rows map_append [symmetric] by simp
    then have "r_change_seq q \<le> r_change_seq r"
      using sorted q(1) d by (auto simp: sorted_append)
    with q(2) have "r_change_seq q = r_change_seq r" by simp
    moreover have "q \<in> set (resources d)" using q(1) rows by (auto simp: feed_def dest: in_set_takeD)
    ultimately have "q = r" using keyed_eqD [OF k _ r(1)] by blast
    then show False using q(1) \<open>r \<notin> set rows\<close> by simp
  qed
qed

lemma list_changes_rows:
  assumes "fst (list_changes app_id type owner cursor limit d) = Inr rows" and "r \<in> set rows"
  shows "r \<in> set (resources d)" and "in_feed app_id type owner r" and "cursor < r_change_seq r"
  using assms by (auto simp: list_changes_def query_def sql_err_def split: if_splits dest: in_set_takeD)

lemma sync_invD:
  assumes "sync_inv app_id type owner start s"
  shows "p \<in> set (sy_pending s) \<Longrightarrow> sy_cursor s < r_change_seq p"
    and "p \<in> set (sy_pending s) \<Longrightarrow> r_change_seq p \<le> resource_change_seq (sy_db s)"
    and "p \<in> set (sy_pending s) \<Longrightarrow> r \<in> set (resources (sy_db s)) \<Longrightarrow> r_change_seq r < r_change_seq p"
    and "r \<in> set (resources (sy_db s)) \<Longrightarrow> r_change_seq r \<le> resource_change_seq (sy_db s)"
    and "sy_cursor s \<le> resource_change_seq (sy_db s)" and "start \<le> sy_cursor s"
    and "keyed r_id (resources (sy_db s))" and "keyed r_change_seq (resources (sy_db s))"
  using assms by (simp_all add: sync_inv_def)

lemma sync_inv_draw:
  assumes "sync_inv app_id type owner start s" and "r_change_seq q = resource_change_seq (sy_db s) + 1"
  shows "sync_inv app_id type owner start (s\<lparr>sy_db := draw_seq (sy_db s), sy_pending := sy_pending s @ [q]\<rparr>)"
proof -
  note inv = sync_invD [OF assms(1)]
  have "r_change_seq p < r_change_seq q" "r_change_seq p \<le> resource_change_seq (sy_db s) + 1"
    if "p \<in> set (sy_pending s)" for p
    using inv(2) [OF that] assms(2) by simp_all
  moreover have "r_change_seq r < r_change_seq q" "r_change_seq r \<le> resource_change_seq (sy_db s) + 1"
    if "r \<in> set (resources (sy_db s))" for r
    using inv(4) [OF that] assms(2) by simp_all
  ultimately show ?thesis
    using assms inv(5) by (simp add: sync_inv_def draw_seq_def sorted_wrt_append)
qed

lemma commit_row_cases:
  obtains (refused) "snd (commit_row q d) = d"
  | (replaced) "snd (commit_row q d) = d\<lparr>resources := upd_where (\<lambda>r. r_id r = r_id q) (\<lambda>_. q) (resources d)\<rparr>"
  | (added) "r_id q \<notin> r_id ` set (resources d)" "snd (commit_row q d) = d\<lparr>resources := resources d @ [q]\<rparr>"
proof -
  have "snd (commit_row q d) =
    (if r_id q \<in> r_id ` set (resources d)
     then d\<lparr>resources := upd_where (\<lambda>r. r_id r = r_id q) (\<lambda>_. q) (resources d)\<rparr>
     else if app_key q \<in> app_key ` set (resources d) \<or> r_app_id q \<notin> app_ids d \<or> r_owner_user_id q \<notin> user_ids d
     then d else d\<lparr>resources := resources d @ [q]\<rparr>)"
    by (simp add: commit_row_def)
  then show thesis using that by (cases "r_id q \<in> r_id ` set (resources d)"; presburger)
qed

text \<open>Committing the oldest number in flight.\<close>

lemma sync_inv_commit:
  assumes inv: "sync_inv app_id type owner start s" and p: "sy_pending s = q # qs"
  shows "sync_inv app_id type owner start (s\<lparr>sy_db := snd (commit_row q (sy_db s)), sy_pending := qs\<rparr>)"
proof -
  let ?rs = "resources (sy_db s)"
  have later: "\<forall>x \<in> set qs. r_change_seq q < r_change_seq x" and qs: "sorted_wrt (<) (map r_change_seq qs)"
    using inv p by (auto simp: sync_inv_def)
  have q: "sy_cursor s < r_change_seq q" "r_change_seq q \<le> resource_change_seq (sy_db s)"
    "\<forall>r \<in> set ?rs. r_change_seq r < r_change_seq q"
    and keyed: "keyed r_id ?rs" "keyed r_change_seq ?rs"
    using inv p by (auto simp: sync_inv_def)
  have frame: "sync_inv app_id type owner start (s\<lparr>sy_db := (sy_db s)\<lparr>resources := rs\<rparr>, sy_pending := qs\<rparr>)"
    if "keyed r_id rs" "keyed r_change_seq rs" "set rs \<subseteq> insert q (set ?rs)" for rs
    using inv p later qs q that by (fastforce simp: sync_inv_def)
  show ?thesis
  proof (cases rule: commit_row_cases [of q "sy_db s"])
    case refused
    then show ?thesis using frame [OF keyed] by auto
  next
    case replaced
    have "keyed r_change_seq (upd_where (\<lambda>r. r_id r = r_id q) (\<lambda>_. q) ?rs)"
      using keyed q(3) by (intro keyed_renumber [where x = "r_id q" and k = "r_change_seq q"]) auto
    moreover have "map r_id (upd_where (\<lambda>r. r_id r = r_id q) (\<lambda>_. q) ?rs) = map r_id ?rs"
      by (induction ?rs) (auto simp: upd_where_def)
    ultimately show ?thesis using frame [of "upd_where (\<lambda>r. r_id r = r_id q) (\<lambda>_. q) ?rs"] keyed(1) replaced
      by (auto simp: set_upd_where)
  next
    case added
    have "r_change_seq q \<notin> r_change_seq ` set ?rs" using q(3) by fastforce
    with added show ?thesis using frame [of "?rs @ [q]"] keyed by auto
  qed
qed

lemma sync_inv_sync:
  assumes inv: "sync_inv app_id type owner start s"
    and run: "fst (list_changes app_id type owner (sy_cursor s) limit (sy_db s)) = Inr rows"
  shows "sync_inv app_id type owner start
    (s\<lparr>sy_cursor := advance (sy_cursor s) rows, sy_seen := sy_seen s @ rows\<rparr>)"
proof -
  let ?c = "advance (sy_cursor s) rows"
  note rows = list_changes_rows [OF run]
  have c: "?c = sy_cursor s \<or> (\<exists>r \<in> set rows. r \<in> set (resources (sy_db s)) \<and> ?c = r_change_seq r)"
    using advance_bounds(3) rows(1) by metis
  have seen: "r \<in> set (sy_seen s) \<union> set rows"
    if "r \<in> set (resources (sy_db s))" "in_feed app_id type owner r" "start < r_change_seq r" "r_change_seq r \<le> ?c" for r
    using batch_complete [OF _ run, of r] inv that by (fastforce simp: sync_inv_def)
  have "?c < r_change_seq p" if "p \<in> set (sy_pending s)" for p
    using c inv that by (auto simp: sync_inv_def)
  moreover have "?c \<le> resource_change_seq (sy_db s)" using c inv by (auto simp: sync_inv_def)
  moreover have "start \<le> ?c" using advance_bounds(1) [of "sy_cursor s" rows] inv by (auto simp: sync_inv_def)
  ultimately show ?thesis using inv seen by (auto simp: sync_inv_def)
qed

lemma sync_inv_step:
  assumes "sync_step True app_id type owner limit s s'" and "sync_inv app_id type owner start s"
  shows "sync_inv app_id type owner start s'"
  using assms
proof (cases rule: sync_step.cases)
  case (commit ps q qs d)
  then show ?thesis using sync_inv_commit [OF assms(2)] by simp
next
  case (sync rows)
  then show ?thesis using sync_inv_sync [OF assms(2)] by simp
qed (use sync_inv_draw [OF assms(2)] in simp_all)

lemma sync_inv_reachable:
  assumes "(sync_step True app_id type owner limit)\<^sup>*\<^sup>* (sync_start d start) s"
    and "db_ok d" and "start \<le> resource_change_seq d"
  shows "sync_inv app_id type owner start s"
  using assms(1)
proof (induction rule: rtranclp_induct)
  case base
  show ?case
    using db_okD(27) [OF assms(2)] assms(3)
    by (auto simp: sync_inv_def sync_start_def resources_ok_def refs_def)
next
  case (step s s')
  then show ?case using sync_inv_step by blast
qed

section \<open>Out of order, a row can be lost to the client\<close>

lemma never_again:
  assumes "(sync_step fifo app_id type owner limit)\<^sup>*\<^sup>* s s'"
    and "r_change_seq r \<le> sy_cursor s" and "r \<notin> set (sy_seen s)"
  shows "r_change_seq r \<le> sy_cursor s' \<and> r \<notin> set (sy_seen s')"
  using assms(1)
proof (induction rule: rtranclp_induct)
  case (step t t')
  from step.hyps(2) show ?case
  proof (cases rule: sync_step.cases)
    case (sync rows)
    then show ?thesis
      using step.IH list_changes_rows(3) [OF sync(2), of r] advance_bounds(1) [of "sy_cursor t" rows] by auto
  qed (use step.IH in simp_all)
qed (use assms(2,3) in simp)

text \<open>Two creates; the second commits first, the client syncs in between.\<close>

definition late_row :: resource where
  "late_row = inserted_row 20 5 (new_demo 7) 2"

definition early_row :: resource where
  "early_row = inserted_row 21 5 ((new_demo 7)\<lparr>nr_app_resource_id := 3\<rparr>) 3"

lemma late_commit_reachable:
  "(sync_step False 5 None 7 10)\<^sup>*\<^sup>* (sync_start demo_resources 1)
     \<lparr>sy_db = demo_resources\<lparr>resource_change_seq := 3, resources := [demo_resource, early_row, late_row]\<rparr>,
      sy_pending = [], sy_cursor = 3, sy_seen = [early_row]\<rparr>"
proof -
  let ?S = "\<lambda>n rs ps c seen. \<lparr>sy_db = demo_resources\<lparr>resource_change_seq := n, resources := rs\<rparr>,
      sy_pending = ps, sy_cursor = c, sy_seen = seen\<rparr>"
  let ?step = "sync_step False 5 None 7 10"
  note defs = demo_resources_def demo_resource_def late_row_def early_row_def inserted_row_def new_demo_def
    draw_seq_def
  have swap: "d\<lparr>resource_change_seq := n, resources := rs\<rparr> = d\<lparr>resources := rs, resource_change_seq := n\<rparr>"
    for d :: database and n rs by simp
  note defs = defs swap
  have start: "sync_start demo_resources 1 = ?S 1 [demo_resource] [] 1 []"
    by (simp add: sync_start_def demo_resources_def)
  have "?step (?S 1 [demo_resource] [] 1 []) (?S 2 [demo_resource] [late_row] 1 [])"
    using sync_step.insert [of 20 "?S 1 [demo_resource] [] 1 []" _ late_row 5 "new_demo 7" False 5 None 7 10]
    by (simp add: defs)
  moreover have "?step (?S 2 [demo_resource] [late_row] 1 []) (?S 3 [demo_resource] [late_row, early_row] 1 [])"
    using sync_step.insert [of 21 "?S 2 [demo_resource] [late_row] 1 []" _ early_row 5
        "(new_demo 7)\<lparr>nr_app_resource_id := 3\<rparr>" False 5 None 7 10]
    by (simp add: defs)
  moreover have "?step (?S 3 [demo_resource] [late_row, early_row] 1 [])
      (?S 3 [demo_resource, early_row] [late_row] 1 [])"
    using sync_step.commit [of "?S 3 [demo_resource] [late_row, early_row] 1 []" "[late_row]" early_row "[]" False _ 5 None 7 10]
    by (simp add: commit_row_def defs app_key_def app_ids_def user_ids_def)
  moreover have "?step (?S 3 [demo_resource, early_row] [late_row] 1 [])
      (?S 3 [demo_resource, early_row] [late_row] 3 [early_row])"
    using sync_step.sync [of 5 None 7 "?S 3 [demo_resource, early_row] [late_row] 1 []" 10 "[early_row]" False]
    by (simp add: list_changes_def query_def in_feed_def order_asc_def advance_def defs)
  moreover have "?step (?S 3 [demo_resource, early_row] [late_row] 3 [early_row])
      (?S 3 [demo_resource, early_row, late_row] [] 3 [early_row])"
    using sync_step.commit [of "?S 3 [demo_resource, early_row] [late_row] 3 [early_row]" "[]" late_row "[]" False _ 5 None 7 10]
    by (simp add: commit_row_def defs app_key_def app_ids_def user_ids_def)
  ultimately show ?thesis unfolding start by (meson rtranclp.rtrancl_refl rtranclp.rtrancl_into_rtrancl)
qed

text \<open>
  C18. What the change cursor guarantees under concurrency. If commits come in the order of the
  drawn numbers, a client that keeps the largest number it has seen has seen the current version
  of every row of its feed up to it, whatever the writers and its batches do. Without that order,
  which PostgreSQL does not give, a committed row can end up behind the cursor without ever
  having been delivered, and then no later sync delivers it.
\<close>

theorem change_feed_needs_order:
  "(\<forall>app_id type owner limit d start s r.
      db_ok d \<and> start \<le> resource_change_seq d
      \<and> (sync_step True app_id type owner limit)\<^sup>*\<^sup>* (sync_start d start) s
      \<and> r \<in> set (resources (sy_db s)) \<and> in_feed app_id type owner r
      \<and> start < r_change_seq r \<and> r_change_seq r \<le> sy_cursor s
      \<longrightarrow> r \<in> set (sy_seen s))
   \<and> (\<exists>d s r. db_ok d \<and> (sync_step False 5 None 7 10)\<^sup>*\<^sup>* (sync_start d (resource_change_seq d)) s
      \<and> sy_pending s = [] \<and> r \<in> set (resources (sy_db s)) \<and> in_feed 5 None 7 r
      \<and> resource_change_seq d < r_change_seq r
      \<and> (\<forall>s'. (sync_step False 5 None 7 10)\<^sup>*\<^sup>* s s' \<longrightarrow> r \<notin> set (sy_seen s')))"
proof (intro conjI allI impI)
  fix app_id type owner limit d start s r
  assume "db_ok d \<and> start \<le> resource_change_seq d
      \<and> (sync_step True app_id type owner limit)\<^sup>*\<^sup>* (sync_start d start) s
      \<and> r \<in> set (resources (sy_db s)) \<and> in_feed app_id type owner r
      \<and> start < r_change_seq r \<and> r_change_seq r \<le> sy_cursor s"
  then show "r \<in> set (sy_seen s)"
    using sync_inv_reachable [of app_id type owner limit d start s] by (simp add: sync_inv_def)
next
  let ?s = "\<lparr>sy_db = demo_resources\<lparr>resource_change_seq := 3, resources := [demo_resource, early_row, late_row]\<rparr>,
      sy_pending = [], sy_cursor = 3, sy_seen = [early_row]\<rparr>"
  have "late_row \<notin> set (sy_seen ?s)" "r_change_seq late_row = 2" "in_feed 5 None 7 late_row"
    by (simp_all add: late_row_def early_row_def inserted_row_def in_feed_def new_demo_def)
  then have "\<forall>s'. (sync_step False 5 None 7 10)\<^sup>*\<^sup>* ?s s' \<longrightarrow> late_row \<notin> set (sy_seen s')"
    using never_again [of False 5 None 7 10 ?s] by fastforce
  then show "\<exists>d s r. db_ok d \<and> (sync_step False 5 None 7 10)\<^sup>*\<^sup>* (sync_start d (resource_change_seq d)) s
      \<and> sy_pending s = [] \<and> r \<in> set (resources (sy_db s)) \<and> in_feed 5 None 7 r
      \<and> resource_change_seq d < r_change_seq r
      \<and> (\<forall>s'. (sync_step False 5 None 7 10)\<^sup>*\<^sup>* s s' \<longrightarrow> r \<notin> set (sy_seen s'))"
    using demo_resources_ok late_commit_reachable \<open>r_change_seq late_row = 2\<close> \<open>in_feed 5 None 7 late_row\<close>
    by (intro exI [of _ demo_resources] exI [of _ ?s] exI [of _ late_row]) (simp add: demo_resources_def)
qed

theorem change_feed_needs_order_witness:
  "demo_resource \<in> set (sy_seen ((sync_start demo_resources 0)\<lparr>sy_cursor := 1, sy_seen := [demo_resource]\<rparr>))"
proof -
  let ?s = "(sync_start demo_resources 0)\<lparr>sy_cursor := 1, sy_seen := [demo_resource]\<rparr>"
  have "sync_step True 5 None 7 10 (sync_start demo_resources 0) ?s"
    using sync_step.sync [of 5 None 7 "sync_start demo_resources 0" 10 "[demo_resource]" True]
    by (simp add: list_changes_def query_def in_feed_def order_asc_def advance_def sync_start_def
        demo_resources_def demo_resource_def)
  then have "(sync_step True 5 None 7 10)\<^sup>*\<^sup>* (sync_start demo_resources 0) ?s" by simp
  moreover have "demo_resource \<in> set (resources (sy_db ?s))" "in_feed 5 None 7 demo_resource"
    "0 \<le> resource_change_seq demo_resources" "0 < r_change_seq demo_resource"
    "r_change_seq demo_resource \<le> sy_cursor ?s"
    by (simp_all add: sync_start_def demo_resources_def demo_resource_def in_feed_def)
  ultimately show ?thesis
    using change_feed_needs_order [THEN conjunct1, rule_format, of demo_resources 0 5 None 7 10 ?s demo_resource]
      demo_resources_ok by blast
qed

end
