(* ===== verification/Resource_Refinement.thy ===== *)
theory Resource_Refinement
imports Session_Refinement Sync_Interleaving
begin

text \<open>
  What the resource repository promises, as an abstract store: a finite map from identifiers to rows and a
  clock that numbers the versions, with no order of rows and no SQL. A batch of the change feed is
  described by what it must contain. The statements on \<open>platform.resources\<close> are shown to implement
  it, answers included.
\<close>

section \<open>The abstract store\<close>

record resource_spec =
  rs_rows :: "uuid \<Rightarrow> resource option"
  rs_clock :: int
  rs_apps :: "uuid set"
  rs_owners :: "uuid set"

datatype resource_op =
  CreateOp uuid time new_resource
  | GetOp uuid uuid
  | UpdateOp time uuid uuid bytes bytes int "uuid option"
  | DeleteOp time uuid uuid
  | ChangesOp uuid "string option" uuid int int
  | PurgeOp uuid uuid

datatype resource_answer =
  Rejected sql_error | Stored resource | Found "resource option" | Deleted bool
  | Batch "resource list" | Purged "deleted_resource option"

definition visible :: "resource_spec \<Rightarrow> uuid \<Rightarrow> uuid \<Rightarrow> resource option" where
  "visible a i owner =
     (case rs_rows a i of None \<Rightarrow> None
      | Some r \<Rightarrow> if r_owner_user_id r = owner \<and> r_deleted_at r = None then Some r else None)"

definition revise ::
  "(int \<Rightarrow> resource \<Rightarrow> resource) \<Rightarrow> uuid \<Rightarrow> uuid \<Rightarrow> resource_spec \<Rightarrow> resource option \<times> resource_spec" where
  "revise f i owner a =
     (case visible a i owner of None \<Rightarrow> (None, a)
      | Some r \<Rightarrow> let q = f (rs_clock a + 1) r
          in (Some q, a\<lparr>rs_rows := (rs_rows a)(i := Some q), rs_clock := rs_clock a + 1\<rparr>))"

text \<open>
  A batch: rows that qualify, in the order of their versions, at most \<open>n\<close>; a row is left out only when the batch is
  full, and then it is newer than all of them.
\<close>

definition is_batch :: "(resource \<Rightarrow> bool) \<Rightarrow> nat \<Rightarrow> (uuid \<Rightarrow> resource option) \<Rightarrow> resource list \<Rightarrow> bool" where
  "is_batch P n m rows \<longleftrightarrow>
     sorted_wrt (<) (map r_change_seq rows) \<and> length rows \<le> n \<and> set rows \<subseteq> {r \<in> ran m. P r}
     \<and> (\<forall>r \<in> ran m. P r \<and> r \<notin> set rows \<longrightarrow> length rows = n \<and> (\<forall>q \<in> set rows. r_change_seq q < r_change_seq r))"

fun allows :: "resource_op \<Rightarrow> resource_spec \<Rightarrow> resource_answer \<Rightarrow> resource_spec \<Rightarrow> bool" where
  "allows (CreateOp i now new) a x a' \<longleftrightarrow>
     (let k = rs_clock a + 1; r = inserted_row i now new k in
      if rs_rows a i \<noteq> None \<or> app_key r \<in> app_key ` ran (rs_rows a)
      then x = Rejected UniqueViolation \<and> a' = a\<lparr>rs_clock := k\<rparr>
      else if nr_app_id new \<notin> rs_apps a \<or> nr_owner_user_id new \<notin> rs_owners a
      then x = Rejected ForeignKeyViolation \<and> a' = a\<lparr>rs_clock := k\<rparr>
      else x = Stored r \<and> a' = a\<lparr>rs_rows := (rs_rows a)(i := Some r), rs_clock := k\<rparr>)"
| "allows (GetOp i owner) a x a' \<longleftrightarrow> x = Found (visible a i owner) \<and> a' = a"
| "allows (UpdateOp now i owner blob sig version parent) a x a' \<longleftrightarrow>
     (x, a') = map_prod Found (\<lambda>b. b) (revise (updated_row now owner blob sig version parent) i owner a)"
| "allows (DeleteOp now i owner) a x a' \<longleftrightarrow>
     (x, a') = map_prod (\<lambda>q. Deleted (q \<noteq> None)) (\<lambda>b. b) (revise (deleted_row now) i owner a)"
| "allows (ChangesOp app_id type owner cursor limit) a x a' \<longleftrightarrow> a' = a
     \<and> (if limit < 0 then x = Rejected DataError
        else \<exists>rows. x = Batch rows
          \<and> is_batch (\<lambda>r. in_feed app_id type owner r \<and> cursor < r_change_seq r) (nat limit) (rs_rows a) rows)"
| "allows (PurgeOp app_id i) a x a' \<longleftrightarrow>
     (case rs_rows a i of
        Some r \<Rightarrow> if r_app_id r = app_id
          then x = Purged (Some \<lparr>dr_id = i, dr_app_id = app_id, dr_resource_type = r_resource_type r,
                dr_app_resource_id = r_app_resource_id r, dr_owner_user_id = r_owner_user_id r\<rparr>)
            \<and> a' = a\<lparr>rs_rows := (rs_rows a)(i := None)\<rparr>
          else x = Purged None \<and> a' = a
      | None \<Rightarrow> x = Purged None \<and> a' = a)"

fun follows :: "resource_op list \<Rightarrow> resource_spec \<Rightarrow> resource_answer list \<Rightarrow> resource_spec \<Rightarrow> bool" where
  "follows [] a xs a' \<longleftrightarrow> xs = [] \<and> a' = a"
| "follows (c # cs) a xs a' \<longleftrightarrow> (\<exists>x ys b. xs = x # ys \<and> allows c a x b \<and> follows cs b ys a')"

text \<open>The description leaves no choice: distinct versions have one batch.\<close>

lemma is_batch_unique:
  assumes "inj_on r_change_seq (ran m)" and xs: "is_batch P n m xs" and ys: "is_batch P n m ys"
  shows "xs = ys"
proof -
  have half: "set us \<subseteq> set vs" if u: "is_batch P n m us" and v: "is_batch P n m vs" for us vs
  proof (rule ccontr)
    assume "\<not> set us \<subseteq> set vs"
    then obtain r where r: "r \<in> set us" "r \<notin> set vs" by blast
    then have full: "length vs = n" "\<forall>q \<in> set vs. r_change_seq q < r_change_seq r"
      using u v by (auto simp: is_batch_def)
    then have "set vs \<subseteq> set us" using u v r(1) unfolding is_batch_def by fastforce
    moreover have "distinct us" "distinct vs"
      using u v by (auto simp: is_batch_def strict_sorted_iff distinct_map)
    ultimately have "set vs = set us"
      using u full(1) by (intro card_seteq) (simp_all add: distinct_card is_batch_def)
    with r show False by simp
  qed
  have same: "set xs = set ys" using half [OF xs ys] half [OF ys xs] by blast
  have "map r_change_seq xs = map r_change_seq ys"
    using xs ys same by (intro sorted_distinct_set_unique) (auto simp: is_batch_def strict_sorted_iff)
  moreover have "inj_on r_change_seq (set xs \<union> set ys)"
    using xs same assms(1) by (auto simp: is_batch_def intro: inj_on_subset)
  ultimately show ?thesis by (rule map_inj_on)
qed

section \<open>The statements behind it\<close>

definition result_of :: "('a \<Rightarrow> resource_answer) \<Rightarrow> 'a stmt \<Rightarrow> database \<Rightarrow> resource_answer \<times> database" where
  "result_of f st d = (case st d of (Inl e, d') \<Rightarrow> (Rejected e, d') | (Inr a, d') \<Rightarrow> (f a, d'))"

fun resource_run :: "resource_op \<Rightarrow> database \<Rightarrow> resource_answer \<times> database" where
  "resource_run (CreateOp i now new) = result_of Stored (resource_create i now new)"
| "resource_run (GetOp i owner) = result_of Found (get_owned i owner)"
| "resource_run (UpdateOp now i owner blob sig version parent) =
     result_of Found (update_owned now i owner blob sig version parent)"
| "resource_run (DeleteOp now i owner) = result_of Deleted (soft_delete_owned now i owner)"
| "resource_run (ChangesOp app_id type owner cursor limit) =
     result_of Batch (list_changes app_id type owner cursor limit)"
| "resource_run (PurgeOp app_id i) = result_of Purged (admin_hard_delete app_id i)"

section \<open>Abstraction\<close>

definition row_at :: "resource list \<Rightarrow> uuid \<Rightarrow> resource option" where
  "row_at rs i = fetch_optional (filter (\<lambda>r. r_id r = i) rs)"

definition abs_resources :: "database \<Rightarrow> resource_spec" where
  "abs_resources d = \<lparr>rs_rows = row_at (resources d), rs_clock = resource_change_seq d,
     rs_apps = app_ids d, rs_owners = user_ids d\<rparr>"

lemma row_at_iff:
  assumes "keyed r_id rs"
  shows "row_at rs i = Some r \<longleftrightarrow> r \<in> set rs \<and> r_id r = i"
proof
  assume "r \<in> set rs \<and> r_id r = i"
  then show "row_at rs i = Some r" unfolding row_at_def by (intro fetch_keyed [OF assms]) auto
qed (auto simp: row_at_def dest: fetch_filter_SomeD)

lemma row_at_None: "row_at rs i = None \<longleftrightarrow> i \<notin> r_id ` set rs"
  by (auto simp: row_at_def filter_empty_conv)

lemma ran_row_at: "keyed r_id rs \<Longrightarrow> ran (row_at rs) = set rs"
  by (auto simp: ran_def row_at_iff)

lemma row_at_snoc:
  assumes "r_id r \<notin> r_id ` set rs"
  shows "row_at (rs @ [r]) = (row_at rs)(r_id r := Some r)"
proof
  fix i
  have "filter (\<lambda>q. r_id q = r_id r) rs = []" using assms by (auto simp: filter_empty_conv image_iff)
  then show "row_at (rs @ [r]) i = ((row_at rs)(r_id r := Some r)) i" by (simp add: row_at_def)
qed

lemma row_at_upd:
  assumes "keyed r_id rs" and "r \<in> set rs" and "p r" and "\<And>q. p q \<Longrightarrow> r_id q = r_id r"
    and "\<And>q. r_id (f q) = r_id q"
  shows "row_at (upd_where p f rs) = (row_at rs)(r_id r := Some (f r))"
proof
  fix i
  have k: "keyed r_id (upd_where p f rs)" using assms(1,5) by simp
  show "row_at (upd_where p f rs) i = ((row_at rs)(r_id r := Some (f r))) i"
  proof (cases "i = r_id r")
    case True
    have "row_at (upd_where p f rs) (r_id r) = Some (f r)"
      using assms(2,3,5) by (simp add: row_at_iff [OF k] set_upd_where)
    with True show ?thesis by simp
  next
    case False
    have "row_at (upd_where p f rs) i = Some e \<longleftrightarrow> row_at rs i = Some e" for e
      using False assms(4,5) by (auto simp: row_at_iff [OF k] row_at_iff [OF assms(1)] set_upd_where)
    then show ?thesis using False by (simp add: option_eqI)
  qed
qed

lemma row_at_remove:
  assumes "keyed r_id rs" and "r \<in> set rs" and "P r"
  shows "row_at (filter (\<lambda>q. \<not> (r_id q = r_id r \<and> P q)) rs) = (row_at rs)(r_id r := None)"
proof
  fix i
  have "filter (\<lambda>q. \<not> (r_id q = r_id r \<and> P q)) rs = filter (\<lambda>q. r_id q \<noteq> r_id r) rs"
    using keyed_eqD [OF assms(1) _ assms(2)] assms(3) by (intro filter_cong) auto
  then show "row_at (filter (\<lambda>q. \<not> (r_id q = r_id r \<and> P q)) rs) i = ((row_at rs)(r_id r := None)) i"
    by (cases "i = r_id r") (auto simp: row_at_def intro: filter_cong arg_cong [where f = fetch_optional])
qed

section \<open>Every statement implements its abstract operation\<close>

lemmas result_defs = result_of_def sql_ok_def sql_err_def query_def Let_def abs_resources_def

lemma resources_keyed:
  assumes "db_ok d"
  shows "keyed r_id (resources d)" and "keyed r_change_seq (resources d)"
  using db_okD(27) [OF assms] by (simp_all add: resources_ok_def)

lemma visible_fetch:
  assumes "db_ok d"
  shows "visible (abs_resources d) i owner = fetch_optional (filter (owned_live i owner) (resources d))"
proof (rule option_eqI)
  fix r
  have "visible (abs_resources d) i owner = Some r
      \<longleftrightarrow> row_at (resources d) i = Some r \<and> r_owner_user_id r = owner \<and> r_deleted_at r = None"
    by (auto simp: visible_def abs_resources_def split: option.splits)
  then show "visible (abs_resources d) i owner = Some r
      \<longleftrightarrow> fetch_optional (filter (owned_live i owner) (resources d)) = Some r"
    unfolding owned_live_fetch [OF assms] row_at_iff [OF resources_keyed(1) [OF assms]] owned_live_def by blast
qed

lemma versions_written:
  "update_owned now i owner blob sig version parent = update_live i owner (updated_row now owner blob sig version parent)"
  "soft_delete_owned now i owner d = (case update_live i owner (deleted_row now) d of
     (Inl e, d') \<Rightarrow> (Inl e, d') | (Inr q, d') \<Rightarrow> (Inr (q \<noteq> None), d'))"
  by (simp_all add: update_owned_def soft_delete_owned_def updated_row_def [abs_def] deleted_row_def [abs_def])

text \<open>A new version of a visible row; both updates of the repository are of this form.\<close>

lemma update_live_refines:
  assumes "db_ok d" and "\<And>k r. r_id (f k r) = r_id r"
  shows "\<exists>q d'. update_live i owner f d = (Inr q, d') \<and> revise f i owner (abs_resources d) = (q, abs_resources d')"
proof (cases "fetch_optional (filter (owned_live i owner) (resources d))")
  case None
  then show ?thesis by (simp add: update_live_def sql_ok_def revise_def visible_fetch [OF assms(1)])
next
  case (Some r)
  then have r: "r \<in> set (resources d)" "owned_live i owner r" by (simp_all add: owned_live_fetch [OF assms(1)])
  have "row_at (upd_where (owned_live i owner) (f k) (resources d)) = (row_at (resources d))(i := Some (f k r))" for k
    using row_at_upd [OF resources_keyed(1) [OF assms(1)] r(1), of "owned_live i owner" "f k"] assms(2) r(2)
    by (simp add: owned_live_def)
  moreover have "visible (abs_resources d) i owner = Some r" using Some by (simp add: visible_fetch [OF assms(1)])
  ultimately show ?thesis
    using Some unfolding update_live_def revise_def
    by (simp add: sql_ok_def Let_def) (simp add: abs_resources_def app_ids_def user_ids_def)
qed

lemma create_refines:
  assumes "db_ok d" and "resource_run (CreateOp i now new) d = (x, d')"
  shows "allows (CreateOp i now new) (abs_resources d) x (abs_resources d')"
proof -
  have ran: "ran (row_at (resources d)) = set (resources d)" by (rule ran_row_at [OF resources_keyed(1) [OF assms(1)]])
  let ?r = "inserted_row i now new (resource_change_seq d + 1)"
  have "row_at (resources d @ [?r]) = (row_at (resources d))(i := Some ?r)" if "i \<notin> r_id ` set (resources d)"
    using row_at_snoc [of ?r] that by (simp add: inserted_row_def)
  then show ?thesis
    using assms(2)
    by (auto simp: resource_create_def inserted_row_def result_defs ran row_at_None app_ids_def user_ids_def
        split: if_splits)
qed

lemma is_batch_take:
  assumes "keyed r_id rs" and "sorted_wrt (<) (map r_change_seq fs)" and "set fs = {r \<in> set rs. P r}"
  shows "is_batch P n (row_at rs) (take n fs)"
proof -
  have "r_change_seq q < r_change_seq r" if "q \<in> set (take n fs)" "r \<in> set (drop n fs)" for q r
  proof -
    have "sorted_wrt (<) (map r_change_seq (take n fs) @ map r_change_seq (drop n fs))"
      using assms(2) by (simp flip: map_append)
    with that show ?thesis by (simp add: sorted_wrt_append)
  qed
  moreover have "sorted_wrt (<) (map r_change_seq (take n fs))"
    using assms(2) by (metis sorted_wrt_take take_map)
  moreover have "r \<in> set (drop n fs) \<and> length (take n fs) = n" if "r \<in> set fs" "r \<notin> set (take n fs)" for r
  proof -
    have "r \<in> set (drop n fs)" using that append_take_drop_id [of n fs] by (metis Un_iff set_append)
    moreover have "n \<le> length fs" using that by (cases "n \<le> length fs") auto
    ultimately show ?thesis by simp
  qed
  ultimately show ?thesis
    using assms(3) by (auto simp: is_batch_def ran_row_at [OF assms(1)] dest: in_set_takeD)
qed

lemma changes_refines:
  assumes "db_ok d" and "resource_run (ChangesOp app_id type owner cursor limit) d = (x, d')"
  shows "allows (ChangesOp app_id type owner cursor limit) (abs_resources d) x (abs_resources d')"
proof (cases "limit < 0")
  case True
  with assms(2) show ?thesis by (simp add: list_changes_def result_defs)
next
  case False
  let ?P = "\<lambda>r. in_feed app_id type owner r \<and> cursor < r_change_seq r"
  let ?rows = "take (nat limit) (feed app_id type owner cursor d)"
  have "x = Batch ?rows" "d' = d"
    using assms(2) False by (auto simp: list_changes_def result_of_def query_def feed_def)
  moreover have "is_batch ?P (nat limit) (row_at (resources d)) ?rows"
    using feed_strict [OF assms(1)]
    by (intro is_batch_take resources_keyed(1) [OF assms(1)]) (auto simp: feed_def)
  ultimately show ?thesis using False by (simp add: abs_resources_def)
qed

lemma purge_refines:
  assumes "db_ok d" and "resource_run (PurgeOp app_id i) d = (x, d')"
  shows "allows (PurgeOp app_id i) (abs_resources d) x (abs_resources d')"
proof -
  note k = resources_keyed(1) [OF assms(1)]
  let ?p = "\<lambda>r. r_id r = i \<and> r_app_id r = app_id"
  show ?thesis
  proof (cases "fetch_optional (filter ?p (resources d))")
    case None
    then have none: "\<not> ?p r" if "r \<in> set (resources d)" for r using that by (auto simp: filter_empty_conv)
    then have "filter (\<lambda>r. \<not> ?p r) (resources d) = resources d" by (simp add: filter_id_conv)
    then have "x = Purged None" "d' = d"
      using assms(2) None by (simp_all add: admin_hard_delete_def result_defs)
    then show ?thesis using none by (auto simp: abs_resources_def row_at_iff [OF k] split: option.splits)
  next
    case (Some r)
    then have r: "r \<in> set (resources d)" "r_id r = i" "r_app_id r = app_id" by (auto dest: fetch_filter_SomeD)
    then have "row_at (resources d) i = Some r" by (simp add: row_at_iff [OF k])
    then show ?thesis
      using assms(2) Some r row_at_remove [OF k r(1), of "\<lambda>r. r_app_id r = app_id"]
      by (auto simp: admin_hard_delete_def result_defs app_ids_def user_ids_def)
  qed
qed

lemma snd_result_of: "snd (result_of f st d) = snd (st d)"
  by (simp add: result_of_def split: prod.splits sum.splits)

lemma resource_step_refines:
  assumes "db_ok d" and "resource_run c d = (x, d')"
  shows "allows c (abs_resources d) x (abs_resources d') \<and> db_ok d'"
proof
  show "allows c (abs_resources d) x (abs_resources d')"
  proof (cases c)
    case (GetOp i owner)
    then show ?thesis
      using assms(2) visible_fetch [OF assms(1), of i owner] by (auto simp: get_owned_def result_of_def query_def)
  next
    case (UpdateOp now i owner blob sig version parent)
    then show ?thesis
      using update_live_refines [OF assms(1), of "updated_row now owner blob sig version parent" i owner] assms(2)
      by (auto simp: versions_written updated_row_def result_of_def)
  next
    case (DeleteOp now i owner)
    then show ?thesis
      using update_live_refines [OF assms(1), of "deleted_row now" i owner] assms(2)
      by (auto simp: versions_written deleted_row_def result_of_def)
  qed (use assms create_refines changes_refines purge_refines in simp_all)
  have "db_keep d (snd (resource_run c d))"
    by (cases c) (auto simp: snd_result_of get_owned_def list_changes_def query_def sql_err_def integrity.R_refl
        intro: resource_create_keep resource_statements_keep)
  with assms show "db_ok d'" by (simp add: db_keep_def)
qed

text \<open>
  C10. The resource repository implements the abstract store of versioned documents: from a database
  that meets its constraints, every sequence of creations, reads, updates, deletions, catch-ups and
  purges gets from the statements exactly the answers that the abstract store allows, and ends in
  a database that abstracts to its final state and again meets the constraints. In particular each
  change gets a version of its own, nobody reads or changes the document of another owner or a
  deleted one, and a batch of the feed leaves nothing out that is older than something in it.
\<close>

theorem resource_store_refines:
  assumes "db_ok d" and "runs resource_run ops d = (answers, d')"
  shows "follows ops (abs_resources d) answers (abs_resources d') \<and> db_ok d'"
  using assms
proof (induction ops arbitrary: d answers d')
  case (Cons c cs)
  obtain x d1 where step: "resource_run c d = (x, d1)" by fastforce
  obtain xs d2 where rest: "runs resource_run cs d1 = (xs, d2)" by fastforce
  from resource_step_refines [OF Cons.prems(1) step]
  have "allows c (abs_resources d) x (abs_resources d1)" "db_ok d1" by simp_all
  with Cons.IH [OF _ rest] Cons.prems(2) step rest show ?case by auto
qed simp

theorem resource_store_refines_witness:
  "fst (runs resource_run [GetOp 9 8, DeleteOp 3 9 7, GetOp 9 7, ChangesOp 5 None 7 1 10] demo_resources)
     = [Found None, Deleted True, Found None, Batch [deleted_row 3 2 demo_resource]]
   \<and> db_ok (snd (runs resource_run [GetOp 9 8, DeleteOp 3 9 7, GetOp 9 7, ChangesOp 5 None 7 1 10] demo_resources))"
proof -
  let ?ops = "[GetOp 9 8, DeleteOp 3 9 7, GetOp 9 7, ChangesOp 5 None 7 1 10]"
  obtain answers d' where run: "runs resource_run ?ops demo_resources = (answers, d')" by fastforce
  have "fst (runs resource_run ?ops demo_resources)
      = [Found None, Deleted True, Found None, Batch [deleted_row 3 2 demo_resource]]"
    by (simp add: result_of_def sql_ok_def get_owned_def soft_delete_owned_def update_live_def list_changes_def
        query_def owned_live_def in_feed_def order_asc_def deleted_row_def demo_resources_def demo_resource_def)
  with resource_store_refines [OF demo_resources_ok run] run show ?thesis by simp
qed

end
