(* ===== verification/Auth_Credentials.thy ===== *)
theory Auth_Credentials
imports Integrity Audit_Log
begin

text \<open>
  The crate \<open>auth\<close>: password verifiers (Argon2id is a parameter) and the credentials table.
\<close>

section \<open>Operations\<close>

datatype auth_error = HashFailed | MalformedHash | Crypto | AuthDatabase sql_error

datatype credential_outcome = UnknownEmail | WrongPassword

definition hash_password :: "ext \<Rightarrow> string \<Rightarrow> (auth_error, string) action" where
  "hash_password X password =
     andthen (draw (\<lambda>n. argon2_hash X n (as_bytes password))) (\<lambda>phc. need phc HashFailed)"

definition verify_password :: "ext \<Rightarrow> string \<Rightarrow> string \<Rightarrow> auth_error + bool" where
  "verify_password X password phc =
     (if \<not> phc_parses X phc then Inl MalformedHash
      else case argon2_verify X (as_bytes password) phc of
             PwMatch \<Rightarrow> Inr True | PwMismatch \<Rightarrow> Inr False | PwOther \<Rightarrow> Inl MalformedHash)"

definition verify_user_password :: "ext \<Rightarrow> uuid \<Rightarrow> string \<Rightarrow> (auth_error, bool) action" where
  "verify_user_password X user_id password =
     andthen (map_err AuthDatabase (exec X (\<lambda>_. query (\<lambda>d. map_option c_password_hash
        (fetch_optional (filter (\<lambda>c. c_user_id c = user_id) (credentials d))))))) (\<lambda>row.
     case row of None \<Rightarrow> ret False | Some hash \<Rightarrow> from_sum (verify_password X password hash))"

text \<open>The join of \<open>verify_credentials\<close>: an active account and its verifier.\<close>

definition credentials_join :: "string \<Rightarrow> database \<Rightarrow> (user \<times> credential) list" where
  "credentials_join email d =
     concat (map (\<lambda>u. map (Pair u) (filter (\<lambda>c. c_user_id c = u_id u) (credentials d)))
       (filter (\<lambda>u. email_lower u = lower email \<and> u_lifecycle u = Active) (users d)))"

definition verify_credentials ::
  "ext \<Rightarrow> string \<Rightarrow> string \<Rightarrow> (auth_error, credential_outcome + user) action" where
  "verify_credentials X email password =
     andthen (map_err AuthDatabase (exec X (\<lambda>_. query (\<lambda>d. fetch_optional (credentials_join email d)))))
       (\<lambda>row. case row of
          None \<Rightarrow> ret (Inl UnknownEmail)
        | Some (user, cred) \<Rightarrow>
            andthen (from_sum (verify_password X password (c_password_hash cred))) (\<lambda>password_ok.
            if password_ok then ret (Inr user) else ret (Inl WrongPassword)))"

definition update_password_hash :: "time \<Rightarrow> uuid \<Rightarrow> string \<Rightarrow> unit stmt" where
  "update_password_hash now user_id new_phc d = sql_ok () (d\<lparr>credentials :=
     upd_where (\<lambda>c. c_user_id c = user_id)
       (\<lambda>c. c\<lparr>c_password_hash := new_phc, c_updated_at := now\<rparr>) (credentials d)\<rparr>)"

definition delete_credentials :: "uuid \<Rightarrow> unit stmt" where
  "delete_credentials user_id d =
     sql_ok () (d\<lparr>credentials := filter (\<lambda>c. c_user_id c \<noteq> user_id) (credentials d)\<rparr>)"

definition create_credentials :: "time \<Rightarrow> uuid \<Rightarrow> string \<Rightarrow> unit stmt" where
  "create_credentials now user_id phc d =
     (if user_id \<in> c_user_id ` set (credentials d) then sql_err UniqueViolation d
      else if user_id \<notin> user_ids d then sql_err ForeignKeyViolation d
      else sql_ok () (d\<lparr>credentials := credentials d
        @ [\<lparr>c_user_id = user_id, c_password_hash = phc, c_created_at = now, c_updated_at = now\<rparr>]\<rparr>))"

definition has_second_factor :: "uuid \<Rightarrow> bool stmt" where
  "has_second_factor user_id = query (\<lambda>d.
     0 < count_where (\<lambda>t. tc_user_id t = user_id \<and> tc_verified_at t \<noteq> None) (totp_credentials d)
       + count_where (\<lambda>k. wa_user_id k = user_id) (webauthn_credentials d))"

section \<open>Facts\<close>

lemma credential_statements_keep:
  "db_keep d (snd (update_password_hash now uid phc d))"
  "db_keep d (snd (delete_credentials uid d))"
  "db_keep d (snd (create_credentials now uid phc d))"
  using db_okD(13,14) [of d]
  by (auto simp: update_password_hash_def delete_credentials_def create_credentials_def
      intro!: db_keepI db_ok_table keyed_filter refs_filter)

lemma verify_password_Inr:
  "verify_password X password phc = Inr b \<longleftrightarrow>
     phc_parses X phc \<and> argon2_verify X (as_bytes password) phc = (if b then PwMatch else PwMismatch)"
  by (auto simp: verify_password_def split: pw_outcome.splits)

lemma credentials_join_mem:
  "(u, c) \<in> set (credentials_join email d) \<longleftrightarrow>
     u \<in> set (users d) \<and> c \<in> set (credentials d) \<and> c_user_id c = u_id u
     \<and> email_lower u = lower email \<and> u_lifecycle u = Active"
  by (auto simp: credentials_join_def)

lemma verify_credentials_ok:
  assumes "verify_credentials X email password w = (Inr (Inr user), w')"
  shows "\<exists>c. (user, c) \<in> set (credentials_join email (w_db w))
    \<and> verify_password X password (c_password_hash c) = Inr True"
    and "w' = w\<lparr>w_tick := Suc (w_tick w)\<rparr>"
  using assms
  by (auto simp: verify_credentials_def exec_query_run elim!: andthen_eq_InrE
      split: option.splits if_splits dest!: fetch_optional_SomeD) blast

lemma credentials_join_unique:
  assumes "db_ok d" and "(u, c) \<in> set (credentials_join email d)"
  shows "fetch_optional (credentials_join email d) = Some (u, c)"
proof -
  have k: "keyed email_lower (users d)" "keyed c_user_id (credentials d)"
    using db_okD(2,13) [OF assms(1)] by simp_all
  have uniq: "p = (u, c)" if "p \<in> set (credentials_join email d)" for p
  proof (cases p)
    case (Pair v b)
    have "v = u" using k(1) that assms(2) Pair
      by (intro keyed_eqD [OF k(1)]) (auto simp: credentials_join_mem)
    moreover from this have "b = c" using that assms(2) Pair
      by (intro keyed_eqD [OF k(2)]) (auto simp: credentials_join_mem)
    ultimately show ?thesis using Pair by simp
  qed
  show ?thesis
  proof (cases "fetch_optional (credentials_join email d)")
    case None
    with assms(2) show ?thesis by simp
  next
    case (Some p)
    with uniq [OF fetch_optional_SomeD [OF Some]] show ?thesis by simp
  qed
qed

lemma verify_credentials_no_fault:
  assumes "no_faults X"
  shows "verify_credentials X email password w =
    (case fetch_optional (credentials_join email (w_db w)) of
       None \<Rightarrow> Inr (Inl UnknownEmail)
     | Some (user, c) \<Rightarrow>
         (case verify_password X password (c_password_hash c) of
            Inl e \<Rightarrow> Inl e | Inr b \<Rightarrow> Inr (if b then Inr user else Inl WrongPassword)),
     w\<lparr>w_tick := Suc (w_tick w)\<rparr>)"
  using assms
  by (simp add: verify_credentials_def andthen_def map_err_def exec_query_run no_faults_def
      split: option.splits sum.splits prod.splits)

section \<open>Properties\<close>

text \<open>
  C26. \<open>verify_credentials\<close> decides exactly: with a working connection and a database that
  satisfies its constraints, it answers with a user precisely when that user's account is
  active, its address matches ignoring case, and the stored verifier accepts the password;
  it says \<open>UnknownEmail\<close> precisely when no active account with a verifier has the address.
\<close>

theorem verify_credentials_exact:
  assumes "no_faults X" and "db_ok (w_db w)"
  shows "(fst (verify_credentials X email password w) = Inr (Inr u) \<longleftrightarrow>
      (\<exists>c. u \<in> set (users (w_db w)) \<and> c \<in> set (credentials (w_db w)) \<and> c_user_id c = u_id u
         \<and> lower (u_email u) = lower email \<and> u_lifecycle u = Active
         \<and> verify_password X password (c_password_hash c) = Inr True))
    \<and> (fst (verify_credentials X email password w) = Inr (Inl UnknownEmail) \<longleftrightarrow>
       \<not> (\<exists>v c. v \<in> set (users (w_db w)) \<and> c \<in> set (credentials (w_db w)) \<and> c_user_id c = u_id v
            \<and> lower (u_email v) = lower email \<and> u_lifecycle v = Active))"
proof (cases "fetch_optional (credentials_join email (w_db w))")
  case None
  then have "\<not> (v \<in> set (users (w_db w)) \<and> c \<in> set (credentials (w_db w)) \<and> c_user_id c = u_id v
      \<and> lower (u_email v) = lower email \<and> u_lifecycle v = Active)" for v c
    using credentials_join_mem [of v c email "w_db w"] by (auto simp: email_lower_def)
  with None show ?thesis by (auto simp: verify_credentials_no_fault [OF assms(1)])
next
  case (Some p)
  obtain v c where p: "p = (v, c)" by (cases p)
  then have vc: "(v, c) \<in> set (credentials_join email (w_db w))"
    using Some by (auto dest: fetch_optional_SomeD)
  have uniq: "v' = v \<and> c' = c" if "v' \<in> set (users (w_db w))" "c' \<in> set (credentials (w_db w))"
      "c_user_id c' = u_id v'" "lower (u_email v') = lower email" "u_lifecycle v' = Active" for v' c'
    using credentials_join_unique [OF assms(2), of v' c' email] Some p that
    by (simp add: credentials_join_mem email_lower_def)
  have here: "v \<in> set (users (w_db w))" "c \<in> set (credentials (w_db w))" "c_user_id c = u_id v"
    "lower (u_email v) = lower email" "u_lifecycle v = Active"
    using vc by (auto simp: credentials_join_mem email_lower_def)
  have run: "fst (verify_credentials X email password w) =
      (case verify_password X password (c_password_hash c) of
         Inl e \<Rightarrow> Inl e | Inr b \<Rightarrow> Inr (if b then Inr v else Inl WrongPassword))"
    using Some p by (simp add: verify_credentials_no_fault [OF assms(1)])
  have "fst (verify_credentials X email password w) = Inr (Inr u) \<longleftrightarrow>
      u = v \<and> verify_password X password (c_password_hash c) = Inr True"
    unfolding run by (auto split: sum.splits)
  moreover have "fst (verify_credentials X email password w) \<noteq> Inr (Inl UnknownEmail)"
    unfolding run by (auto split: sum.splits)
  ultimately show ?thesis using here uniq by metis
qed

text \<open>
  A stored password works: an account with credentials written from \<open>hash_password\<close> of a
  password is admitted by \<open>verify_user_password\<close> with that password, and no longer after
  \<open>delete_credentials\<close>, which answers \<open>false\<close> for every password.
\<close>

theorem stored_password_verifies:
  assumes "no_faults X" and "argon2_sound X" and "db_ok (w_db w)" and "uid \<in> user_ids (w_db w)"
    and "uid \<notin> c_user_id ` set (credentials (w_db w))"
    and "argon2_hash X i (as_bytes password) = Some phc"
  shows "\<exists>d'. create_credentials now uid phc (w_db w) = (Inr (), d')
    \<and> fst (verify_user_password X uid password (w\<lparr>w_db := d'\<rparr>)) = Inr True
    \<and> (\<forall>pw. fst (verify_user_password X uid pw
          (w\<lparr>w_db := snd (delete_credentials uid d')\<rparr>)) = Inr False)"
proof -
  let ?c = "\<lparr>c_user_id = uid, c_password_hash = phc, c_created_at = now, c_updated_at = now\<rparr>"
  let ?d' = "(w_db w)\<lparr>credentials := credentials (w_db w) @ [?c]\<rparr>"
  have run: "create_credentials now uid phc (w_db w) = (Inr (), ?d')"
    using assms(4,5) by (simp add: create_credentials_def sql_ok_def)
  have "filter (\<lambda>c. c_user_id c = uid) (credentials (w_db w)) = []"
    using assms(5) by (auto simp: filter_empty_conv)
  moreover have "verify_password X password phc = Inr True"
    using assms(2,6) by (auto simp: verify_password_Inr argon2_sound_def)
  ultimately have "fst (verify_user_password X uid password (w\<lparr>w_db := ?d'\<rparr>)) = Inr True"
    using assms(1) by (simp add: verify_user_password_def andthen_def map_err_def exec_query_run no_faults_def)
  moreover have "fst (verify_user_password X uid pw (w\<lparr>w_db := snd (delete_credentials uid ?d')\<rparr>)) = Inr False" for pw
    using assms(1)
    by (simp add: verify_user_password_def andthen_def map_err_def exec_query_run no_faults_def
        delete_credentials_def)
  ultimately show ?thesis using run by blast
qed

definition credentials_world :: world where
  "credentials_world = demo_world\<lparr>w_db := empty_db\<lparr>
     users := [\<lparr>u_id = 7, u_email = ''Ada@b.c'', u_display_name = ''Ada'', u_lifecycle = Active,
       u_instance_role = Owner, u_kind = KindMember, u_locale = None, u_created_at = 0, u_updated_at = 0\<rparr>],
     credentials := [\<lparr>c_user_id = 7, c_password_hash = hex_encode (as_bytes ''pw''),
       c_created_at = 0, c_updated_at = 0\<rparr>]\<rparr>\<rparr>"

lemma credentials_world_ok: "db_ok (w_db credentials_world)"
  using empty_db_ok
  by (simp add: credentials_world_def db_ok_def user_ids_def table_ok_defs machine_ids_def app_ids_def)

theorem verify_credentials_exact_witness:
  "\<exists>u. fst (verify_credentials demo_ext ''ADA@b.c'' ''pw'' credentials_world) = Inr (Inr u) \<and> u_id u = 7"
proof -
  have "lower ''Ada@b.c'' = lower ''ADA@b.c''" by code_simp
  then show ?thesis
    using verify_credentials_exact [of demo_ext credentials_world "''ADA@b.c''" "''pw''"
        "hd (users (w_db credentials_world))"] credentials_world_ok
    by (simp add: demo_ext_documented verify_password_Inr) (simp add: credentials_world_def)
qed

theorem stored_password_verifies_witness:
  "\<exists>d'. create_credentials 0 7 (hex_encode (as_bytes ''pw'')) (empty_db\<lparr>users := users (w_db credentials_world)\<rparr>)
       = (Inr (), d')
     \<and> fst (verify_user_password demo_ext 7 ''pw'' (demo_world\<lparr>w_db := d'\<rparr>)) = Inr True"
proof -
  have "db_ok (empty_db\<lparr>users := users (w_db credentials_world)\<rparr>)"
    using credentials_world_ok empty_db_ok
    by (simp add: credentials_world_def db_ok_def user_ids_def table_ok_defs machine_ids_def app_ids_def)
  then show ?thesis
    using stored_password_verifies [of demo_ext "demo_world\<lparr>w_db := empty_db\<lparr>users := users (w_db credentials_world)\<rparr>\<rparr>"
        7 0 "''pw''" "hex_encode (as_bytes ''pw'')" 0]
    by (auto simp: demo_ext_documented user_ids_def credentials_world_def)
qed

end
