(* ===== verification/Totp.thy ===== *)
theory Totp
imports Externals "HOL-Library.Signed_Division"
begin

text \<open>
  \<open>auth::totp\<close>: RFC 6238 codes over HMAC-SHA1 (a parameter). Unix times are \<open>i64\<close> values as
  integers, a step counter is turned into its eight big-endian bytes through \<open>u64\<close>, and the
  truncation works on 32-bit words as the code does.
\<close>

section \<open>Codes\<close>

definition SECRET_BYTES :: nat where
  "SECRET_BYTES = 20"

definition DIGITS :: nat where
  "DIGITS = 6"

definition TIME_STEP_SECS :: int where
  "TIME_STEP_SECS = 30"

definition generate_secret :: "ext \<Rightarrow> nat \<Rightarrow> bytes" where
  "generate_secret X i = fill_bytes X i SECRET_BYTES"

definition to_be_bytes64 :: "u64 \<Rightarrow> bytes" where
  "to_be_bytes64 n = map (\<lambda>i. ucast (drop_bit (8 * (7 - i)) n)) [0..<8]"

definition hotp :: "ext \<Rightarrow> bytes \<Rightarrow> u64 \<Rightarrow> u32" where
  "hotp X secret counter =
     (let hash = hmac_sha1 X secret (to_be_bytes64 counter);
          offset = unat (hash ! (length hash - 1) AND 0x0f);
          bin = push_bit 24 (ucast (hash ! offset AND 0x7f))
             OR push_bit 16 (ucast (hash ! (offset + 1)))
             OR push_bit 8 (ucast (hash ! (offset + 2)))
             OR ucast (hash ! (offset + 3))
      in bin mod 10 ^ DIGITS)"

definition format_code :: "u32 \<Rightarrow> string" where
  "format_code value = dec_padded DIGITS (unat value)"

text \<open>\<open>(unix_time / TIME_STEP_SECS).max(0)\<close>; the division of \<open>i64\<close> truncates.\<close>

definition base_step :: "int \<Rightarrow> int" where
  "base_step unix_time = max (unix_time sdiv TIME_STEP_SECS) 0"

definition code_at :: "ext \<Rightarrow> bytes \<Rightarrow> int \<Rightarrow> string" where
  "code_at X secret unix_time = format_code (hotp X secret (of_int (base_step unix_time)))"

text \<open>The loop over the three deltas, first match wins.\<close>

fun try_deltas :: "ext \<Rightarrow> bytes \<Rightarrow> string \<Rightarrow> int \<Rightarrow> int list \<Rightarrow> int option" where
  "try_deltas X secret code base [] = None"
| "try_deltas X secret code base (delta # deltas) =
     (let counter = base + delta in
      if counter < 0 then try_deltas X secret code base deltas
      else if as_bytes (format_code (hotp X secret (of_int counter))) = as_bytes code then Some counter
      else try_deltas X secret code base deltas)"

definition matched_step :: "ext \<Rightarrow> bytes \<Rightarrow> string \<Rightarrow> int \<Rightarrow> int option" where
  "matched_step X secret code unix_time =
     (let code = trim code in
      if length code \<noteq> DIGITS \<or> \<not> list_all is_ascii_digit code then None
      else try_deltas X secret code (base_step unix_time) [-1, 0, 1])"

definition verify_code :: "ext \<Rightarrow> bytes \<Rightarrow> string \<Rightarrow> int \<Rightarrow> bool" where
  "verify_code X secret code unix_time = (matched_step X secret code unix_time \<noteq> None)"

section \<open>The provisioning URI\<close>

definition unreserved :: "char \<Rightarrow> bool" where
  "unreserved c =
     ((CHR ''A'' \<le> c \<and> c \<le> CHR ''Z'') \<or> (CHR ''a'' \<le> c \<and> c \<le> CHR ''z'')
      \<or> (CHR ''0'' \<le> c \<and> c \<le> CHR ''9'') \<or> c \<in> {CHR ''-'', CHR ''.'', CHR ''_'', CHR ''~''})"

definition hex_upper :: "nat \<Rightarrow> char" where
  "hex_upper n = ''0123456789ABCDEF'' ! n"

definition percent_byte :: "char \<Rightarrow> string" where
  "percent_byte c =
     (if unreserved c then [c]
      else [CHR ''%'', hex_upper (of_char c div 16), hex_upper (of_char c mod 16)])"

definition percent_encode :: "string \<Rightarrow> string" where
  "percent_encode s = concat (map percent_byte s)"

text \<open>\<open>rfc4648 padding\<close> stands for the base32 encoder, which the code calls without padding.\<close>

definition base32_encode :: "(bool \<Rightarrow> bytes \<Rightarrow> string) \<Rightarrow> bytes \<Rightarrow> string" where
  "base32_encode rfc4648 secret = rfc4648 False secret"

definition otpauth_uri :: "string \<Rightarrow> string \<Rightarrow> string \<Rightarrow> string" where
  "otpauth_uri issuer account secret_b32 =
     (let iss = percent_encode issuer; acc = percent_encode account in
      ''otpauth://totp/'' @ iss @ '':'' @ acc @ ''?secret='' @ secret_b32 @ ''&issuer='' @ iss
      @ ''&algorithm=SHA1&digits=6&period=30'')"

section \<open>Facts\<close>

lemma base_step_nonneg: "0 \<le> base_step t"
  by (simp add: base_step_def)

lemma base_step_pos: "0 \<le> t \<Longrightarrow> base_step t = t div 30"
  by (simp add: base_step_def TIME_STEP_SECS_def signed_divide_int_def sgn_if max_def)

lemma hotp_bound: "unat (hotp X secret c) < 10 ^ DIGITS"
proof -
  have "unat (b mod 10 ^ DIGITS :: u32) < 10 ^ DIGITS" for b :: u32
    by (simp add: DIGITS_def unat_mod)
  then show ?thesis by (simp add: hotp_def Let_def)
qed

lemma format_code_shape:
  "length (format_code (hotp X secret c)) = DIGITS \<and> list_all is_ascii_digit (format_code (hotp X secret c))"
  using length_dec_padded [OF hotp_bound [of X secret c]] dec_padded_digits
  by (simp add: format_code_def DIGITS_def list_all_iff)

lemma trim_none:
  assumes "\<And>w c. w \<in> set white_space \<Longrightarrow> c \<in> set w \<Longrightarrow> c \<notin> set s"
  shows "trim s = s"
proof -
  have stop: "\<not> begins_with w t" if "w \<in> set ws" "\<And>w c. w \<in> set ws \<Longrightarrow> c \<in> set w \<Longrightarrow> c \<notin> set t" for w t ws
  proof
    assume "begins_with w t"
    then have "w \<noteq> []" "take (length w) t = w" by (auto simp: begins_with_def)
    then have "hd w \<in> set w" "hd w \<in> set t" by (auto intro: hd_in_set) (metis hd_in_set in_set_takeD)
    with that show False by blast
  qed
  have "trim_start s = s"
    unfolding trim_start_def by (rule strip_front_stop) (use stop assms in blast)
  moreover have "trim_end s = s"
  proof -
    have "\<not> begins_with w (rev s)" if "w \<in> set (map rev white_space)" for w
      by (rule stop [OF that]) (use assms in auto)
    then have "strip_front (map rev white_space) (rev s) = rev s" by (rule strip_front_stop)
    then show ?thesis by (simp add: trim_end_def)
  qed
  ultimately show ?thesis by (simp add: trim_def)
qed

lemma white_space_no_digit: "w \<in> set white_space \<Longrightarrow> c \<in> set w \<Longrightarrow> \<not> is_ascii_digit c"
proof -
  have "\<forall>w \<in> set white_space. \<forall>c \<in> set w. \<not> is_ascii_digit c" by code_simp
  then show "w \<in> set white_space \<Longrightarrow> c \<in> set w \<Longrightarrow> \<not> is_ascii_digit c" by blast
qed

lemma trim_digits: "list_all is_ascii_digit s \<Longrightarrow> trim s = s"
  by (rule trim_none) (auto simp: list_all_iff dest: white_space_no_digit)

lemma try_deltas_Some:
  "try_deltas X secret code base ds = Some c \<Longrightarrow>
     c \<in> (+) base ` set ds \<and> 0 \<le> c \<and> code = format_code (hotp X secret (of_int c))"
  by (induction ds) (auto simp: Let_def split: if_splits)

lemma try_deltas_None:
  "try_deltas X secret code base ds = None \<Longrightarrow> d \<in> set ds \<Longrightarrow> 0 \<le> base + d \<Longrightarrow>
     code \<noteq> format_code (hotp X secret (of_int (base + d)))"
  by (induction ds) (auto simp: Let_def split: if_splits)

lemma hex_upper_inj:
  assumes "a < 16" "b < 16" "hex_upper a = hex_upper b"
  shows "a = b"
proof -
  have "\<forall>a \<in> set [0..<16]. \<forall>b \<in> set [0..<16]. hex_upper a = hex_upper b \<longrightarrow> a = b" by code_simp
  with assms show ?thesis by auto
qed

lemma percent_not_unreserved: "\<not> unreserved (CHR ''%'')"
  by code_simp

lemma percent_byte_cancel:
  "percent_byte c @ s = percent_byte d @ t \<Longrightarrow> c = d \<and> s = t"
proof -
  assume eq: "percent_byte c @ s = percent_byte d @ t"
  consider "unreserved c" "unreserved d" | "unreserved c" "\<not> unreserved d"
    | "\<not> unreserved c" "unreserved d" | "\<not> unreserved c" "\<not> unreserved d" by blast
  then show ?thesis
  proof cases
    case 4
    let ?c = "of_char c :: nat" and ?d = "of_char d :: nat"
    from 4 eq have h: "hex_upper (?c div 16) = hex_upper (?d div 16)"
      "hex_upper (?c mod 16) = hex_upper (?d mod 16)" "s = t" by (simp_all add: percent_byte_def)
    have "?c div 16 < 16" "?d div 16 < 16" by (simp_all add: less_mult_imp_div_less)
    with h have "?c div 16 = ?d div 16" "?c mod 16 = ?d mod 16"
      using hex_upper_inj by simp_all
    then have "?c = ?d" by (metis div_mult_mod_eq)
    with h show ?thesis by simp
  qed (use eq percent_not_unreserved in \<open>auto simp: percent_byte_def\<close>)
qed

lemma percent_encode_inj: "percent_encode s = percent_encode t \<Longrightarrow> s = t"
proof (induction s arbitrary: t)
  case Nil
  then show ?case by (cases t) (auto simp: percent_encode_def percent_byte_def split: if_splits)
next
  case (Cons c s)
  show ?case
  proof (cases t)
    case Nil
    with Cons.prems show ?thesis by (auto simp: percent_encode_def percent_byte_def split: if_splits)
  next
    case t: (Cons d u)
    have "percent_byte c @ percent_encode s = percent_byte d @ percent_encode u"
      using Cons.prems t by (simp add: percent_encode_def)
    from percent_byte_cancel [OF this] Cons.IH t show ?thesis by simp
  qed
qed

lemma percent_encode_clean: "c \<in> set (percent_encode s) \<Longrightarrow> c \<noteq> CHR '':'' \<and> c \<noteq> CHR ''?''"
proof -
  have "\<forall>n \<in> set [0..<16]. hex_upper n \<noteq> CHR '':'' \<and> hex_upper n \<noteq> CHR ''?''" by code_simp
  then have "n < 16 \<Longrightarrow> hex_upper n \<noteq> CHR '':'' \<and> hex_upper n \<noteq> CHR ''?''" for n by simp
  moreover have "(of_char c :: nat) div 16 < 16" for c by (simp add: less_mult_imp_div_less)
  moreover have "\<not> unreserved (CHR '':'')" "\<not> unreserved (CHR ''?'')" by code_simp+
  ultimately show "c \<in> set (percent_encode s) \<Longrightarrow> ?thesis"
    by (auto simp: percent_encode_def percent_byte_def split: if_splits)
qed

lemma split_at_first:
  "a @ x # s = b @ x # t \<Longrightarrow> x \<notin> set a \<Longrightarrow> x \<notin> set b \<Longrightarrow> a = b \<and> s = t"
proof (induction a arbitrary: b)
  case Nil
  then show ?case by (cases b) auto
next
  case (Cons y a)
  then show ?case by (cases b) auto
qed

section \<open>Properties\<close>

text \<open>
  C25. The acceptance window: a code is accepted at a time exactly when, after trimming, it is
  the code of the current 30-second step or of a neighbour that is not negative; every code
  has six decimal digits, and the code made for one time is accepted at any other time whose
  step is at most one away.
\<close>

theorem totp_window:
  shows "(verify_code X secret code t \<longleftrightarrow>
      (\<exists>c. 0 \<le> c \<and> \<bar>c - base_step t\<bar> \<le> 1 \<and> trim code = format_code (hotp X secret (of_int c))))
    \<and> length (code_at X secret t) = 6 \<and> list_all is_ascii_digit (code_at X secret t)
    \<and> (\<bar>base_step t' - base_step t\<bar> \<le> 1 \<longrightarrow> verify_code X secret (code_at X secret t') t)"
proof -
  have window: "verify_code X secret code t \<longleftrightarrow>
      (\<exists>c. 0 \<le> c \<and> \<bar>c - base_step t\<bar> \<le> 1 \<and> trim code = format_code (hotp X secret (of_int c)))" for code
  proof
    assume "verify_code X secret code t"
    then obtain c where "try_deltas X secret (trim code) (base_step t) [-1, 0, 1] = Some c"
      by (auto simp: verify_code_def matched_step_def Let_def split: if_splits)
    from try_deltas_Some [OF this] show "\<exists>c. 0 \<le> c \<and> \<bar>c - base_step t\<bar> \<le> 1
        \<and> trim code = format_code (hotp X secret (of_int c))"
      by (intro exI [of _ c]) auto
  next
    assume "\<exists>c. 0 \<le> c \<and> \<bar>c - base_step t\<bar> \<le> 1 \<and> trim code = format_code (hotp X secret (of_int c))"
    then obtain c where c: "0 \<le> c" "\<bar>c - base_step t\<bar> \<le> 1"
      "trim code = format_code (hotp X secret (of_int c))" by blast
    have "c - base_step t \<in> {-1, 0, 1}" using c(2) by auto
    then have "try_deltas X secret (trim code) (base_step t) [-1, 0, 1] \<noteq> None"
      using try_deltas_None [of X secret "trim code" "base_step t" "[-1, 0, 1]" "c - base_step t"] c(1,3)
      by auto
    then show "verify_code X secret code t"
      using format_code_shape [of X secret "of_int c"] c(3)
      by (simp add: verify_code_def matched_step_def Let_def)
  qed
  have shape: "length (code_at X secret s) = 6 \<and> list_all is_ascii_digit (code_at X secret s)" for s
    using format_code_shape by (simp add: code_at_def DIGITS_def)
  have "verify_code X secret (code_at X secret t') t" if "\<bar>base_step t' - base_step t\<bar> \<le> 1"
    unfolding window using that shape [of t'] base_step_nonneg [of t']
    by (intro exI [of _ "base_step t'"]) (simp add: trim_digits, simp add: code_at_def)
  with window shape show ?thesis by blast
qed

theorem totp_window_witness: "verify_code demo_ext [1, 2, 3] (code_at demo_ext [1, 2, 3] 59) 65"
proof -
  have "\<bar>base_step 59 - base_step 65\<bar> \<le> 1" by (simp add: base_step_pos)
  then show ?thesis using totp_window [of demo_ext "[1, 2, 3]" "[]" 65 59] by blast
qed

text \<open>
  The provisioning URI is unambiguous: two URIs are equal only for the same issuer, the same
  account and the same secret, whatever reserved characters these hold.
\<close>

theorem otpauth_uri_injective:
  "otpauth_uri issuer account secret = otpauth_uri issuer' account' secret' \<longleftrightarrow>
     issuer = issuer' \<and> account = account' \<and> secret = secret'"
proof
  assume eq: "otpauth_uri issuer account secret = otpauth_uri issuer' account' secret'"
  let ?i = "percent_encode issuer" and ?i' = "percent_encode issuer'"
  let ?a = "percent_encode account" and ?a' = "percent_encode account'"
  let ?t = "''&algorithm=SHA1&digits=6&period=30''"
  let ?r = "?a @ CHR ''?'' # ''secret='' @ secret @ ''&issuer='' @ ?i @ ?t"
  let ?r' = "?a' @ CHR ''?'' # ''secret='' @ secret' @ ''&issuer='' @ ?i' @ ?t"
  have clean: "CHR '':'' \<notin> set (percent_encode x)" "CHR ''?'' \<notin> set (percent_encode x)" for x
    using percent_encode_clean by blast+
  have "?i @ CHR '':'' # ?r = ?i' @ CHR '':'' # ?r'"
    using eq unfolding otpauth_uri_def Let_def by simp
  from split_at_first [OF this clean(1) clean(1)] have i: "?i = ?i'" "?r = ?r'"
    by (rule conjunct1, rule conjunct2)
  from split_at_first [OF i(2) clean(2) clean(2)]
  have a: "?a = ?a'" "''secret='' @ secret @ ''&issuer='' @ ?i @ ?t = ''secret='' @ secret' @ ''&issuer='' @ ?i' @ ?t"
    by (rule conjunct1, rule conjunct2)
  have "secret = secret'" using a(2) i(1) by simp
  with percent_encode_inj [OF i(1)] percent_encode_inj [OF a(1)]
  show "issuer = issuer' \<and> account = account' \<and> secret = secret'" by simp
qed simp

end
