(* ===== verification/Secretbox.thy ===== *)
theory Secretbox
imports Auth_Credentials
begin

text \<open>
  \<open>auth::secretbox\<close>: authenticated encryption of stored secrets as \<open>nonce || ciphertext\<close>, with
  XChaCha20-Poly1305 as a parameter.
\<close>

definition NONCE_LEN :: nat where
  "NONCE_LEN = 24"

definition seal :: "ext \<Rightarrow> bytes \<Rightarrow> bytes \<Rightarrow> (auth_error, bytes) action" where
  "seal X key plaintext =
     andthen (draw (\<lambda>n. fill_bytes X n NONCE_LEN)) (\<lambda>nonce.
     andthen (need (aead_encrypt X key nonce plaintext) Crypto) (\<lambda>ciphertext.
     ret (nonce @ ciphertext)))"

definition open_blob :: "ext \<Rightarrow> bytes \<Rightarrow> bytes \<Rightarrow> auth_error + bytes" where
  "open_blob X key blob =
     (if length blob < NONCE_LEN then Inl Crypto
      else case aead_decrypt X key (take NONCE_LEN blob) (drop NONCE_LEN blob) of
             None \<Rightarrow> Inl Crypto | Some plaintext \<Rightarrow> Inr plaintext)"

lemma seal_run:
  "seal X key pt w =
     (case aead_encrypt X key (fill_bytes X (w_tick w) NONCE_LEN) pt of
        None \<Rightarrow> Inl Crypto | Some ct \<Rightarrow> Inr (fill_bytes X (w_tick w) NONCE_LEN @ ct),
      w\<lparr>w_tick := Suc (w_tick w)\<rparr>)"
  by (simp add: seal_def andthen_def split: option.splits)

text \<open>
  A sealed blob opens to its plaintext under the same key, carries its 24-byte nonce in
  front, and \<open>open\<close> refuses every blob that is too short to hold a nonce.
\<close>

theorem seal_open:
  assumes "aead_sound X" and "seal X key pt w = (Inr blob, w')"
  shows "open_blob X key blob = Inr pt \<and> take 24 blob = fill_bytes X (w_tick w) 24 \<and> w_db w' = w_db w
    \<and> (\<forall>short. length short < 24 \<longrightarrow> open_blob X key short = Inl Crypto)"
  using assms
  by (auto simp: seal_run open_blob_def NONCE_LEN_def aead_sound_def split: option.splits)

theorem seal_open_witness:
  "\<exists>blob w'. seal demo_ext [1] [2, 3] demo_world = (Inr blob, w') \<and> open_blob demo_ext [1] blob = Inr [2, 3]"
proof -
  obtain blob w' where "seal demo_ext [1] [2, 3] demo_world = (Inr blob, w')"
    by (simp add: seal_run)
  with seal_open [OF demo_ext_documented(4) this] show ?thesis by blast
qed

end
