(* ===== verification/User_Totp.thy ===== *)
theory User_Totp
imports Secretbox Totp
begin

text \<open>
  \<open>auth::user_totp\<close>: the authenticators of a user. The secret is sealed in the row; a code is
  consumed by a guarded \<open>UPDATE\<close> that moves the credential's last step forward.
\<close>

section \<open>Operations\<close>

definition MAX_AUTHENTICATORS :: int where
  "MAX_AUTHENTICATORS = 50"

definition clear_unverified :: "uuid \<Rightarrow> unit stmt" where
  "clear_unverified user_id d = sql_ok () (d\<lparr>totp_credentials :=
     filter (\<lambda>t. \<not> (tc_user_id t = user_id \<and> tc_verified_at t = None)) (totp_credentials d)\<rparr>)"

definition insert_totp :: "totp_credential \<Rightarrow> uuid stmt" where
  "insert_totp t d =
     (if tc_id t \<in> tc_id ` set (totp_credentials d) then sql_err UniqueViolation d
      else if tc_user_id t \<notin> user_ids d then sql_err ForeignKeyViolation d
      else sql_ok (tc_id t) (d\<lparr>totp_credentials := totp_credentials d @ [t]\<rparr>))"

definition start_enrollment :: "ext \<Rightarrow> time \<Rightarrow> bytes \<Rightarrow> uuid \<Rightarrow> bytes \<Rightarrow> (auth_error, uuid) action" where
  "start_enrollment X now key user_id raw_secret =
     andthen (map_err AuthDatabase (exec X (\<lambda>_. clear_unverified user_id))) (\<lambda>_.
     andthen (seal X key raw_secret) (\<lambda>enc.
     map_err AuthDatabase (exec X (\<lambda>n. insert_totp
       \<lparr>tc_id = gen_uuid X n, tc_user_id = user_id, tc_label = ''Authenticator'', tc_secret_enc = enc,
        tc_created_at = now, tc_verified_at = None, tc_last_used_at = None, tc_last_used_step = None\<rparr>))))"

definition totp_confirm :: "time \<Rightarrow> uuid \<Rightarrow> uuid \<Rightarrow> string \<Rightarrow> bool stmt" where
  "totp_confirm now user_id cred_id label d =
     (let p = (\<lambda>t. tc_id t = cred_id \<and> tc_user_id t = user_id \<and> tc_verified_at t = None)
      in sql_ok (0 < count_where p (totp_credentials d))
           (d\<lparr>totp_credentials := upd_where p (\<lambda>t. t\<lparr>tc_verified_at := Some now, tc_label := label\<rparr>)
                (totp_credentials d)\<rparr>))"

definition load_pending_secret :: "ext \<Rightarrow> bytes \<Rightarrow> uuid \<Rightarrow> uuid \<Rightarrow> (auth_error, bytes option) action" where
  "load_pending_secret X key user_id cred_id =
     andthen (map_err AuthDatabase (exec X (\<lambda>_. query (\<lambda>d. map_option tc_secret_enc (fetch_optional
       (filter (\<lambda>t. tc_id t = cred_id \<and> tc_user_id t = user_id \<and> tc_verified_at t = None)
         (totp_credentials d))))))) (\<lambda>row.
     case row of
       None \<Rightarrow> ret None
     | Some enc \<Rightarrow> andthen (from_sum (open_blob X key enc)) (\<lambda>secret. ret (Some secret)))"

definition is_enrolled :: "uuid \<Rightarrow> bool stmt" where
  "is_enrolled user_id = query (\<lambda>d.
     list_ex (\<lambda>t. tc_user_id t = user_id \<and> tc_verified_at t \<noteq> None) (totp_credentials d))"

definition consume_step :: "time \<Rightarrow> uuid \<Rightarrow> int \<Rightarrow> nat stmt" where
  "consume_step now cred_id step d =
     (let p = (\<lambda>t. tc_id t = cred_id \<and> tc_verified_at t \<noteq> None
                   \<and> (case tc_last_used_step t of None \<Rightarrow> True | Some s \<Rightarrow> s < step))
      in sql_ok (count_where p (totp_credentials d))
           (d\<lparr>totp_credentials := upd_where p
               (\<lambda>t. t\<lparr>tc_last_used_step := Some step, tc_last_used_at := Some now\<rparr>) (totp_credentials d)\<rparr>))"

fun try_credentials ::
  "ext \<Rightarrow> bytes \<Rightarrow> string \<Rightarrow> int \<Rightarrow> (uuid \<times> bytes) list \<Rightarrow> (auth_error, uuid option) action" where
  "try_credentials X key code unix_time [] = ret None"
| "try_credentials X key code unix_time ((cid, enc) # rows) =
     andthen (from_sum (open_blob X key enc)) (\<lambda>secret.
     case matched_step X secret code unix_time of
       Some step \<Rightarrow>
         andthen (map_err AuthDatabase (exec X (\<lambda>n. consume_step (pg_now X n) cid step))) (\<lambda>rows_affected.
         ret (if rows_affected = 1 then Some cid else None))
     | None \<Rightarrow> try_credentials X key code unix_time rows)"

definition verify_and_consume ::
  "ext \<Rightarrow> bytes \<Rightarrow> uuid \<Rightarrow> string \<Rightarrow> int \<Rightarrow> (auth_error, uuid option) action" where
  "verify_and_consume X key user_id code unix_time =
     andthen (map_err AuthDatabase (exec X (\<lambda>_. query (\<lambda>d. map (\<lambda>t. (tc_id t, tc_secret_enc t))
       (filter (\<lambda>t. tc_user_id t = user_id \<and> tc_verified_at t \<noteq> None) (totp_credentials d)))))) (\<lambda>rows.
     try_credentials X key code unix_time rows)"

definition totp_list_verified :: "uuid \<Rightarrow> totp_credential list stmt" where
  "totp_list_verified user_id = query (\<lambda>d. order_asc tc_created_at
     (filter (\<lambda>t. tc_user_id t = user_id \<and> tc_verified_at t \<noteq> None) (totp_credentials d)))"

definition count_verified :: "uuid \<Rightarrow> int stmt" where
  "count_verified user_id = query (\<lambda>d. int (count_where
     (\<lambda>t. tc_user_id t = user_id \<and> tc_verified_at t \<noteq> None) (totp_credentials d)))"

definition totp_rename :: "uuid \<Rightarrow> uuid \<Rightarrow> string \<Rightarrow> bool stmt" where
  "totp_rename user_id cred_id label d =
     (let p = (\<lambda>t. tc_id t = cred_id \<and> tc_user_id t = user_id \<and> tc_verified_at t \<noteq> None)
      in sql_ok (0 < count_where p (totp_credentials d))
           (d\<lparr>totp_credentials := upd_where p (\<lambda>t. t\<lparr>tc_label := label\<rparr>) (totp_credentials d)\<rparr>))"

definition stamp_used :: "time \<Rightarrow> uuid \<Rightarrow> unit stmt" where
  "stamp_used now cred_id d = sql_ok () (d\<lparr>totp_credentials :=
     upd_where (\<lambda>t. tc_id t = cred_id) (\<lambda>t. t\<lparr>tc_last_used_at := Some now\<rparr>) (totp_credentials d)\<rparr>)"

definition totp_delete :: "uuid \<Rightarrow> uuid \<Rightarrow> bool stmt" where
  "totp_delete user_id cred_id d =
     (let p = (\<lambda>t. tc_id t = cred_id \<and> tc_user_id t = user_id)
      in sql_ok (0 < count_where p (totp_credentials d))
           (d\<lparr>totp_credentials := filter (\<lambda>t. \<not> p t) (totp_credentials d)\<rparr>))"

section \<open>Constraints\<close>

lemma totp_statements_keep:
  "db_keep d (snd (clear_unverified uid d))"
  "db_keep d (snd (insert_totp t d))"
  "db_keep d (snd (totp_confirm now uid cid label d))"
  "db_keep d (snd (consume_step now cid step d))"
  "db_keep d (snd (totp_rename uid cid label d))"
  "db_keep d (snd (stamp_used now cid d))"
  "db_keep d (snd (totp_delete uid cid d))"
  using db_okD(18,19) [of d]
  by (auto simp: clear_unverified_def insert_totp_def totp_confirm_def consume_step_def totp_rename_def
      stamp_used_def totp_delete_def Let_def keyed_filter refs_filter intro!: db_keepI db_ok_table)

section \<open>Properties\<close>

lemma try_credentials_Some:
  assumes "try_credentials X key code t rows w = (Inr (Some cid), w')"
  shows "\<exists>enc secret step n now. (cid, enc) \<in> set rows \<and> open_blob X key enc = Inr secret
     \<and> matched_step X secret code t = Some step
     \<and> consume_step now cid step (w_db w) = (Inr n, w_db w') \<and> n = 1"
  using assms
proof (induction rows arbitrary: w)
  case (Cons row rows)
  obtain rid enc where row: "row = (rid, enc)" by (cases row)
  from Cons.prems row obtain secret where s: "open_blob X key enc = Inr secret"
    and run: "(case matched_step X secret code t of
       Some step \<Rightarrow>
         andthen (map_err AuthDatabase (exec X (\<lambda>n. consume_step (pg_now X n) rid step))) (\<lambda>rows_affected.
         ret (if rows_affected = 1 then Some rid else None))
     | None \<Rightarrow> try_credentials X key code t rows) w = (Inr (Some cid), w')"
    by (auto elim!: andthen_eq_InrE)
  show ?case
  proof (cases "matched_step X secret code t")
    case None
    with run Cons.IH [of w] show ?thesis by auto
  next
    case (Some step)
    with run obtain n d where "consume_step (pg_now X (w_tick w)) rid step (w_db w) = (Inr n, d)"
      "w_db w' = d" "n = 1" "rid = cid"
      by (auto elim!: andthen_eq_InrE exec_eq_InrE split: if_splits)
    with s Some row show ?thesis by fastforce
  qed
qed simp

lemma verify_and_consume_Some:
  assumes "db_ok (w_db w)" and "verify_and_consume X key uid code t w = (Inr (Some cid), w')"
  shows "\<exists>c secret step now. c \<in> set (totp_credentials (w_db w)) \<and> tc_id c = cid \<and> tc_user_id c = uid
     \<and> tc_verified_at c \<noteq> None \<and> open_blob X key (tc_secret_enc c) = Inr secret
     \<and> matched_step X secret code t = Some step
     \<and> (case tc_last_used_step c of None \<Rightarrow> True | Some s \<Rightarrow> s < step)
     \<and> w_db w' = (w_db w)\<lparr>totp_credentials := upd_where (\<lambda>q. tc_id q = cid)
          (\<lambda>q. q\<lparr>tc_last_used_step := Some step, tc_last_used_at := Some now\<rparr>) (totp_credentials (w_db w))\<rparr>"
proof -
  let ?ts = "totp_credentials (w_db w)"
  have k: "keyed tc_id ?ts" using db_okD(18) [OF assms(1)] .
  define w1 where "w1 = w\<lparr>w_tick := Suc (w_tick w)\<rparr>"
  then have w1: "w_db w1 = w_db w" by simp
  have run: "try_credentials X key code t (map (\<lambda>t. (tc_id t, tc_secret_enc t))
       (filter (\<lambda>t. tc_user_id t = uid \<and> tc_verified_at t \<noteq> None) ?ts)) w1 = (Inr (Some cid), w')"
    using assms(2) by (auto simp: verify_and_consume_def exec_query_run w1_def elim!: andthen_eq_InrE split: if_splits)
  obtain enc secret step n now where c: "(cid, enc) \<in> set (map (\<lambda>t. (tc_id t, tc_secret_enc t))
       (filter (\<lambda>t. tc_user_id t = uid \<and> tc_verified_at t \<noteq> None) ?ts))"
    "open_blob X key enc = Inr secret" "matched_step X secret code t = Some step"
    "consume_step now cid step (w_db w) = (Inr n, w_db w')" "n = 1"
    using try_credentials_Some [OF run] unfolding w1 by blast
  then obtain c where cc: "c \<in> set ?ts" "tc_id c = cid" "tc_user_id c = uid" "tc_verified_at c \<noteq> None"
    "enc = tc_secret_enc c" by auto
  let ?p = "\<lambda>t. tc_id t = cid \<and> tc_verified_at t \<noteq> None
                   \<and> (case tc_last_used_step t of None \<Rightarrow> True | Some s \<Rightarrow> s < step)"
  let ?f = "\<lambda>q. q\<lparr>tc_last_used_step := Some step, tc_last_used_at := Some now\<rparr>"
  have "count_where ?p ?ts = 1" using c(4,5) by (simp add: consume_step_def sql_ok_def Let_def)
  then have "filter ?p ?ts \<noteq> []" by (auto simp: count_where_def)
  then obtain q where q: "q \<in> set ?ts" "?p q" by (auto simp: filter_empty_conv)
  then have "q = c" using cc k by (auto dest: keyed_eqD)
  with q have pc: "?p c" by blast
  have "upd_where ?p ?f ?ts = upd_where (\<lambda>q. tc_id q = cid) ?f ?ts"
    unfolding upd_where_def
  proof (rule map_cong [OF refl])
    fix r assume r: "r \<in> set ?ts"
    have "?p r \<longleftrightarrow> tc_id r = cid"
    proof
      assume "tc_id r = cid"
      then have "r = c" using keyed_eqD [OF k r cc(1)] cc(2) by simp
      with pc show "?p r" by simp
    qed simp
    then show "(if ?p r then ?f r else r) = (if tc_id r = cid then ?f r else r)" by presburger
  qed
  then have "w_db w' = (w_db w)\<lparr>totp_credentials := upd_where (\<lambda>q. tc_id q = cid) ?f ?ts\<rparr>"
    using c(4) by (simp add: consume_step_def sql_ok_def Let_def)
  with c(2,3) cc pc show ?thesis by blast
qed

text \<open>
  C24. TOTP codes are single-use: \<open>verify_and_consume\<close> accepts only through a verified
  authenticator of that user whose secret yields the code at a step newer than every step it
  accepted before, records that step in that row alone, and from then on accepts through this
  authenticator only codes of a strictly newer step; in particular no replay.
\<close>

theorem totp_single_use:
  assumes "db_ok (w_db w)" and "verify_and_consume X key uid code t w = (Inr (Some cid), w')"
  shows "\<exists>c secret step. c \<in> set (totp_credentials (w_db w)) \<and> tc_id c = cid \<and> tc_user_id c = uid
     \<and> tc_verified_at c \<noteq> None \<and> open_blob X key (tc_secret_enc c) = Inr secret
     \<and> matched_step X secret code t = Some step
     \<and> (\<forall>s. tc_last_used_step c = Some s \<longrightarrow> s < step)
     \<and> db_ok (w_db w')
     \<and> filter (\<lambda>q. tc_id q \<noteq> cid) (totp_credentials (w_db w')) = filter (\<lambda>q. tc_id q \<noteq> cid) (totp_credentials (w_db w))
     \<and> (\<exists>c' \<in> set (totp_credentials (w_db w')). tc_id c' = cid \<and> tc_secret_enc c' = tc_secret_enc c
          \<and> tc_last_used_step c' = Some step)
     \<and> (\<forall>code' t' w2 w3 c2 s. db_ok (w_db w2) \<longrightarrow> c2 \<in> set (totp_credentials (w_db w2)) \<longrightarrow> tc_id c2 = cid \<longrightarrow>
          tc_secret_enc c2 = tc_secret_enc c \<longrightarrow> tc_last_used_step c2 = Some s \<longrightarrow> step \<le> s \<longrightarrow>
          verify_and_consume X key uid code' t' w2 = (Inr (Some cid), w3) \<longrightarrow>
          (\<exists>step'. matched_step X secret code' t' = Some step' \<and> step < step'))"
proof -
  obtain c secret step now where c: "c \<in> set (totp_credentials (w_db w))" "tc_id c = cid" "tc_user_id c = uid"
     "tc_verified_at c \<noteq> None" "open_blob X key (tc_secret_enc c) = Inr secret"
     "matched_step X secret code t = Some step"
     "case tc_last_used_step c of None \<Rightarrow> True | Some s \<Rightarrow> s < step"
     and w': "w_db w' = (w_db w)\<lparr>totp_credentials := upd_where (\<lambda>q. tc_id q = cid)
          (\<lambda>q. q\<lparr>tc_last_used_step := Some step, tc_last_used_at := Some now\<rparr>) (totp_credentials (w_db w))\<rparr>"
    using verify_and_consume_Some [OF assms] by blast
  have k: "keyed tc_id (totp_credentials (w_db w))" using db_okD(18) [OF assms(1)] .
  have ok: "db_ok (w_db w')"
    unfolding w' using db_okD(18,19) [OF assms(1)] assms(1) by (intro db_ok_table) auto
  have rest: "filter (\<lambda>q. tc_id q \<noteq> cid) (totp_credentials (w_db w')) =
      filter (\<lambda>q. tc_id q \<noteq> cid) (totp_credentials (w_db w))"
    by (simp add: w' filter_upd_other)
  have row: "\<exists>c' \<in> set (totp_credentials (w_db w')). tc_id c' = cid \<and> tc_secret_enc c' = tc_secret_enc c
      \<and> tc_last_used_step c' = Some step"
    using c(1,2)
    by (intro bexI [of _ "c\<lparr>tc_last_used_step := Some step, tc_last_used_at := Some now\<rparr>"])
      (auto simp: w' set_upd_where)
  have later: "\<exists>step'. matched_step X secret code' t' = Some step' \<and> step < step'"
    if again: "db_ok (w_db w2)" "c2 \<in> set (totp_credentials (w_db w2))" "tc_id c2 = cid"
      "tc_secret_enc c2 = tc_secret_enc c" "tc_last_used_step c2 = Some s" "step \<le> s"
      "verify_and_consume X key uid code' t' w2 = (Inr (Some cid), w3)" for code' t' w2 w3 c2 s
  proof -
    obtain c3 secret3 step3 where c3: "c3 \<in> set (totp_credentials (w_db w2))" "tc_id c3 = cid"
      "open_blob X key (tc_secret_enc c3) = Inr secret3" "matched_step X secret3 code' t' = Some step3"
      "case tc_last_used_step c3 of None \<Rightarrow> True | Some s \<Rightarrow> s < step3"
      using verify_and_consume_Some [OF again(1,7)] by auto
    have "c3 = c2" using keyed_eqD [OF db_okD(18) [OF again(1)] c3(1) again(2)] c3(2) again(3) by simp
    with c3 c(5) again(4-6) show ?thesis by auto
  qed
  have "\<forall>s. tc_last_used_step c = Some s \<longrightarrow> s < step"
    using c(7) by (cases "tc_last_used_step c") auto
  with c(1-6) ok rest row later show ?thesis by blast
qed

definition totp_world :: world where
  "totp_world = demo_world\<lparr>w_db := empty_db\<lparr>users :=
     [\<lparr>u_id = 7, u_email = ''ada@b.c'', u_display_name = ''Ada'', u_lifecycle = Active,
       u_instance_role = Owner, u_kind = KindMember, u_locale = None, u_created_at = 0, u_updated_at = 0\<rparr>],
     totp_credentials := [\<lparr>tc_id = 3, tc_user_id = 7, tc_label = ''Phone'',
       tc_secret_enc = replicate 24 0 @ [1, 2, 3], tc_created_at = 0, tc_verified_at = Some 0,
       tc_last_used_at = None, tc_last_used_step = None\<rparr>]\<rparr>\<rparr>"

lemma totp_world_ok: "db_ok (w_db totp_world)"
  using empty_db_ok
  by (simp add: totp_world_def db_ok_def user_ids_def table_ok_defs machine_ids_def app_ids_def)

lemma totp_world_accepts:
  "\<exists>w'. verify_and_consume demo_ext [] 7 (code_at demo_ext [3, 2, 1] 59) 59 totp_world = (Inr (Some 3), w')"
proof -
  have m: "matched_step demo_ext [3, 2, 1] (code_at demo_ext [3, 2, 1] 59) 59 \<noteq> None"
    by code_simp
  then obtain step where "matched_step demo_ext [3, 2, 1] (code_at demo_ext [3, 2, 1] 59) 59 = Some step" by blast
  then show ?thesis
    by (simp add: verify_and_consume_def exec_query_run andthen_def map_err_def exec_def totp_world_def
        open_blob_def NONCE_LEN_def consume_step_def sql_ok_def Let_def)
qed

theorem totp_single_use_witness:
  "\<exists>w' step. verify_and_consume demo_ext [] 7 (code_at demo_ext [3, 2, 1] 59) 59 totp_world = (Inr (Some 3), w')
     \<and> (\<exists>c' \<in> set (totp_credentials (w_db w')). tc_id c' = 3 \<and> tc_last_used_step c' = Some step)"
  using totp_world_accepts totp_single_use [OF totp_world_ok, of demo_ext "[]" 7] by metis

end
