(* ===== verification/Recovery_Code.thy ===== *)
theory Recovery_Code
imports Auth_Credentials
begin

text \<open>
  \<open>auth::recovery_code\<close> and \<open>auth::user_recovery_code\<close>: the human-readable codes (Crockford
  base 32 in groups of four), their normal form and hash, and the two tables that store them.
\<close>

section \<open>Codes\<close>

definition CODE_ENTROPY_BYTES :: nat where
  "CODE_ENTROPY_BYTES = 20"

definition CROCKFORD :: string where
  "CROCKFORD = ''0123456789ABCDEFGHJKMNPQRSTVWXYZ''"

definition crockford :: "u8 \<Rightarrow> char" where
  "crockford v = CROCKFORD ! unat v"

text \<open>One turn of the loop: five bytes become eight symbols.\<close>

definition chunk_values :: "u8 \<Rightarrow> u8 \<Rightarrow> u8 \<Rightarrow> u8 \<Rightarrow> u8 \<Rightarrow> u8 list" where
  "chunk_values b0 b1 b2 b3 b4 =
     [drop_bit 3 b0,
      push_bit 2 (b0 AND 0x07) OR drop_bit 6 b1,
      drop_bit 1 b1 AND 0x1f,
      push_bit 4 (b1 AND 0x01) OR drop_bit 4 b2,
      push_bit 1 (b2 AND 0x0f) OR drop_bit 7 b3,
      drop_bit 2 b3 AND 0x1f,
      push_bit 3 (b3 AND 0x03) OR drop_bit 5 b4,
      b4 AND 0x1f]"

definition chunk_chars :: "bytes \<Rightarrow> nat \<Rightarrow> string" where
  "chunk_chars bs chunk =
     (let o' = chunk * 5 in
      map crockford (chunk_values (bs ! o') (bs ! (o' + 1)) (bs ! (o' + 2)) (bs ! (o' + 3)) (bs ! (o' + 4))))"

text \<open>The loop that writes the symbols with a hyphen before every fourth.\<close>

fun group_chars :: "nat \<Rightarrow> string \<Rightarrow> string" where
  "group_chars i [] = []"
| "group_chars i (c # cs) =
     (if 0 < i \<and> i mod 4 = 0 then [CHR ''-'', c] else [c]) @ group_chars (Suc i) cs"

definition encode_grouped :: "bytes \<Rightarrow> string" where
  "encode_grouped bs = group_chars 0 (concat (map (chunk_chars bs) [0..<4]))"

definition generate_code :: "ext \<Rightarrow> nat \<Rightarrow> string" where
  "generate_code X i = encode_grouped (fill_bytes X i CODE_ENTROPY_BYTES)"

definition canonical_char :: "char \<Rightarrow> string" where
  "canonical_char ch =
     (let u = ascii_upper ch in
      if u \<in> {CHR ''-'', CHR '' '', CHR 0x09, CHR 0x0A, CHR 0x0D} then []
      else if u \<in> {CHR ''I'', CHR ''L''} then ''1''
      else if u = CHR ''O'' then ''0''
      else [u])"

definition canonicalize :: "string \<Rightarrow> string" where
  "canonicalize input = concat (map canonical_char input)"

definition hash_code :: "ext \<Rightarrow> string \<Rightarrow> bytes" where
  "hash_code X raw = sha256 X (as_bytes (canonicalize raw))"

section \<open>The instance recovery code\<close>

definition insert_recovery_code :: "recovery_code \<Rightarrow> uuid stmt" where
  "insert_recovery_code r d =
     (if rc_id r \<in> rc_id ` set (recovery_codes d)
         \<or> (rc_rotated_at r = None \<and> (\<exists>q \<in> set (recovery_codes d). rc_rotated_at q = None))
      then sql_err UniqueViolation d
      else if length (rc_code_hash r) \<noteq> 32 then sql_err CheckViolation d
      else if (case rc_created_by_user_id r of None \<Rightarrow> False | Some u \<Rightarrow> u \<notin> user_ids d)
            \<or> (case rc_rotated_by_user_id r of None \<Rightarrow> False | Some u \<Rightarrow> u \<notin> user_ids d)
      then sql_err ForeignKeyViolation d
      else sql_ok (rc_id r) (d\<lparr>recovery_codes := recovery_codes d @ [r]\<rparr>))"

definition recovery_bootstrap :: "ext \<Rightarrow> uuid \<Rightarrow> time \<Rightarrow> string \<Rightarrow> uuid option \<Rightarrow> uuid stmt" where
  "recovery_bootstrap X new_id now raw_code by_user_id =
     insert_recovery_code \<lparr>rc_id = new_id, rc_code_hash = hash_code X raw_code, rc_created_at = now,
       rc_created_by_user_id = by_user_id, rc_rotated_at = None, rc_rotated_by_user_id = None\<rparr>"

definition active_metadata :: "recovery_code option stmt" where
  "active_metadata = query (\<lambda>d. fetch_optional (filter (\<lambda>r. rc_rotated_at r = None) (recovery_codes d)))"

definition recovery_verify :: "ext \<Rightarrow> string \<Rightarrow> uuid option stmt" where
  "recovery_verify X presented = query (\<lambda>d. map_option rc_id (fetch_optional
     (filter (\<lambda>r. rc_rotated_at r = None \<and> rc_code_hash r = hash_code X presented) (recovery_codes d))))"

definition retire_code :: "time \<Rightarrow> bytes \<Rightarrow> uuid \<Rightarrow> uuid option stmt" where
  "retire_code now current_hash by_user_id d =
     (let p = (\<lambda>r. rc_rotated_at r = None \<and> rc_code_hash r = current_hash) in
      case fetch_optional (filter p (recovery_codes d)) of
        None \<Rightarrow> sql_ok None d
      | Some r \<Rightarrow>
          if by_user_id \<notin> user_ids d then sql_err ForeignKeyViolation d
          else sql_ok (Some (rc_id r)) (d\<lparr>recovery_codes := upd_where p
            (\<lambda>r. r\<lparr>rc_rotated_at := Some now, rc_rotated_by_user_id := Some by_user_id\<rparr>) (recovery_codes d)\<rparr>))"

definition recovery_rotate ::
  "ext \<Rightarrow> time \<Rightarrow> string \<Rightarrow> string \<Rightarrow> uuid \<Rightarrow> (sql_error, (uuid \<times> uuid) option) action" where
  "recovery_rotate X now current_raw new_raw by_user_id =
     andthen (exec X (\<lambda>_. retire_code now (hash_code X current_raw) by_user_id)) (\<lambda>previous_id.
     case previous_id of
       None \<Rightarrow> ret None
     | Some previous_id \<Rightarrow>
         andthen (exec X (\<lambda>n. recovery_bootstrap X (gen_uuid X n) now new_raw (Some by_user_id))) (\<lambda>new_id.
         ret (Some (new_id, previous_id))))"

section \<open>Recovery codes of users\<close>

definition user_recovery_bootstrap :: "ext \<Rightarrow> time \<Rightarrow> uuid \<Rightarrow> string \<Rightarrow> unit stmt" where
  "user_recovery_bootstrap X now user_id raw_code d =
     (if user_id \<in> urc_user_id ` set (user_recovery_codes d) then sql_err UniqueViolation d
      else if length (hash_code X raw_code) \<noteq> 32 then sql_err CheckViolation d
      else if user_id \<notin> user_ids d then sql_err ForeignKeyViolation d
      else sql_ok () (d\<lparr>user_recovery_codes := user_recovery_codes d
        @ [\<lparr>urc_user_id = user_id, urc_code_hash = hash_code X raw_code, urc_generated_at = now,
            urc_last_used_at = None\<rparr>]\<rparr>))"

definition user_recovery_rotate :: "ext \<Rightarrow> time \<Rightarrow> uuid \<Rightarrow> string \<Rightarrow> unit stmt" where
  "user_recovery_rotate X now user_id new_raw d =
     (if length (hash_code X new_raw) \<noteq> 32 then sql_err CheckViolation d
      else if user_id \<in> urc_user_id ` set (user_recovery_codes d)
      then sql_ok () (d\<lparr>user_recovery_codes := upd_where (\<lambda>r. urc_user_id r = user_id)
        (\<lambda>r. r\<lparr>urc_code_hash := hash_code X new_raw, urc_generated_at := now, urc_last_used_at := None\<rparr>)
        (user_recovery_codes d)\<rparr>)
      else user_recovery_bootstrap X now user_id new_raw d)"

definition user_recovery_metadata :: "uuid \<Rightarrow> (uuid \<times> time \<times> time option) option stmt" where
  "user_recovery_metadata user_id = query (\<lambda>d.
     map_option (\<lambda>r. (urc_user_id r, urc_generated_at r, urc_last_used_at r))
       (fetch_optional (filter (\<lambda>r. urc_user_id r = user_id) (user_recovery_codes d))))"

definition verify_and_stamp :: "ext \<Rightarrow> time \<Rightarrow> uuid \<Rightarrow> string \<Rightarrow> bool stmt" where
  "verify_and_stamp X now user_id presented d =
     (let p = (\<lambda>r. urc_user_id r = user_id \<and> urc_code_hash r = hash_code X presented)
      in sql_ok (0 < count_where p (user_recovery_codes d))
           (d\<lparr>user_recovery_codes := upd_where p (\<lambda>r. r\<lparr>urc_last_used_at := Some now\<rparr>)
                (user_recovery_codes d)\<rparr>))"

section \<open>Constraints\<close>

lemma insert_recovery_code_keep: "db_keep d (snd (insert_recovery_code r d))"
proof (rule db_keepI)
  assume ok: "db_ok d"
  have "count_where (\<lambda>r. rc_rotated_at r = None) rs = 0" if "\<forall>q \<in> set rs. rc_rotated_at q \<noteq> None" for rs
    using that by (simp add: count_where_def filter_empty_conv)
  then show "db_ok (snd (insert_recovery_code r d))"
    using ok db_okD(16) [OF ok]
    by (auto simp: insert_recovery_code_def recovery_codes_ok_def intro!: db_ok_table split: option.splits)
qed (simp_all add: insert_recovery_code_def)

lemma count_where_upd_less:
  "(\<And>r. q (f r) \<Longrightarrow> q r) \<Longrightarrow> count_where q (upd_where p f rs) \<le> count_where q rs"
  by (induction rs) auto

lemma retire_code_keep: "db_keep d (snd (retire_code now h uid d))"
proof (rule db_keepI)
  assume ok: "db_ok d"
  let ?f = "\<lambda>r. r\<lparr>rc_rotated_at := Some now, rc_rotated_by_user_id := Some uid\<rparr>"
  have "recovery_codes_ok (user_ids d) (upd_where p ?f (recovery_codes d))" if "uid \<in> user_ids d" for p
    using db_okD(16) [OF ok] that
      count_where_upd_less [of "\<lambda>r. rc_rotated_at r = None" ?f p "recovery_codes d"]
    by (auto simp: recovery_codes_ok_def ball_upd_where intro: opt_refs_upd)
  then show "db_ok (snd (retire_code now h uid d))"
    using ok by (auto simp: retire_code_def Let_def intro!: db_ok_table split: option.splits)
qed (auto simp: retire_code_def Let_def split: option.splits)

lemma user_recovery_keep:
  "db_keep d (snd (user_recovery_bootstrap X now uid raw d))"
  "db_keep d (snd (user_recovery_rotate X now uid raw d))"
  "db_keep d (snd (verify_and_stamp X now uid raw d))"
  using db_okD(17) [of d]
  by (auto simp: user_recovery_bootstrap_def user_recovery_rotate_def verify_and_stamp_def Let_def
      user_recovery_codes_ok_def ball_upd_where intro!: db_keepI db_ok_table) metis

section \<open>The alphabet and the chunks\<close>

lemma crockford_facts:
  assumes "v < 32"
  shows "canonical_char (crockford v) = [crockford v]" "crockford v \<noteq> CHR ''-''"
    "crockford v \<in> set CROCKFORD"
proof -
  have "\<forall>n \<in> set [0..<32]. canonical_char (CROCKFORD ! n) = [CROCKFORD ! n] \<and> CROCKFORD ! n \<noteq> CHR ''-''
      \<and> CROCKFORD ! n \<in> set CROCKFORD"
    by code_simp
  moreover have "unat v < 32" using assms by (simp add: word_less_nat_alt)
  ultimately show "canonical_char (crockford v) = [crockford v]" "crockford v \<noteq> CHR ''-''"
    "crockford v \<in> set CROCKFORD" by (simp_all add: crockford_def)
qed

lemma crockford_inj:
  assumes "v < 32" "u < 32" "crockford v = crockford u"
  shows "v = u"
proof -
  have "distinct CROCKFORD" "length CROCKFORD = 32" by code_simp+
  moreover have "unat v < 32" "unat u < 32" using assms(1,2) by (simp_all add: word_less_nat_alt)
  ultimately have "unat v = unat u" using assms(3) by (simp add: crockford_def nth_eq_iff_index_eq)
  then show ?thesis by (simp only: word_unat_eq_iff)
qed

lemma byte_eqI:
  fixes a b :: u8
  assumes "bit a 0 = bit b 0" "bit a 1 = bit b 1" "bit a 2 = bit b 2" "bit a 3 = bit b 3"
    "bit a 4 = bit b 4" "bit a 5 = bit b 5" "bit a 6 = bit b 6" "bit a 7 = bit b 7"
  shows "a = b"
proof (rule bit_word_eqI)
  fix n :: nat
  assume "n < LENGTH(8)"
  then have "n \<in> {0, 1, 2, 3, 4, 5, 6, 7}" by auto
  with assms show "bit a n = bit b n" by auto
qed

lemma no_bit8: "8 \<le> n \<Longrightarrow> \<not> bit (a :: u8) n"
  using bit_imp_le_length [of a n] by auto

lemma bit_twice: "bit (a * 2 :: u8) n \<longleftrightarrow> n \<noteq> 0 \<and> n < 8 \<and> bit a (n - 1)"
proof -
  have "a * 2 = push_bit 1 a" by simp
  then show ?thesis by (simp only: bit_push_bit_iff) (auto simp: no_bit8 not_less)
qed

lemma chunk_bounds: "\<forall>v \<in> set (chunk_values b0 b1 b2 b3 b4). v < 32"
proof -
  have m: "v AND 31 = v \<Longrightarrow> v < 32" for v :: u8
  proof -
    assume "v AND 31 = v"
    moreover have "v AND 31 \<le> 31" by (rule word_and_le1)
    ultimately have "v \<le> 31" by simp
    then show "v < 32" by (simp add: word_le_nat_alt word_less_nat_alt)
  qed
  show ?thesis
    unfolding chunk_values_def list.set ball_simps
    by (intro conjI m byte_eqI) (simp_all add: bit_simps bit_twice no_bit8)
qed

lemma chunk_inverse:
  fixes b0 b1 b2 b3 b4 :: u8
  shows "b0 = push_bit 3 (drop_bit 3 b0) OR drop_bit 2 (push_bit 2 (b0 AND 0x07) OR drop_bit 6 b1)"
    and "b1 = push_bit 6 (push_bit 2 (b0 AND 0x07) OR drop_bit 6 b1) OR push_bit 1 (drop_bit 1 b1 AND 0x1f)
           OR drop_bit 4 (push_bit 4 (b1 AND 0x01) OR drop_bit 4 b2)"
    and "b2 = push_bit 4 (push_bit 4 (b1 AND 0x01) OR drop_bit 4 b2)
           OR drop_bit 1 (push_bit 1 (b2 AND 0x0f) OR drop_bit 7 b3)"
    and "b3 = push_bit 7 (push_bit 1 (b2 AND 0x0f) OR drop_bit 7 b3) OR push_bit 2 (drop_bit 2 b3 AND 0x1f)
           OR drop_bit 3 (push_bit 3 (b3 AND 0x03) OR drop_bit 5 b4)"
    and "b4 = push_bit 5 (push_bit 3 (b3 AND 0x03) OR drop_bit 5 b4) OR (b4 AND 0x1f)"
      apply (rule byte_eqI; simp add: bit_simps bit_twice no_bit8; simp add: eval_nat_numeral)
     apply (rule byte_eqI; simp add: bit_simps bit_twice no_bit8; simp add: eval_nat_numeral)
    apply (rule byte_eqI; simp add: bit_simps bit_twice no_bit8; simp add: eval_nat_numeral)
   apply (rule byte_eqI; simp add: bit_simps bit_twice no_bit8; simp add: eval_nat_numeral)
  apply (rule byte_eqI; simp add: bit_simps bit_twice no_bit8; simp add: eval_nat_numeral)
  done

lemma chunk_values_inj:
  assumes "chunk_values b0 b1 b2 b3 b4 = chunk_values c0 c1 c2 c3 c4"
  shows "b0 = c0 \<and> b1 = c1 \<and> b2 = c2 \<and> b3 = c3 \<and> b4 = c4"
  using assms chunk_inverse(1) [of b0 b1] chunk_inverse(1) [of c0 c1]
    chunk_inverse(2) [of b1 b0 b2] chunk_inverse(2) [of c1 c0 c2]
    chunk_inverse(3) [of b2 b1 b3] chunk_inverse(3) [of c2 c1 c3]
    chunk_inverse(4) [of b3 b2 b4] chunk_inverse(4) [of c3 c2 c4]
    chunk_inverse(5) [of b4 b3] chunk_inverse(5) [of c4 c3]
  unfolding chunk_values_def list.inject by metis

section \<open>The printed form\<close>

lemma canonicalize_append [simp]: "canonicalize (s @ t) = canonicalize s @ canonicalize t"
  by (simp add: canonicalize_def)

lemma canonicalize_simps [simp]:
  "canonicalize [] = []" "canonicalize (c # s) = canonical_char c @ canonicalize s"
  by (simp_all add: canonicalize_def)

lemma chunk_chars_facts:
  "length (chunk_chars bs k) = 8" "set (chunk_chars bs k) \<subseteq> set CROCKFORD"
  "canonicalize (chunk_chars bs k) = chunk_chars bs k"
proof -
  let ?vs = "chunk_values (bs ! (k * 5)) (bs ! (k * 5 + 1)) (bs ! (k * 5 + 2)) (bs ! (k * 5 + 3)) (bs ! (k * 5 + 4))"
  have cc: "chunk_chars bs k = map crockford ?vs" by (simp add: chunk_chars_def Let_def)
  have v: "\<forall>v \<in> set ?vs. v < 32" by (rule chunk_bounds)
  show "length (chunk_chars bs k) = 8" unfolding cc by (simp add: chunk_values_def)
  show "set (chunk_chars bs k) \<subseteq> set CROCKFORD" unfolding cc using v crockford_facts(3) by auto
  have "\<forall>v \<in> set vs. v < 32 \<Longrightarrow> canonicalize (map crockford vs) = map crockford vs" for vs
    by (induction vs) (simp_all add: crockford_facts(1))
  with v show "canonicalize (chunk_chars bs k) = chunk_chars bs k" unfolding cc by blast
qed

lemma chunk_chars_inj:
  assumes "chunk_chars as k = chunk_chars bs k"
  shows "\<forall>j < 5. as ! (5 * k + j) = bs ! (5 * k + j)"
proof -
  let ?vs = "\<lambda>bs. chunk_values (bs ! (k * 5)) (bs ! (k * 5 + 1)) (bs ! (k * 5 + 2)) (bs ! (k * 5 + 3)) (bs ! (k * 5 + 4))"
  have "inj_on crockford {v. v < 32}" by (auto intro!: inj_onI crockford_inj)
  moreover have "set (?vs as) \<union> set (?vs bs) \<subseteq> {v. v < 32}" using chunk_bounds by blast
  ultimately have "inj_on crockford (set (?vs as) \<union> set (?vs bs))" by (rule inj_on_subset)
  with assms have "?vs as = ?vs bs"
    by (simp add: chunk_chars_def Let_def map_inj_on)
  from chunk_values_inj [OF this] show ?thesis
    by (auto simp: less_Suc_eq eval_nat_numeral mult.commute)
qed

definition code_chars :: "bytes \<Rightarrow> string" where
  "code_chars bs = concat (map (chunk_chars bs) [0..<4])"

lemma code_chars_eq: "code_chars bs = chunk_chars bs 0 @ chunk_chars bs 1 @ chunk_chars bs 2 @ chunk_chars bs 3"
  by (simp add: code_chars_def upt_rec eval_nat_numeral)

lemma code_chars_inj:
  assumes "length as = 20" "length bs = 20" "code_chars as = code_chars bs"
  shows "as = bs"
proof (rule nth_equalityI)
  have "chunk_chars as k = chunk_chars bs k" if "k < 4" for k
  proof -
    have "k = 0 \<or> k = 1 \<or> k = 2 \<or> k = 3" using that by auto
    then show ?thesis using assms(3) by (auto simp: code_chars_eq chunk_chars_facts(1))
  qed
  then have c: "as ! (5 * k + j) = bs ! (5 * k + j)" if "k < 4" "j < 5" for k j
    using chunk_chars_inj that by blast
  fix i assume "i < length as"
  then have "i div 5 < 4" "i mod 5 < 5" using assms(1) by auto
  from c [OF this] show "as ! i = bs ! i" by simp
qed (use assms in simp)

lemma group_chars_four:
  assumes "length g = 4" and "n mod 4 = 0"
  shows "group_chars n (g @ rest) = (if n = 0 then g else CHR ''-'' # g) @ group_chars (Suc (Suc (Suc (Suc n)))) rest"
proof -
  obtain a b c d where "g = [a, b, c, d]"
    using assms(1) by (auto simp: length_Suc_conv eval_nat_numeral)
  moreover have "Suc n mod 4 = 1" "Suc (Suc n) mod 4 = 2" "Suc (Suc (Suc n)) mod 4 = 3"
    using assms(2) by presburger+
  ultimately show ?thesis using assms(2) by simp
qed

lemma group_chars_block:
  assumes "length g = 4"
  shows "group_chars (4 * k) (g @ rest) = (if k = 0 then g else CHR ''-'' # g) @ group_chars (4 * Suc k) rest"
proof -
  have "4 * Suc k = Suc (Suc (Suc (Suc (4 * k))))" by simp
  moreover have "group_chars (4 * k) (g @ rest) =
      (if 4 * k = 0 then g else CHR ''-'' # g) @ group_chars (Suc (Suc (Suc (Suc (4 * k))))) rest"
    by (rule group_chars_four [OF assms]) simp
  ultimately show ?thesis by (simp only: mult_eq_0_iff) simp
qed

lemma group_chars_blocks:
  "\<forall>g \<in> set gs. length g = 4 \<Longrightarrow> group_chars (4 * Suc k) (concat gs) = concat (map ((#) (CHR ''-'')) gs)"
proof (induction gs arbitrary: k)
  case (Cons g gs)
  then show ?case using group_chars_block [of g "Suc k" "concat gs"] Cons.IH [of "Suc k"] by simp
qed simp

lemma canonical_hyphen [simp]: "canonical_char (CHR ''-'') = []"
  by code_simp

lemma canonicalize_groups: "canonicalize (group_chars i cs) = canonicalize cs"
  by (induction cs arbitrary: i) auto

lemma canonicalize_encode: "canonicalize (encode_grouped bs) = code_chars bs"
  by (simp add: encode_grouped_def canonicalize_groups code_chars_eq chunk_chars_facts(3)
      flip: code_chars_def)

lemma code_groups: "\<exists>gs. code_chars bs = concat gs \<and> length gs = 8 \<and> (\<forall>g \<in> set gs. length g = 4 \<and> set g \<subseteq> set CROCKFORD)"
proof -
  let ?h = "\<lambda>k. [take 4 (chunk_chars bs k), drop 4 (chunk_chars bs k)]"
  have a: "concat (map (chunk_chars bs) ks) = concat (concat (map ?h ks))" for ks
    by (induction ks) simp_all
  have b: "length (concat (map ?h ks)) = 2 * length ks" for ks
    by (induction ks) simp_all
  have "length g = 4 \<and> set g \<subseteq> set CROCKFORD" if "g \<in> set (?h k)" for g k
  proof -
    have "length (take 4 (chunk_chars bs k)) = 4" "length (drop 4 (chunk_chars bs k)) = 4"
      using chunk_chars_facts(1) [of bs k] by simp_all
    moreover have "set (take 4 (chunk_chars bs k)) \<subseteq> set CROCKFORD" "set (drop 4 (chunk_chars bs k)) \<subseteq> set CROCKFORD"
      by (rule subset_trans [OF set_take_subset chunk_chars_facts(2)],
        rule subset_trans [OF set_drop_subset chunk_chars_facts(2)])
    moreover have "g = take 4 (chunk_chars bs k) \<or> g = drop 4 (chunk_chars bs k)" using that by simp
    ultimately show ?thesis by metis
  qed
  then have c: "\<forall>g \<in> set (concat (map ?h ks)). length g = 4 \<and> set g \<subseteq> set CROCKFORD" for ks
    unfolding set_concat set_map by blast
  show ?thesis
  proof (intro exI conjI)
    show "code_chars bs = concat (concat (map ?h [0..<4]))" unfolding code_chars_def by (rule a)
    show "length (concat (map ?h [0..<4])) = 8" unfolding b by simp
  qed (rule c)
qed

lemma join_hyphen: "gs \<noteq> [] \<Longrightarrow> join ''-'' gs = hd gs @ concat (map ((#) (CHR ''-'')) (tl gs))"
proof (induction gs)
  case (Cons g gs)
  then show ?case by (cases gs) simp_all
qed simp

lemma group_chars_join:
  "gs \<noteq> [] \<Longrightarrow> \<forall>g \<in> set gs. length g = 4 \<Longrightarrow> group_chars 0 (concat gs) = join ''-'' gs"
  using group_chars_block [of "hd gs" 0 "concat (tl gs)"] group_chars_blocks [of "tl gs" 0]
  by (cases gs) (simp_all add: join_hyphen)

lemma canonical_char_lower: "canonical_char (ascii_lower c) = canonical_char c"
  by (simp add: canonical_char_def)

definition separator :: "char \<Rightarrow> bool" where
  "separator c \<longleftrightarrow> c \<in> {CHR ''-'', CHR '' '', CHR 0x09, CHR 0x0A, CHR 0x0D}"

lemma canonicalize_strip: "canonicalize (filter (\<lambda>c. \<not> separator c) s) = canonicalize s"
proof -
  have "canonical_char (CHR '' '') = []" "canonical_char (CHR 0x09) = []" "canonical_char (CHR 0x0A) = []"
    "canonical_char (CHR 0x0D) = []" by code_simp+
  then show ?thesis by (induction s) (auto simp: separator_def)
qed

lemma active_unique:
  assumes "recovery_codes_ok U rs" and "r \<in> set rs" "q \<in> set rs"
    and "rc_rotated_at r = None" "rc_rotated_at q = None"
  shows "r = q"
proof -
  have "length (filter (\<lambda>r. rc_rotated_at r = None) rs) \<le> 1"
    using assms(1) by (simp add: recovery_codes_ok_def count_where_def)
  moreover have "r \<in> set (filter (\<lambda>r. rc_rotated_at r = None) rs)"
    "q \<in> set (filter (\<lambda>r. rc_rotated_at r = None) rs)" using assms by simp_all
  ultimately show ?thesis by (cases "filter (\<lambda>r. rc_rotated_at r = None) rs") auto
qed

section \<open>Properties\<close>

text \<open>
  C34. Codes are readable and unambiguous: a code is eight groups of four symbols of the
  alphabet joined by hyphens (39 characters); typing it in lower case, without separators or
  with others changes nothing for the hash; and the codes of different random bytes differ
  even after normalisation.
\<close>

theorem recovery_code_readback:
  assumes "length bs = 20"
  shows "(\<exists>gs. encode_grouped bs = join ''-'' gs \<and> length gs = 8
        \<and> (\<forall>g \<in> set gs. length g = 4 \<and> set g \<subseteq> set CROCKFORD))
    \<and> hash_code X (lower (encode_grouped bs)) = hash_code X (encode_grouped bs)
    \<and> hash_code X (filter (\<lambda>c. \<not> separator c) (encode_grouped bs)) = hash_code X (encode_grouped bs)
    \<and> (\<forall>cs. length cs = 20 \<longrightarrow> canonicalize (encode_grouped cs) = canonicalize (encode_grouped bs) \<longrightarrow> cs = bs)"
proof -
  obtain gs where gs: "code_chars bs = concat gs" "length gs = 8"
    "\<forall>g \<in> set gs. length g = 4 \<and> set g \<subseteq> set CROCKFORD"
    using code_groups by blast
  have "encode_grouped bs = join ''-'' gs"
    using gs group_chars_join [of gs] by (cases gs) (auto simp: encode_grouped_def simp flip: code_chars_def)
  moreover have "canonicalize (lower s) = canonicalize s" for s
    by (induction s) (simp_all add: lower_def canonical_char_lower)
  moreover have "cs = bs" if "length cs = 20" "canonicalize (encode_grouped cs) = canonicalize (encode_grouped bs)" for cs
    using code_chars_inj [OF that(1) assms] that(2) by (simp add: canonicalize_encode)
  ultimately show ?thesis using gs(2,3) canonicalize_strip unfolding hash_code_def by metis
qed

theorem recovery_code_readback_witness:
  "hash_code demo_ext (lower (encode_grouped (replicate 20 200))) = hash_code demo_ext (encode_grouped (replicate 20 200))"
  using recovery_code_readback [of "replicate 20 200" demo_ext] by simp

text \<open>
  Rotating the instance recovery code: with the current code the active row is retired and
  a new one inserted, after which exactly the new code verifies; with any other code nothing
  changes. At every moment at most one row is active.
\<close>

theorem recovery_rotate_exact:
  assumes "no_faults X" and "sha256_width X" and "db_ok (w_db w)" and "uid \<in> user_ids (w_db w)"
    and "gen_uuid X (Suc (w_tick w)) \<notin> rc_id ` set (recovery_codes (w_db w))"
    and "recovery_rotate X now current new uid w = (r, w')"
  shows "db_ok (w_db w')
    \<and> (case fst (recovery_verify X current (w_db w)) of
         Inr (Some old_id) \<Rightarrow>
           (\<exists>new_id. r = Inr (Some (new_id, old_id)) \<and> new_id \<noteq> old_id
             \<and> (\<forall>p. fst (recovery_verify X p (w_db w')) =
                  Inr (if hash_code X p = hash_code X new then Some new_id else None)))
       | _ \<Rightarrow> r = Inr None \<and> w_db w' = w_db w)"
proof -
  let ?rs = "recovery_codes (w_db w)"
  let ?p = "\<lambda>r. rc_rotated_at r = None \<and> rc_code_hash r = hash_code X current"
  let ?f = "\<lambda>r. r\<lparr>rc_rotated_at := Some now, rc_rotated_by_user_id := Some uid\<rparr>"
  let ?new = "\<lparr>rc_id = gen_uuid X (Suc (w_tick w)), rc_code_hash = hash_code X new, rc_created_at = now,
       rc_created_by_user_id = Some uid, rc_rotated_at = None, rc_rotated_by_user_id = None\<rparr>"
  have rok: "recovery_codes_ok (user_ids (w_db w)) ?rs" using db_okD(16) [OF assms(3)] .
  show ?thesis
  proof (cases "fetch_optional (filter ?p ?rs)")
    case None
    then have "r = Inr None \<and> w_db w' = w_db w"
      using assms(6) by (auto simp: recovery_rotate_def andthen_def exec_no_fault [OF assms(1)]
          retire_code_def sql_ok_def)
    with None assms(3) show ?thesis by (simp add: recovery_verify_def query_def)
  next
    case (Some old)
    then have old: "old \<in> set ?rs" "rc_rotated_at old = None" by (auto dest: fetch_filter_SomeD)
    define d1 where "d1 = (w_db w)\<lparr>recovery_codes := upd_where ?p ?f ?rs\<rparr>"
    have ret: "retire_code now (hash_code X current) uid (w_db w) = (Inr (Some (rc_id old)), d1)"
      using Some assms(4) by (simp add: retire_code_def sql_ok_def d1_def)
    have idle: "rc_rotated_at q \<noteq> None" if "q \<in> set (recovery_codes d1)" for q
      using that active_unique [OF rok _ old(1) _ old(2)] fetch_filter_SomeD [OF Some]
      by (auto simp: d1_def set_upd_where)
    have ids: "rc_id ` set (recovery_codes d1) = rc_id ` set ?rs"
      by (simp add: d1_def map_inj_upd_where)
    have ins: "insert_recovery_code ?new d1 = (Inr (rc_id ?new), d1\<lparr>recovery_codes := recovery_codes d1 @ [?new]\<rparr>)"
    proof -
      have "(\<exists>q \<in> set (recovery_codes d1). rc_rotated_at q = None) = False" using idle by blast
      moreover have "length (hash_code X new) = 32" using assms(2) by (simp add: hash_code_def sha256_width_def)
      moreover have "uid \<in> user_ids d1" using assms(4) by (simp add: d1_def user_ids_def)
      ultimately show ?thesis using assms(5) ids
        by (simp add: insert_recovery_code_def sql_ok_def del: split_paired_Ex not_None_eq)
    qed
    then have run: "r = Inr (Some (rc_id ?new, rc_id old))"
      "w_db w' = d1\<lparr>recovery_codes := recovery_codes d1 @ [?new]\<rparr>"
      using assms(6) ret
      by (auto simp: recovery_rotate_def andthen_def exec_no_fault [OF assms(1)] recovery_bootstrap_def)
    have ok: "db_ok (w_db w')"
      using retire_code_keep [of "w_db w" now "hash_code X current" uid]
        insert_recovery_code_keep [of d1 ?new] ret ins run(2) assms(3)
      by (simp add: db_keep_def)
    have none: "filter (\<lambda>r. rc_rotated_at r = None \<and> rc_code_hash r = h) (recovery_codes d1) = []" for h
      using idle by (auto simp: filter_empty_conv)
    have "fst (recovery_verify X p (w_db w')) = Inr (if hash_code X p = hash_code X new then Some (rc_id ?new) else None)" for p
      by (simp add: recovery_verify_def run(2) none)
    moreover have "rc_id ?new \<noteq> rc_id old" using assms(5) old(1) by auto
    ultimately show ?thesis using Some ok run by (simp add: recovery_verify_def query_def)
  qed
qed

definition coded_world :: world where
  "coded_world = demo_world\<lparr>w_db := empty_db\<lparr>users :=
     [\<lparr>u_id = 7, u_email = ''ada@b.c'', u_display_name = ''Ada'', u_lifecycle = Active,
       u_instance_role = Owner, u_kind = KindMember, u_locale = None, u_created_at = 0, u_updated_at = 0\<rparr>],
     recovery_codes := [\<lparr>rc_id = 9, rc_code_hash = hash_code demo_ext ''AAAA'', rc_created_at = 0,
       rc_created_by_user_id = None, rc_rotated_at = None, rc_rotated_by_user_id = None\<rparr>]\<rparr>\<rparr>"

lemma coded_world_ok: "db_ok (w_db coded_world)"
  using empty_db_ok
  by (simp add: coded_world_def db_ok_def user_ids_def table_ok_defs machine_ids_def app_ids_def hash_code_def)

theorem recovery_rotate_exact_witness:
  "\<exists>new_id w'. recovery_rotate demo_ext 5 ''aa-aa'' ''BBBB'' 7 coded_world = (Inr (Some (new_id, 9)), w')
     \<and> fst (recovery_verify demo_ext ''bbbb'' (w_db w')) = Inr (Some new_id)"
proof -
  obtain r w' where run: "recovery_rotate demo_ext 5 ''aa-aa'' ''BBBB'' 7 coded_world = (r, w')" by fastforce
  have h: "hash_code demo_ext ''aa-aa'' = hash_code demo_ext ''AAAA''"
    "hash_code demo_ext ''bbbb'' = hash_code demo_ext ''BBBB''"
    by code_simp+
  have "fst (recovery_verify demo_ext ''aa-aa'' (w_db coded_world)) = Inr (Some 9)"
    using h by (simp add: recovery_verify_def coded_world_def)
  with recovery_rotate_exact [OF _ _ coded_world_ok _ _ run] h run show ?thesis
    by (auto simp: demo_ext_documented user_ids_def coded_world_def)
qed

end
