(* ===== verification/Registry.thy ===== *)
theory Registry
imports Integrity Audit_Log
begin

text \<open>
  \<open>platform::registry\<close>: trusted publishers, registered apps, and the signed declaration of an
  app. The row types are \<open>trusted_publisher\<close> and \<open>registered_app\<close> of the schema.
\<close>

section \<open>Declarations\<close>

record app_declaration =
  decl_app_identifier :: string
  decl_display_name :: string
  decl_publisher :: string
  decl_app_public_key :: bytes
  decl_schema_version :: int
  decl_resource_types :: "string list"

text \<open>\<open>format!("{b:02x}")\<close> for each byte.\<close>

definition hex :: "bytes \<Rightarrow> string" where
  "hex bytes = concat (map (\<lambda>b.
     [hex_table ! (unat b div 16), hex_table ! (unat b mod 16)]) bytes)"

definition declaration_text :: "app_declaration \<Rightarrow> string" where
  "declaration_text decl =
     (let types = sort (decl_resource_types decl) in
      ''sylva-app-registration:v1'' @ [CHR 0x0A]
      @ ''app_identifier='' @ decl_app_identifier decl @ [CHR 0x0A]
      @ ''display_name='' @ decl_display_name decl @ [CHR 0x0A]
      @ ''publisher='' @ decl_publisher decl @ [CHR 0x0A]
      @ ''schema_version='' @ dec_int (decl_schema_version decl) @ [CHR 0x0A]
      @ ''app_public_key='' @ hex (decl_app_public_key decl) @ [CHR 0x0A]
      @ ''resource_types='' @ join '','' types)"

definition canonical_declaration_bytes :: "app_declaration \<Rightarrow> bytes" where
  "canonical_declaration_bytes decl = as_bytes (declaration_text decl)"

definition verify_declaration_signature :: "ext \<Rightarrow> bytes \<Rightarrow> app_declaration \<Rightarrow> bytes \<Rightarrow> bool" where
  "verify_declaration_signature X publisher_public_key decl signature =
     (if length publisher_public_key \<noteq> 32 then False
      else if \<not> ed25519_key X publisher_public_key then False
      else if length signature \<noteq> 64 then False
      else ed25519_verify X publisher_public_key (canonical_declaration_bytes decl) signature)"

section \<open>Trusted publishers\<close>

record publisher_row =
  pub_publisher :: string
  pub_public_key :: bytes

record publisher_item =
  pi_publisher :: string
  pi_public_key :: bytes
  pi_added_by_name :: "string option"
  pi_added_at :: time

definition get_trusted_publisher :: "string \<Rightarrow> publisher_row option stmt" where
  "get_trusted_publisher publisher = query (\<lambda>d. map_option
     (\<lambda>r. \<lparr>pub_publisher = tp_publisher r, pub_public_key = tp_public_key r\<rparr>)
     (fetch_optional (filter (\<lambda>r. tp_publisher r = publisher) (trusted_publishers d))))"

text \<open>\<open>LEFT JOIN identity.users u ON u.id = x\<close> for a nullable key: the display name, if any.\<close>

definition joined_name :: "database \<Rightarrow> uuid option \<Rightarrow> string option" where
  "joined_name d x = (case x of None \<Rightarrow> None
     | Some uid \<Rightarrow> map_option u_display_name (fetch_optional (filter (\<lambda>u. u_id u = uid) (users d))))"

definition list_trusted_publishers :: "publisher_item list stmt" where
  "list_trusted_publishers = query (\<lambda>d. order_asc pi_publisher (map (\<lambda>r.
     \<lparr>pi_publisher = tp_publisher r, pi_public_key = tp_public_key r,
      pi_added_by_name = joined_name d (tp_added_by r), pi_added_at = tp_added_at r\<rparr>)
     (trusted_publishers d)))"

definition remove_trusted_publisher :: "string \<Rightarrow> bool stmt" where
  "remove_trusted_publisher publisher d =
     sql_ok (0 < count_where (\<lambda>r. tp_publisher r = publisher) (trusted_publishers d))
       (d\<lparr>trusted_publishers := filter (\<lambda>r. tp_publisher r \<noteq> publisher) (trusted_publishers d)\<rparr>)"

definition dangling :: "uuid option \<Rightarrow> uuid set \<Rightarrow> bool" where
  "dangling x A = (case x of None \<Rightarrow> False | Some a \<Rightarrow> a \<notin> A)"

definition add_trusted_publisher :: "time \<Rightarrow> string \<Rightarrow> bytes \<Rightarrow> uuid option \<Rightarrow> unit stmt" where
  "add_trusted_publisher now publisher public_key added_by d =
     (if dangling added_by (user_ids d) then sql_err ForeignKeyViolation d
      else if publisher \<in> tp_publisher ` set (trusted_publishers d)
      then sql_ok () (d\<lparr>trusted_publishers := upd_where (\<lambda>r. tp_publisher r = publisher)
             (\<lambda>r. r\<lparr>tp_public_key := public_key, tp_added_by := added_by, tp_added_at := now\<rparr>)
             (trusted_publishers d)\<rparr>)
      else sql_ok () (d\<lparr>trusted_publishers := trusted_publishers d
             @ [\<lparr>tp_publisher = publisher, tp_public_key = public_key, tp_added_by = added_by,
                 tp_added_at = now\<rparr>]\<rparr>))"

section \<open>Registered apps\<close>

definition get_app :: "uuid \<Rightarrow> registered_app option stmt" where
  "get_app app_id = query (\<lambda>d. fetch_optional (filter (\<lambda>a. a_id a = app_id) (registered_apps d)))"

definition get_app_by_identifier :: "string \<Rightarrow> registered_app option stmt" where
  "get_app_by_identifier app_identifier = query (\<lambda>d. fetch_optional
     (filter (\<lambda>a. a_app_identifier a = app_identifier) (registered_apps d)))"

record app_list_item =
  ai_id :: uuid
  ai_app_identifier :: string
  ai_display_name :: string
  ai_publisher :: string
  ai_schema_version :: int
  ai_resource_types :: "string list"
  ai_status :: string
  ai_created_at :: time
  ai_updated_at :: time
  ai_resource_count :: int

definition live_of_app :: "uuid \<Rightarrow> resource \<Rightarrow> bool" where
  "live_of_app app_id r = (r_app_id r = app_id \<and> r_deleted_at r = None)"

definition list_apps_with_counts :: "app_list_item list stmt" where
  "list_apps_with_counts = query (\<lambda>d. order_asc ai_app_identifier (map (\<lambda>a.
     \<lparr>ai_id = a_id a, ai_app_identifier = a_app_identifier a, ai_display_name = a_display_name a,
      ai_publisher = a_publisher a, ai_schema_version = a_schema_version a,
      ai_resource_types = a_resource_types a, ai_status = a_status a,
      ai_created_at = a_created_at a, ai_updated_at = a_updated_at a,
      ai_resource_count = int (count_where (live_of_app (a_id a)) (resources d))\<rparr>)
     (registered_apps d)))"

definition set_app_status :: "time \<Rightarrow> uuid \<Rightarrow> string \<Rightarrow> registered_app option stmt" where
  "set_app_status now app_id status d =
     (let apps = upd_where (\<lambda>a. a_id a = app_id)
            (\<lambda>a. a\<lparr>a_status := status, a_updated_at := now\<rparr>) (registered_apps d)
      in sql_ok (fetch_optional (filter (\<lambda>a. a_id a = app_id) apps)) (d\<lparr>registered_apps := apps\<rparr>))"

text \<open>\<open>resources.app_id\<close> is \<open>ON DELETE CASCADE\<close>.\<close>

definition delete_app :: "uuid \<Rightarrow> registered_app option stmt" where
  "delete_app app_id d =
     sql_ok (fetch_optional (filter (\<lambda>a. a_id a = app_id) (registered_apps d)))
       (d\<lparr>registered_apps := filter (\<lambda>a. a_id a \<noteq> app_id) (registered_apps d),
          resources := filter (\<lambda>r. r_app_id r \<noteq> app_id) (resources d)\<rparr>)"

definition count_app_resources :: "uuid \<Rightarrow> int stmt" where
  "count_app_resources app_id = query (\<lambda>d. int (count_where (live_of_app app_id) (resources d)))"

definition upsert_app :: "uuid \<Rightarrow> time \<Rightarrow> app_declaration \<Rightarrow> uuid option \<Rightarrow> registered_app stmt" where
  "upsert_app new_id now decl registered_by d =
     (case fetch_optional (filter (\<lambda>a. a_app_identifier a = decl_app_identifier decl) (registered_apps d)) of
        Some a \<Rightarrow>
          (let f = (\<lambda>a. a\<lparr>a_display_name := decl_display_name decl, a_publisher := decl_publisher decl,
                 a_app_public_key := decl_app_public_key decl,
                 a_schema_version := decl_schema_version decl,
                 a_resource_types := decl_resource_types decl, a_updated_at := now\<rparr>)
           in sql_ok (f a) (d\<lparr>registered_apps :=
                upd_where (\<lambda>a. a_app_identifier a = decl_app_identifier decl) f (registered_apps d)\<rparr>))
      | None \<Rightarrow>
          (let a = \<lparr>a_id = new_id, a_app_identifier = decl_app_identifier decl,
                 a_display_name = decl_display_name decl, a_publisher = decl_publisher decl,
                 a_app_public_key = decl_app_public_key decl,
                 a_schema_version = decl_schema_version decl,
                 a_resource_types = decl_resource_types decl, a_status = ''enabled'',
                 a_registered_by = registered_by, a_created_at = now, a_updated_at = now\<rparr>
           in if new_id \<in> app_ids d then sql_err UniqueViolation d
              else if dangling registered_by (user_ids d) then sql_err ForeignKeyViolation d
              else sql_ok a (d\<lparr>registered_apps := registered_apps d @ [a]\<rparr>)))"

section \<open>Constraints\<close>

lemma publisher_statements_keep:
  "db_keep d (snd (remove_trusted_publisher p d))"
  "db_keep d (snd (add_trusted_publisher now p k who d))"
  using db_okD(24,25) [of d]
  by (auto simp: remove_trusted_publisher_def add_trusted_publisher_def dangling_def opt_refs_filter
      intro!: db_keepI db_ok_table opt_refs_upd split: option.splits)

text \<open>The apps and the resources that refer to them, replaced together.\<close>

lemma db_ok_apps:
  assumes "db_ok d" and "apps_ok (user_ids d) as"
    and "resources_ok (user_ids d) (a_id ` set as) (resource_change_seq d) rs"
  shows "db_ok (d\<lparr>registered_apps := as, resources := rs\<rparr>)"
  using assms by (simp add: db_ok_def user_ids_def machine_ids_def app_ids_def)

lemma db_ok_more_apps:
  assumes "db_ok d" and "apps_ok (user_ids d) as" and "app_ids d \<subseteq> a_id ` set as"
  shows "db_ok (d\<lparr>registered_apps := as\<rparr>)"
proof -
  have "resources_ok (user_ids d) (a_id ` set as) (resource_change_seq d) (resources d)"
    using db_okD(27) [OF assms(1)] refs_mono [OF _ assms(3), of r_app_id "resources d"]
    by (simp add: resources_ok_def)
  with db_ok_apps [OF assms(1,2), of "resources d"] show ?thesis by simp
qed

lemma app_statements_keep:
  "db_keep d (snd (set_app_status now app_id status d))"
  "db_keep d (snd (upsert_app new_id now decl who d))"
  using db_okD(26) [of d]
  by (auto simp: set_app_status_def upsert_app_def apps_ok_def app_ids_def Let_def map_inj_upd_where
      dangling_def filter_empty_conv intro!: db_keepI db_ok_more_apps split: option.splits) blast+

lemma delete_app_keep: "db_keep d (snd (delete_app app_id d))"
proof (rule db_keepI)
  assume ok: "db_ok d"
  have "apps_ok (user_ids d) (filter (\<lambda>a. a_id a \<noteq> app_id) (registered_apps d))"
    using db_okD(26) [OF ok] by (auto simp: apps_ok_def opt_refs_filter)
  moreover have "resources_ok (user_ids d) (a_id ` set (filter (\<lambda>a. a_id a \<noteq> app_id) (registered_apps d)))
      (resource_change_seq d) (filter (\<lambda>r. r_app_id r \<noteq> app_id) (resources d))"
    using db_okD(27) [OF ok]
    by (auto simp: resources_ok_def refs_filter app_ids_def refs_def distinct_map_filter)
  ultimately show "db_ok (snd (delete_app app_id d))"
    using ok by (simp add: delete_app_def db_ok_apps)
qed (simp_all add: delete_app_def)

section \<open>The signed text\<close>

lemma hex_eq: "hex bs = hex_encode bs"
proof -
  have "unat (drop_bit 4 b) = unat b div 16" "unat (b AND 15) = unat b mod 16" for b :: u8
    using unat_and_15 [of b] by (simp_all add: drop_bit_eq_div unat_div_distrib)
  then show ?thesis by (simp add: hex_def hex_encode_def)
qed

lemma split_at:
  assumes "c \<notin> set s" "c \<notin> set t"
  shows "s @ c # s' = t @ c # t' \<longleftrightarrow> s = t \<and> s' = t'"
  using assms
proof (induction s arbitrary: t)
  case Nil
  then show ?case by (cases t) auto
next
  case (Cons x xs)
  then show ?case by (cases t) auto
qed

lemma dec_int_no_newline: "CHR 0x0A \<notin> set (dec_int i)"
proof -
  have "\<not> is_ascii_digit (CHR 0x0A)" by (simp add: is_ascii_digit_def less_eq_char_def)
  then show ?thesis
    using dec_digits [of "nat i"] dec_digits [of "nat (- i)"] by (auto simp: dec_int_def)
qed

lemma hex_no_newline: "CHR 0x0A \<notin> set (hex bs)"
  using set_hex_encode [of bs] by (auto simp: hex_eq hex_table_def)

lemma join_comma_inj:
  assumes "\<forall>s \<in> set xs. s \<noteq> [] \<and> CHR '','' \<notin> set s" "\<forall>s \<in> set ys. s \<noteq> [] \<and> CHR '','' \<notin> set s"
    and "join '','' xs = join '','' ys"
  shows "xs = ys"
  using assms
proof (induction "'',''" xs arbitrary: ys rule: join.induct)
  case 1
  then show ?case by (cases ys rule: remdups_adj.cases) auto
next
  case (2 x)
  then show ?case by (cases ys rule: remdups_adj.cases) auto
next
  case (3 x y zs)
  then obtain x' y' zs' where ys: "ys = x' # y' # zs'"
    by (cases ys rule: remdups_adj.cases) auto
  with "3.prems" have "x = x' \<and> join '','' (y # zs) = join '','' (y' # zs')"
    using split_at [of "CHR '',''" x x'] by simp
  with "3.hyps" [of "y' # zs'"] "3.prems" ys show ?case by simp
qed

text \<open>A declaration whose lines cannot be confused with one another.\<close>

definition plain_declaration :: "app_declaration \<Rightarrow> bool" where
  "plain_declaration decl \<longleftrightarrow>
     CHR 0x0A \<notin> set (decl_app_identifier decl) \<and> CHR 0x0A \<notin> set (decl_display_name decl)
     \<and> CHR 0x0A \<notin> set (decl_publisher decl)
     \<and> (\<forall>s \<in> set (decl_resource_types decl). s \<noteq> [] \<and> CHR '','' \<notin> set s)"

definition same_declaration :: "app_declaration \<Rightarrow> app_declaration \<Rightarrow> bool" where
  "same_declaration d1 d2 \<longleftrightarrow>
     d1\<lparr>decl_resource_types := []\<rparr> = d2\<lparr>decl_resource_types := []\<rparr>
     \<and> sort (decl_resource_types d1) = sort (decl_resource_types d2)"

section \<open>Properties\<close>

text \<open>
  What a publisher signs determines the declaration: for declarations whose identifier, name
  and publisher have no line break and whose resource types are non-empty and have no comma,
  the canonical bytes agree exactly when every field agrees and the resource types agree up to
  their order.
\<close>

theorem declaration_bytes_unambiguous:
  assumes "plain_declaration d1" and "plain_declaration d2"
  shows "canonical_declaration_bytes d1 = canonical_declaration_bytes d2 \<longleftrightarrow> same_declaration d1 d2"
proof
  assume "canonical_declaration_bytes d1 = canonical_declaration_bytes d2"
  then have f: "decl_app_identifier d1 = decl_app_identifier d2" "decl_display_name d1 = decl_display_name d2"
    "decl_publisher d1 = decl_publisher d2" "dec_int (decl_schema_version d1) = dec_int (decl_schema_version d2)"
    "hex (decl_app_public_key d1) = hex (decl_app_public_key d2)"
    "join '','' (sort (decl_resource_types d1)) = join '','' (sort (decl_resource_types d2))"
    using assms
    by (simp_all add: canonical_declaration_bytes_def declaration_text_def plain_declaration_def
        split_at dec_int_no_newline hex_no_newline)
  have "sort (decl_resource_types d1) = sort (decl_resource_types d2)"
    using assms f(6) by (intro join_comma_inj) (auto simp: plain_declaration_def)
  then show "same_declaration d1 d2"
    using f(1-5) dec_int_inj [OF f(4)] by (simp add: same_declaration_def hex_eq)
next
  assume "same_declaration d1 d2"
  then show "canonical_declaration_bytes d1 = canonical_declaration_bytes d2"
    by (cases d1; cases d2) (simp add: same_declaration_def canonical_declaration_bytes_def declaration_text_def)
qed

definition demo_decl :: app_declaration where
  "demo_decl = \<lparr>decl_app_identifier = ''garden.tasks'', decl_display_name = ''Tasks'',
     decl_publisher = ''Ubivera'', decl_app_public_key = [7], decl_schema_version = 1,
     decl_resource_types = [''task'', ''project'']\<rparr>"

theorem declaration_bytes_unambiguous_witness:
  "canonical_declaration_bytes demo_decl =
     canonical_declaration_bytes (demo_decl\<lparr>decl_resource_types := [''project'', ''task'']\<rparr>)
   \<and> canonical_declaration_bytes demo_decl \<noteq>
     canonical_declaration_bytes (demo_decl\<lparr>decl_publisher := ''Evil''\<rparr>)"
proof -
  have p: "plain_declaration demo_decl" "plain_declaration (demo_decl\<lparr>decl_resource_types := [''project'', ''task'']\<rparr>)"
    "plain_declaration (demo_decl\<lparr>decl_publisher := ''Evil''\<rparr>)"
    by (simp_all add: plain_declaration_def demo_decl_def)
  have s: "sort [''task'', ''project''] = sort [''project'', ''task'']" by code_simp
  show ?thesis
    using declaration_bytes_unambiguous [OF p(1,2)] declaration_bytes_unambiguous [OF p(1,3)] s
    by (simp add: same_declaration_def demo_decl_def)
qed


text \<open>
  Registering an app again keeps who it is: \<open>upsert_app\<close> leaves one row for the identifier,
  which carries the declared fields; if the app was already there its server id, status,
  registering user and creation time are those of before (so a disabled app stays disabled);
  no other app and no resource changes.
\<close>

theorem upsert_app_keeps_identity:
  assumes "db_ok d" and "upsert_app new_id now decl who d = (Inr a, d')"
  shows "db_ok d'
    \<and> get_app_by_identifier (decl_app_identifier decl) d' = (Inr (Some a), d')
    \<and> a_display_name a = decl_display_name decl \<and> a_publisher a = decl_publisher decl
    \<and> a_app_public_key a = decl_app_public_key decl \<and> a_schema_version a = decl_schema_version decl
    \<and> a_resource_types a = decl_resource_types decl
    \<and> (\<forall>old \<in> set (registered_apps d). a_app_identifier old = decl_app_identifier decl \<longrightarrow>
         a_id a = a_id old \<and> a_status a = a_status old \<and> a_registered_by a = a_registered_by old
         \<and> a_created_at a = a_created_at old)
    \<and> filter (\<lambda>q. a_app_identifier q \<noteq> decl_app_identifier decl) (registered_apps d')
      = filter (\<lambda>q. a_app_identifier q \<noteq> decl_app_identifier decl) (registered_apps d)
    \<and> resources d' = resources d"
proof -
  have ok': "db_ok d'"
    using app_statements_keep(2) [of d new_id now decl who] assms by (simp add: db_keep_def)
  have keyed': "keyed a_app_identifier (registered_apps d')"
    using db_okD(26) [OF ok'] by (simp add: apps_ok_def)
  have found: "fetch_optional (filter (\<lambda>q. a_app_identifier q = decl_app_identifier decl) (registered_apps d'))
      = Some a" if "a \<in> set (registered_apps d')" "a_app_identifier a = decl_app_identifier decl"
    using keyed' that(1) by (rule fetch_keyed) (simp_all add: that(2))
  show ?thesis
  proof (cases "fetch_optional (filter (\<lambda>q. a_app_identifier q = decl_app_identifier decl) (registered_apps d))")
    case None
    with assms(2) have "a \<in> set (registered_apps d')" "a_app_identifier a = decl_app_identifier decl"
      by (auto simp: upsert_app_def Let_def sql_ok_def sql_err_def split: if_splits)
    with None assms(2) ok' found show ?thesis
      by (auto simp: upsert_app_def Let_def sql_ok_def sql_err_def get_app_by_identifier_def query_def
          filter_empty_conv split: if_splits)
  next
    case (Some old)
    then have old: "old \<in> set (registered_apps d)" "a_app_identifier old = decl_app_identifier decl"
      by (auto dest: fetch_filter_SomeD)
    have uniq: "q = old" if "q \<in> set (registered_apps d)" "a_app_identifier q = decl_app_identifier decl" for q
      using db_okD(26) [OF assms(1)] that old by (auto simp: apps_ok_def intro: keyed_eqD)
    from Some assms(2) old have "a \<in> set (registered_apps d')" "a_app_identifier a = decl_app_identifier decl"
      by (auto simp: upsert_app_def Let_def sql_ok_def set_upd_where)
    with found have "get_app_by_identifier (decl_app_identifier decl) d' = (Inr (Some a), d')"
      by (simp add: get_app_by_identifier_def query_def)
    with Some assms(2) ok' show ?thesis
      by (auto simp: upsert_app_def Let_def sql_ok_def filter_upd_other dest: uniq)
  qed
qed

theorem upsert_app_keeps_identity_witness:
  "\<exists>d1 d2 a1 a2. upsert_app 5 0 demo_decl None empty_db = (Inr a1, d1)
     \<and> upsert_app 6 9 (demo_decl\<lparr>decl_display_name := ''New''\<rparr>) None d1 = (Inr a2, d2)
     \<and> a_id a2 = 5 \<and> a_display_name a2 = ''New''"
proof -
  obtain a1 d1 where 1: "upsert_app 5 0 demo_decl None empty_db = (Inr a1, d1)"
    "registered_apps d1 = [a1]" "a_id a1 = 5" "a_app_identifier a1 = ''garden.tasks''"
    by (simp add: upsert_app_def sql_ok_def demo_decl_def app_ids_def dangling_def Let_def)
  have ok: "db_ok d1"
    using app_statements_keep(2) [of empty_db 5 0 demo_decl None] 1(1) empty_db_ok by (simp add: db_keep_def)
  obtain a2 d2 where 2: "upsert_app 6 9 (demo_decl\<lparr>decl_display_name := ''New''\<rparr>) None d1 = (Inr a2, d2)"
    using 1(2,4) by (simp add: upsert_app_def sql_ok_def demo_decl_def Let_def)
  with upsert_app_keeps_identity [OF ok 2] 1 show ?thesis
    by (intro exI [of _ d1] exI [of _ d2] exI [of _ a1] exI [of _ a2]) (simp add: demo_decl_def)
qed

text \<open>
  Deleting an app reaps exactly what belongs to it: it answers the row, if there was one;
  afterwards neither the app nor any of its resources, tombstones included, is left; every
  other app and resource is unchanged, and the constraints hold.
\<close>

theorem delete_app_exact:
  assumes "db_ok d" and "delete_app app_id d = (r, d')"
  shows "db_ok d' \<and> get_app app_id d' = (Inr None, d') \<and> count_app_resources app_id d' = (Inr 0, d')
    \<and> (\<forall>a. r = Inr (Some a) \<longleftrightarrow> a \<in> set (registered_apps d) \<and> a_id a = app_id)
    \<and> set (registered_apps d') = {a \<in> set (registered_apps d). a_id a \<noteq> app_id}
    \<and> set (resources d') = {q \<in> set (resources d). r_app_id q \<noteq> app_id}"
proof -
  have row: "fetch_optional (filter (\<lambda>a. a_id a = app_id) (registered_apps d)) = Some a \<longleftrightarrow>
      a \<in> set (registered_apps d) \<and> a_id a = app_id" for a
  proof
    assume "a \<in> set (registered_apps d) \<and> a_id a = app_id"
    then show "fetch_optional (filter (\<lambda>a. a_id a = app_id) (registered_apps d)) = Some a"
      using db_okD(26) [OF assms(1)] by (auto simp: apps_ok_def intro!: fetch_keyed [where key = a_id])
  qed (rule fetch_filter_SomeD)
  have r: "r = Inr (fetch_optional (filter (\<lambda>a. a_id a = app_id) (registered_apps d)))"
    and d': "registered_apps d' = filter (\<lambda>a. a_id a \<noteq> app_id) (registered_apps d)"
      "resources d' = filter (\<lambda>q. r_app_id q \<noteq> app_id) (resources d)"
    using assms(2) by (auto simp: delete_app_def sql_ok_def)
  have "db_ok d'"
    using delete_app_keep [of d app_id] assms by (simp add: db_keep_def)
  moreover have "filter (\<lambda>a. a_id a = app_id) (registered_apps d') = []"
    "filter (live_of_app app_id) (resources d') = []"
    by (auto simp: d' live_of_app_def filter_empty_conv)
  moreover have "\<forall>a. r = Inr (Some a) \<longleftrightarrow> a \<in> set (registered_apps d) \<and> a_id a = app_id"
    using row by (simp only: r sum.inject simp_thms)
  ultimately show ?thesis
    by (simp add: get_app_def query_def count_app_resources_def count_where_def d')
qed

theorem delete_app_exact_witness:
  "delete_app 5 empty_db = (Inr None, empty_db\<lparr>registered_apps := [], resources := []\<rparr>)
     \<and> db_ok (empty_db\<lparr>registered_apps := [], resources := []\<rparr>)"
proof -
  have "delete_app 5 empty_db = (Inr None, empty_db\<lparr>registered_apps := [], resources := []\<rparr>)"
    by (simp add: delete_app_def sql_ok_def)
  with delete_app_exact [OF empty_db_ok this] show ?thesis by simp
qed

end
