(* ===== verification/Rpc.thy ===== *)
theory Rpc
imports Auth_Sessions Identity_Users
begin

text \<open>
  What every gRPC service shares: request metadata, the client key of the rate limiter, the
  parsing of identifiers, and \<open>authenticate\<close>, which turns a bearer token into an account.
\<close>

section \<open>Metadata\<close>

text \<open>A metadata value as \<open>to_str\<close> sees it: readable ASCII, or not.\<close>

datatype metadata_value = Ascii string | NotAscii

definition to_str :: "metadata_value \<Rightarrow> string option" where
  "to_str v = (case v of Ascii s \<Rightarrow> Some s | NotAscii \<Rightarrow> None)"

record metadata =
  md_authorization :: "metadata_value option"
  md_x_forwarded_for :: "metadata_value option"
  md_remote_addr :: "string option"

definition forwarded_hop :: "metadata \<Rightarrow> string option" where
  "forwarded_hop md =
     (case md_x_forwarded_for md of None \<Rightarrow> None
      | Some value \<Rightarrow> (case to_str value of None \<Rightarrow> None
         | Some text \<Rightarrow> (let first = split_first CHR '','' text in
             if trim first = [] then None else Some (trim first))))"

definition rate_key :: "metadata \<Rightarrow> bool \<Rightarrow> string" where
  "rate_key md trust_proxy =
     (case (if trust_proxy then forwarded_hop md else None) of
        Some hop \<Rightarrow> hop
      | None \<Rightarrow> (case md_remote_addr md of Some ip \<Rightarrow> ip | None \<Rightarrow> ''direct''))"

definition parse_uuid :: "ext \<Rightarrow> string \<Rightarrow> string \<Rightarrow> status + uuid" where
  "parse_uuid X value field =
     (case uuid_parse X (trim value) of
        Some u \<Rightarrow> Inr u
      | None \<Rightarrow> Inl (Status InvalidArgument (field @ '' must be a UUID'')))"

definition parse_opt_uuid :: "ext \<Rightarrow> string option \<Rightarrow> string \<Rightarrow> status + uuid option" where
  "parse_opt_uuid X value field =
     (case value of None \<Rightarrow> Inr None
      | Some v \<Rightarrow> (if trim v = [] then Inr None
          else (case parse_uuid X (trim v) field of Inl e \<Rightarrow> Inl e | Inr u \<Rightarrow> Inr (Some u))))"

section \<open>Authentication\<close>

text \<open>The token of an \<open>authorization\<close> header, or \<open>None\<close>.\<close>

definition token_of :: "string \<Rightarrow> string option" where
  "token_of value =
     (case strip_prefix ''Bearer '' value of None \<Rightarrow> None
      | Some rest \<Rightarrow> (if trim rest = [] then None else Some (trim rest)))"

definition bearer_token :: "metadata \<Rightarrow> status + string" where
  "bearer_token md =
     (case md_authorization md of None \<Rightarrow> Inl (Status Unauthenticated ''missing_authorization'')
      | Some raw \<Rightarrow> (case to_str raw of None \<Rightarrow> Inl (Status Unauthenticated ''invalid_authorization'')
         | Some value \<Rightarrow> (case token_of value of
               None \<Rightarrow> Inl (Status Unauthenticated ''invalid_authorization'') | Some token \<Rightarrow> Inr token)))"

definition invalid_session :: status where
  "invalid_session = Status Unauthenticated ''invalid_session''"

definition authenticate :: "ext \<Rightarrow> metadata \<Rightarrow> user rpc" where
  "authenticate X md =
     andthen (from_sum (bearer_token md)) (\<lambda>token.
     andthen (map_err (\<lambda>_. invalid_session) (exec X (\<lambda>n. session_find_active X (pg_now X n) token))) (\<lambda>found.
     andthen (need found invalid_session) (\<lambda>session.
     andthen (map_err (\<lambda>_. invalid_session) (exec X (\<lambda>_. user_find_by_id (s_user_id session)))) (\<lambda>found_user.
     andthen (need found_user invalid_session) (\<lambda>user.
     andthen (attempt (exec X (\<lambda>n. touch_last_seen (pg_now X n) (s_id session)))) (\<lambda>_.
     ret user))))))"

definition actor_of :: "user \<Rightarrow> actor" where
  "actor_of user = \<lparr>act_user_id = u_id user, act_display_name = u_display_name user\<rparr>"

definition role_token :: "instance_role \<Rightarrow> string" where
  "role_token role = (case role of Owner \<Rightarrow> ''owner'' | Admin \<Rightarrow> ''admin'' | Member \<Rightarrow> ''member'')"

section \<open>Facts\<close>

text \<open>\<open>map_err\<close> around a query reads like the query, with one error.\<close>

lemma map_err_query_run:
  "map_err g (exec X (\<lambda>n. query (f n))) w =
     ((if pg_fault X (w_tick w) = NoFault then Inr (f (w_tick w) (w_db w)) else Inl (g ConnectionError)),
      w\<lparr>w_tick := Suc (w_tick w)\<rparr>)"
  by (simp add: map_err_def exec_query_run)

lemma call_query_run:
  "call (exec X (\<lambda>n. query (f n))) w =
     ((if pg_fault X (w_tick w) = NoFault then Inr (f (w_tick w) (w_db w))
       else Inl (Status Internal ''internal error'')), w\<lparr>w_tick := Suc (w_tick w)\<rparr>)"
  by (simp add: call_def map_err_query_run internal_def)

lemma call_Inr: "call m w = (Inr a, w') \<longleftrightarrow> m w = (Inr a, w')"
  by (simp add: call_def)

lemma call_cases:
  assumes "call m w = (r, w')"
  obtains (stop) e where "m w = (Inl e, w')" and "r = Inl (Status Internal ''internal error'')"
  | (go) a where "m w = (Inr a, w')" and "r = Inr a"
  using assms by (auto simp: call_def internal_def elim!: map_err_cases)

text \<open>Every refusal of \<open>authenticate\<close> is \<open>Unauthenticated\<close> with one of three reasons.\<close>

lemma bearer_token_Inl:
  "bearer_token md = Inl e \<Longrightarrow>
     e = Status Unauthenticated ''missing_authorization'' \<or> e = Status Unauthenticated ''invalid_authorization''"
  by (auto simp: bearer_token_def split: option.splits)

lemma bearer_token_Inr:
  "bearer_token md = Inr token \<Longrightarrow> token \<noteq> [] \<and> trim token = token
     \<and> (\<exists>rest. md_authorization md = Some (Ascii (''Bearer '' @ rest)) \<and> token = trim rest)"
  by (auto simp: bearer_token_def token_of_def to_str_def split: option.splits metadata_value.splits if_splits
      dest!: strip_prefix_SomeD)

lemma attempt_Inl [simp]: "attempt m w \<noteq> (Inl e, w')"
  by (simp add: attempt_def split: prod.splits)

text \<open>Touching a session only stamps it, or nothing happens at all.\<close>

lemma attempt_touch:
  assumes "attempt (exec X (\<lambda>n. touch_last_seen (pg_now X n) sid)) w = (r, w')"
  shows "\<exists>q. r = Inr q"
    and "w_limiter w' = w_limiter w"
    and "w_db w' = w_db w \<or> (\<exists>t. w_db w' = snd (touch_last_seen t sid (w_db w)))"
  using assms
  by (auto simp: attempt_def split: prod.splits elim!: exec_cases) (metis snd_conv)+

text \<open>
  What an accepted caller is: a live session under the presented token, of an account that the
  lookup by id finds; the database is that of before but for the last-seen stamp.
\<close>

lemma authenticate_Inr:
  assumes "authenticate X md w = (Inr user, w')"
  obtains token session now where "bearer_token md = Inr token" and "session \<in> set (sessions (w_db w))"
    and "s_token_hash session = hash_token X token" and "session_live (w_db w) now session"
    and "now = pg_now X (w_tick w)"
    and "user \<in> set (users (w_db w))" and "u_id user = s_user_id session" and "manageable user"
    and "w_db w' = w_db w \<or> (\<exists>t. w_db w' = snd (touch_last_seen t (s_id session) (w_db w)))"
    and "w_limiter w' = w_limiter w"
proof -
  obtain token w1 session w2 q where 1: "bearer_token md = Inr token"
    and f: "exec X (\<lambda>n. session_find_active X (pg_now X n) token) w = (Inr (Some session), w1)"
    and u: "exec X (\<lambda>_. user_find_by_id (s_user_id session)) w1 = (Inr (Some user), w2)"
    and t: "(attempt (exec X (\<lambda>n. touch_last_seen (pg_now X n) (s_id session))) :: (sql_error + unit) rpc) w2
        = (Inr q, w')"
    using assms unfolding authenticate_def
    by (auto elim!: andthen_eq_InrE split: option.splits)
  from f have w1: "w1 = w\<lparr>w_tick := Suc (w_tick w)\<rparr>"
    and s: "session_find_active X (pg_now X (w_tick w)) token (w_db w) = (Inr (Some session), w_db w)"
    by (auto elim!: exec_eq_InrE simp: session_find_active_def query_def)
  from u have w2: "w2 = w1\<lparr>w_tick := Suc (w_tick w1)\<rparr>"
    and found: "Some user = fetch_optional (filter (\<lambda>u. u_id u = s_user_id session \<and> manageable u) (users (w_db w1)))"
    by (auto elim!: exec_eq_InrE simp: user_find_by_id_def query_def)
  have "session \<in> set (sessions (w_db w)) \<and> s_token_hash session = hash_token X token
      \<and> session_live (w_db w) (pg_now X (w_tick w)) session"
    using session_store.find_sound [OF s] by (simp add: hash_token_eq)
  moreover have "user \<in> set (users (w_db w)) \<and> u_id user = s_user_id session \<and> manageable user"
    using fetch_filter_SomeD [OF found [symmetric]] w1 by simp
  moreover have "w_db w2 = w_db w" "w_limiter w2 = w_limiter w" using w1 w2 by simp_all
  ultimately show thesis
    using that 1 attempt_touch [OF t] by metis
qed

lemma authenticate_Inl:
  assumes "authenticate X md w = (Inl e, w')"
  shows "status_code e = Unauthenticated" and "w_db w' = w_db w" and "w_limiter w' = w_limiter w"
  using assms
  by (auto simp: authenticate_def map_err_query_run session_find_active_def user_find_by_id_def
      invalid_session_def elim!: andthen_cases dest!: bearer_token_Inl split: option.splits if_splits)

end
