(* ===== verification/Platform_Service.thy ===== *)
theory Platform_Service
imports Rpc Registry Resources
begin

text \<open>
  \<open>platform/src/lib.rs\<close>: the services \<open>Platform\<close> and \<open>Resources\<close>. One definition per RPC,
  with the checks in the order of the code; the wire messages are the records.
\<close>

section \<open>Wire messages\<close>

record who_am_i_response =
  wai_user_id :: string
  wai_display_name :: string
  wai_instance_role :: string

record register_app_request =
  rar_app_identifier :: string
  rar_display_name :: string
  rar_publisher :: string
  rar_app_public_key :: bytes
  rar_schema_version :: int
  rar_resource_types :: "string list"
  rar_signature :: bytes

record app_registration =
  reg_id :: string
  reg_app_identifier :: string
  reg_display_name :: string
  reg_publisher :: string
  reg_schema_version :: int
  reg_resource_types :: "string list"
  reg_status :: string
  reg_created_at :: string
  reg_updated_at :: string

record wire_resource =
  wr_id :: string
  wr_app_id :: string
  wr_resource_type :: string
  wr_app_resource_id :: string
  wr_parent_resource_id :: "string option"
  wr_owner_user_id :: string
  wr_created_at :: string
  wr_updated_at :: string
  wr_deleted_at :: "string option"
  wr_content_blob :: bytes
  wr_content_signature :: bytes
  wr_last_modified_by :: string
  wr_schema_version :: int
  wr_change_seq :: u64

record create_resource_request =
  crr_app_id :: string
  crr_resource_type :: string
  crr_app_resource_id :: string
  crr_parent_resource_id :: "string option"
  crr_content_blob :: bytes
  crr_content_signature :: bytes
  crr_schema_version :: int

record update_resource_request =
  urr_id :: string
  urr_content_blob :: bytes
  urr_content_signature :: bytes
  urr_schema_version :: int
  urr_parent_resource_id :: "string option"

record list_resources_request =
  lrr_app_id :: string
  lrr_resource_type :: string
  lrr_limit :: u32
  lrr_offset :: u32
  lrr_include_deleted :: bool

record stream_changes_request =
  scr_app_id :: string
  scr_resource_type :: string
  scr_since_cursor :: u64
  scr_limit :: u32

definition to_proto :: "ext \<Rightarrow> resource \<Rightarrow> wire_resource" where
  "to_proto X row =
     \<lparr>wr_id = uuid_str X (r_id row), wr_app_id = uuid_str X (r_app_id row),
      wr_resource_type = r_resource_type row,
      wr_app_resource_id = uuid_str X (r_app_resource_id row),
      wr_parent_resource_id = map_option (uuid_str X) (r_parent_resource_id row),
      wr_owner_user_id = uuid_str X (r_owner_user_id row),
      wr_created_at = rfc3339 X (r_created_at row), wr_updated_at = rfc3339 X (r_updated_at row),
      wr_deleted_at = map_option (rfc3339 X) (r_deleted_at row),
      wr_content_blob = r_content_blob row, wr_content_signature = r_content_signature row,
      wr_last_modified_by = uuid_str X (r_last_modified_by row),
      wr_schema_version = r_schema_version row,
      wr_change_seq = (if 0 \<le> r_change_seq row then word_of_int (r_change_seq row) else 0)\<rparr>"

definition app_to_proto :: "ext \<Rightarrow> registered_app \<Rightarrow> app_registration" where
  "app_to_proto X row =
     \<lparr>reg_id = uuid_str X (a_id row), reg_app_identifier = a_app_identifier row,
      reg_display_name = a_display_name row, reg_publisher = a_publisher row,
      reg_schema_version = a_schema_version row, reg_resource_types = a_resource_types row,
      reg_status = a_status row, reg_created_at = rfc3339 X (a_created_at row),
      reg_updated_at = rfc3339 X (a_updated_at row)\<rparr>"

section \<open>Service Platform\<close>

definition who_am_i :: "ext \<Rightarrow> metadata \<Rightarrow> who_am_i_response rpc" where
  "who_am_i X md =
     andthen (authenticate X md) (\<lambda>user.
     ret \<lparr>wai_user_id = uuid_str X (u_id user), wai_display_name = u_display_name user,
          wai_instance_role = role_token (u_instance_role user)\<rparr>)"

definition register_app :: "ext \<Rightarrow> metadata \<Rightarrow> register_app_request \<Rightarrow> app_registration rpc" where
  "register_app X md req =
     andthen (authenticate X md) (\<lambda>user.
     andthen (when_ok (trim (rar_app_identifier req) \<noteq> [] \<and> trim (rar_display_name req) \<noteq> []
                \<and> trim (rar_publisher req) \<noteq> [])
        (Status InvalidArgument ''app_identifier, display_name, and publisher are required'')) (\<lambda>_.
     let decl = \<lparr>decl_app_identifier = rar_app_identifier req,
          decl_display_name = rar_display_name req, decl_publisher = rar_publisher req,
          decl_app_public_key = rar_app_public_key req,
          decl_schema_version = rar_schema_version req,
          decl_resource_types = rar_resource_types req\<rparr> in
     andthen (call (exec X (\<lambda>_. get_trusted_publisher (decl_publisher decl)))) (\<lambda>found.
     andthen (need found (Status PermissionDenied ''publisher is not trusted on this server'')) (\<lambda>publisher.
     andthen (when_ok (verify_declaration_signature X (pub_public_key publisher) decl (rar_signature req))
        (Status PermissionDenied ''invalid publisher signature'')) (\<lambda>_.
     andthen (transact X internal (\<lambda>now.
       andthen (call (exec X (\<lambda>n. upsert_app (gen_uuid X n) now decl (Some (u_id user))))) (\<lambda>row.
       andthen (call (append X (Some (actor_of user)) None ''app_registered''
         (JObj [(''app_id'', JStr (uuid_str X (a_id row))),
                (''app_identifier'', JStr (a_app_identifier row)),
                (''publisher'', JStr (a_publisher row)),
                (''schema_version'', JNum (a_schema_version row))]))) (\<lambda>_.
       ret row)))) (\<lambda>row.
     ret (app_to_proto X row)))))))"

definition get_app_registration :: "ext \<Rightarrow> metadata \<Rightarrow> string \<Rightarrow> app_registration rpc" where
  "get_app_registration X md identifier =
     andthen (authenticate X md) (\<lambda>_.
     andthen (call (exec X (\<lambda>_. get_app_by_identifier identifier))) (\<lambda>found.
     andthen (need found (Status NotFound ''app not registered'')) (\<lambda>row.
     ret (app_to_proto X row))))"

section \<open>Service Resources\<close>

definition DEFAULT_LIST_LIMIT :: u32 where "DEFAULT_LIST_LIMIT = 50"
definition MAX_LIST_LIMIT :: u32 where "MAX_LIST_LIMIT = 200"
definition DEFAULT_CHANGES_LIMIT :: u32 where "DEFAULT_CHANGES_LIMIT = 500"
definition MAX_CHANGES_LIMIT :: u32 where "MAX_CHANGES_LIMIT = 2000"

definition clamp_changes_limit :: "u32 \<Rightarrow> int" where
  "clamp_changes_limit requested =
     uint (if requested = 0 then DEFAULT_CHANGES_LIMIT else min requested MAX_CHANGES_LIMIT)"

definition clamp_limit :: "u32 \<Rightarrow> int" where
  "clamp_limit requested =
     uint (if requested = 0 then DEFAULT_LIST_LIMIT else min requested MAX_LIST_LIMIT)"

text \<open>\<open>i64::try_from(n).unwrap_or(i64::MAX)\<close>.\<close>

definition i64_or_max :: "u64 \<Rightarrow> int" where
  "i64_or_max n = (if uint n \<le> 2 ^ 63 - 1 then uint n else 2 ^ 63 - 1)"

text \<open>The two SQLSTATEs that \<open>create_resource\<close> tells apart.\<close>

definition create_error :: "sql_error \<Rightarrow> status" where
  "create_error err =
     (case err of
        UniqueViolation \<Rightarrow> Status AlreadyExists ''a resource with that app_resource_id already exists''
      | ForeignKeyViolation \<Rightarrow> Status FailedPrecondition ''app is not registered''
      | _ \<Rightarrow> internal err)"

definition create_resource :: "ext \<Rightarrow> metadata \<Rightarrow> create_resource_request \<Rightarrow> wire_resource rpc" where
  "create_resource X md req =
     andthen (authenticate X md) (\<lambda>user.
     andthen (when_ok (trim (crr_resource_type req) \<noteq> [])
        (Status InvalidArgument ''resource_type is required'')) (\<lambda>_.
     andthen (from_sum (parse_uuid X (crr_app_id req) ''app_id'')) (\<lambda>app_id.
     andthen (call (exec X (\<lambda>_. get_app app_id))) (\<lambda>found.
     andthen (need found (Status FailedPrecondition ''app is not registered'')) (\<lambda>app.
     andthen (when_ok (a_status app = ''enabled'') (Status FailedPrecondition ''app is disabled'')) (\<lambda>_.
     andthen (when_ok (list_ex (\<lambda>t. t = crr_resource_type req) (a_resource_types app))
        (Status InvalidArgument (''resource_type '' @ [CHR 0x27] @ crr_resource_type req @ [CHR 0x27]
           @ '' is not declared by app '' @ [CHR 0x27] @ a_app_identifier app @ [CHR 0x27]))) (\<lambda>_.
     andthen (from_sum (parse_uuid X (crr_app_resource_id req) ''app_resource_id'')) (\<lambda>app_resource_id.
     andthen (from_sum (parse_opt_uuid X (crr_parent_resource_id req) ''parent_resource_id'')) (\<lambda>parent.
     andthen (map_err create_error (exec X (\<lambda>n. resource_create (gen_uuid X n) (pg_now X n)
        \<lparr>nr_app_id = app_id, nr_resource_type = crr_resource_type req,
         nr_app_resource_id = app_resource_id, nr_parent_resource_id = parent,
         nr_owner_user_id = u_id user, nr_content_blob = crr_content_blob req,
         nr_content_signature = crr_content_signature req,
         nr_schema_version = crr_schema_version req\<rparr>))) (\<lambda>row.
     ret (to_proto X row)))))))))))"

definition resource_not_found :: status where
  "resource_not_found = Status NotFound ''resource not found''"

definition read_resource :: "ext \<Rightarrow> metadata \<Rightarrow> string \<Rightarrow> wire_resource rpc" where
  "read_resource X md res_id =
     andthen (authenticate X md) (\<lambda>user.
     andthen (from_sum (parse_uuid X res_id ''id'')) (\<lambda>rid.
     andthen (call (exec X (\<lambda>_. get_owned rid (u_id user)))) (\<lambda>found.
     andthen (need found resource_not_found) (\<lambda>row.
     ret (to_proto X row)))))"

definition update_resource :: "ext \<Rightarrow> metadata \<Rightarrow> update_resource_request \<Rightarrow> wire_resource rpc" where
  "update_resource X md req =
     andthen (authenticate X md) (\<lambda>user.
     andthen (from_sum (parse_uuid X (urr_id req) ''id'')) (\<lambda>rid.
     andthen (from_sum (parse_opt_uuid X (urr_parent_resource_id req) ''parent_resource_id'')) (\<lambda>parent.
     andthen (call (exec X (\<lambda>n. update_owned (pg_now X n) rid (u_id user) (urr_content_blob req)
        (urr_content_signature req) (urr_schema_version req) parent))) (\<lambda>found.
     andthen (need found resource_not_found) (\<lambda>row.
     ret (to_proto X row))))))"

definition delete_resource :: "ext \<Rightarrow> metadata \<Rightarrow> string \<Rightarrow> unit rpc" where
  "delete_resource X md res_id =
     andthen (authenticate X md) (\<lambda>user.
     andthen (from_sum (parse_uuid X res_id ''id'')) (\<lambda>rid.
     andthen (call (exec X (\<lambda>n. soft_delete_owned (pg_now X n) rid (u_id user)))) (\<lambda>deleted.
     when_ok deleted resource_not_found)))"

definition list_resources ::
  "ext \<Rightarrow> metadata \<Rightarrow> list_resources_request \<Rightarrow> (wire_resource list \<times> u32) rpc" where
  "list_resources X md req =
     andthen (authenticate X md) (\<lambda>user.
     andthen (when_ok (trim (lrr_resource_type req) \<noteq> [])
        (Status InvalidArgument ''resource_type is required'')) (\<lambda>_.
     andthen (from_sum (parse_uuid X (lrr_app_id req) ''app_id'')) (\<lambda>app_id.
     andthen (call (list_owned X app_id (lrr_resource_type req) (u_id user)
        (clamp_limit (lrr_limit req)) (uint (lrr_offset req)) (lrr_include_deleted req))) (\<lambda>(rows, total).
     ret (map (to_proto X) rows, word_of_int (max total 0))))))"

definition stream_changes :: "ext \<Rightarrow> metadata \<Rightarrow> stream_changes_request \<Rightarrow> wire_resource list rpc" where
  "stream_changes X md req =
     andthen (authenticate X md) (\<lambda>user.
     andthen (from_sum (parse_uuid X (scr_app_id req) ''app_id'')) (\<lambda>app_id.
     let resource_type = (if trim (scr_resource_type req) = [] then None else Some (scr_resource_type req));
         since = i64_or_max (scr_since_cursor req);
         limit = clamp_changes_limit (scr_limit req) in
     andthen (call (exec X (\<lambda>_. list_changes app_id resource_type (u_id user) since limit))) (\<lambda>rows.
     ret (map (to_proto X) rows))))"

section \<open>Facts\<close>

lemma clamp_limit_bounds: "1 \<le> clamp_limit n \<and> clamp_limit n \<le> 200"
proof -
  have "n \<noteq> 0 \<Longrightarrow> 1 \<le> uint n" using uint_ge_0 [of n] by (simp add: unsigned_eq_0_iff order_less_le int_one_le_iff_zero_less)
  then show ?thesis
    by (auto simp: clamp_limit_def DEFAULT_LIST_LIMIT_def MAX_LIST_LIMIT_def min_def word_le_def)
qed

lemma clamp_changes_limit_bounds: "1 \<le> clamp_changes_limit n \<and> clamp_changes_limit n \<le> 2000"
proof -
  have "n \<noteq> 0 \<Longrightarrow> 1 \<le> uint n" using uint_ge_0 [of n] by (simp add: unsigned_eq_0_iff order_less_le int_one_le_iff_zero_less)
  then show ?thesis
    by (auto simp: clamp_changes_limit_def DEFAULT_CHANGES_LIMIT_def MAX_CHANGES_LIMIT_def min_def word_le_def)
qed

end
