(* ===== verification/Account_Service.thy ===== *)
theory Account_Service
imports Rpc Auth_Credentials Identity_Devices
begin

text \<open>
  \<open>platform/src/account.rs\<close>: the service \<open>Account\<close>, the identity plane of the Hub. \<open>bootstrap\<close>
  and \<open>login\<close> are unauthenticated and pass the rate limiter first; every other RPC
  authenticates its caller and acts on that account only.
\<close>

definition MAX_AVATAR_BYTES :: nat where
  "MAX_AVATAR_BYTES = 1024 * 1024"

section \<open>Wire messages\<close>

record proto_key_material =
  pk_x25519_public :: bytes
  pk_ed25519_public :: bytes
  pk_x25519_private_wrapped :: bytes
  pk_ed25519_private_wrapped :: bytes
  pk_master_key_wrapped :: bytes
  pk_kdf_salt :: bytes
  pk_kdf_params :: string

record device_enrollment =
  de_device_label :: string
  de_platform :: string
  de_device_public_key :: bytes
  de_machine_label :: string

record proto_device =
  pd_device_id :: string
  pd_device_label :: string
  pd_platform :: string
  pd_machine_id :: string
  pd_created_at :: string
  pd_last_seen_at :: string
  pd_revoked_at :: string

record proto_session =
  ps_token :: string
  ps_user_id :: string
  ps_expires_at :: string

record profile =
  pr_user_id :: string
  pr_email :: string
  pr_display_name :: string
  pr_instance_role :: string

datatype login_outcome =
    LoginSession proto_session
  | MfaRequired (mfa_challenge_token: string) (mfa_methods: "string list")

record bootstrap_request =
  br_email :: string
  br_display_name :: string
  br_password :: string
  br_key_material :: "proto_key_material option"
  br_device :: "device_enrollment option"

record login_request =
  lr_email :: string
  lr_password :: string

record update_email_request =
  ue_current_password :: string
  ue_new_email :: string

record change_password_request =
  cp_current_password :: string
  cp_new_password :: string
  cp_new_master_key_wrapped :: bytes
  cp_new_kdf_salt :: bytes
  cp_new_kdf_params :: string

definition to_key_material :: "proto_key_material \<Rightarrow> user_key_material" where
  "to_key_material km =
     \<lparr>km_x25519_public = pk_x25519_public km, km_ed25519_public = pk_ed25519_public km,
      km_x25519_private_wrapped = pk_x25519_private_wrapped km,
      km_ed25519_private_wrapped = pk_ed25519_private_wrapped km,
      km_master_key_wrapped = pk_master_key_wrapped km, km_kdf_salt = pk_kdf_salt km,
      km_kdf_params = pk_kdf_params km\<rparr>"

definition from_key_material :: "user_key_material \<Rightarrow> proto_key_material" where
  "from_key_material km =
     \<lparr>pk_x25519_public = km_x25519_public km, pk_ed25519_public = km_ed25519_public km,
      pk_x25519_private_wrapped = km_x25519_private_wrapped km,
      pk_ed25519_private_wrapped = km_ed25519_private_wrapped km,
      pk_master_key_wrapped = km_master_key_wrapped km, pk_kdf_salt = km_kdf_salt km,
      pk_kdf_params = km_kdf_params km\<rparr>"

text \<open>\<open>map(to_string).unwrap_or_default()\<close>.\<close>

definition text_or_empty :: "('a \<Rightarrow> string) \<Rightarrow> 'a option \<Rightarrow> string" where
  "text_or_empty f x = (case x of None \<Rightarrow> [] | Some a \<Rightarrow> f a)"

definition device_to_proto :: "ext \<Rightarrow> device \<Rightarrow> proto_device" where
  "device_to_proto X d =
     \<lparr>pd_device_id = uuid_str X (d_id d), pd_device_label = d_device_label d,
      pd_platform = d_platform d, pd_machine_id = text_or_empty (uuid_str X) (d_machine_id d),
      pd_created_at = rfc3339 X (d_created_at d),
      pd_last_seen_at = text_or_empty (rfc3339 X) (d_last_seen_at d),
      pd_revoked_at = text_or_empty (rfc3339 X) (d_revoked_at d)\<rparr>"

definition profile_of :: "ext \<Rightarrow> user \<Rightarrow> profile" where
  "profile_of X user =
     \<lparr>pr_user_id = uuid_str X (u_id user), pr_email = u_email user,
      pr_display_name = u_display_name user, pr_instance_role = role_token (u_instance_role user)\<rparr>"

section \<open>Helpers\<close>

definition validate_device :: "device_enrollment \<Rightarrow> status + unit" where
  "validate_device dev =
     (if trim (de_device_label dev) = [] \<or> trim (de_platform dev) = [] \<or> de_device_public_key dev = []
      then Inl (Status InvalidArgument ''device_label, platform, and device_public_key are required'')
      else Inr ())"

text \<open>A machine and a device for \<open>user\<close>, inside the caller's transaction.\<close>

definition enroll_device :: "ext \<Rightarrow> time \<Rightarrow> user \<Rightarrow> device_enrollment \<Rightarrow> proto_device rpc" where
  "enroll_device X now user dev =
     (let machine_label = (if trim (de_machine_label dev) = [] then de_device_label dev
                           else de_machine_label dev) in
     andthen (call (exec X (\<lambda>n. machine_create (gen_uuid X n) now machine_label (de_platform dev)
        (Some (u_id user))))) (\<lambda>machine.
     andthen (call (exec X (\<lambda>n. device_register (gen_uuid X n) now
        \<lparr>nd_user_id = u_id user, nd_machine_id = Some (m_id machine),
         nd_device_label = de_device_label dev, nd_platform = de_platform dev,
         nd_device_public_key = de_device_public_key dev\<rparr>))) (\<lambda>device.
     ret (device_to_proto X device))))"

definition new_session :: "ext \<Rightarrow> uuid \<Rightarrow> proto_session rpc" where
  "new_session X user_id =
     andthen (transact X internal (\<lambda>now.
        call (session_create X now user_id DEFAULT_SESSION_TTL None None))) (\<lambda>(session, token).
     ret \<lparr>ps_token = token, ps_user_id = uuid_str X user_id,
          ps_expires_at = rfc3339 X (s_expires_at session)\<rparr>)"

definition audit_device_revoked :: "ext \<Rightarrow> user \<Rightarrow> uuid \<Rightarrow> unit rpc" where
  "audit_device_revoked X user device_id =
     andthen (attempt (transact X AuditDatabase (\<lambda>_.
        andthen (append X (Some (actor_of user)) None ''device_revoked''
          (JObj [(''device_id'', JStr (uuid_str X device_id))])) (\<lambda>_. ret ())))) (\<lambda>_.
     ret ())"

section \<open>Unauthenticated RPCs\<close>

definition too_many_attempts :: status where
  "too_many_attempts = Status ResourceExhausted ''too many attempts; try again later''"

text \<open>The transaction of \<open>bootstrap\<close>: everything the first account consists of.\<close>

definition bootstrap_tx ::
  "ext \<Rightarrow> string \<Rightarrow> string \<Rightarrow> string \<Rightarrow> proto_key_material \<Rightarrow> device_enrollment \<Rightarrow> time \<Rightarrow>
     (user \<times> session \<times> string) rpc" where
  "bootstrap_tx X email display_name phc km dev now =
     andthen (call (exec X (\<lambda>n. user_create (gen_uuid X n) now email display_name Owner Active))) (\<lambda>user.
     andthen (call (exec X (\<lambda>_. create_credentials now (u_id user) phc))) (\<lambda>_.
     andthen (call (exec X (\<lambda>_. user_key_create (u_id user) (to_key_material km)))) (\<lambda>_.
     andthen (enroll_device X now user dev) (\<lambda>device.
     andthen (call (append X (Some (actor_of user)) None ''owner_bootstrapped''
        (JObj [(''device_id'', JStr (pd_device_id device)), (''email'', JStr (u_email user))]))) (\<lambda>_.
     andthen (call (session_create X now (u_id user) DEFAULT_SESSION_TTL None None)) (\<lambda>(session, token).
     ret (user, session, token)))))))"

definition bootstrap :: "ext \<Rightarrow> bool \<Rightarrow> metadata \<Rightarrow> bootstrap_request \<Rightarrow> proto_session rpc" where
  "bootstrap X trust_proxy md req =
     (let client_key = rate_key md trust_proxy in
     andthen (limiter_allowed X client_key) (\<lambda>ok.
     andthen (when_ok ok too_many_attempts) (\<lambda>_.
     let email = trim (br_email req); display_name = trim (br_display_name req) in
     andthen (when_ok (email \<noteq> [] \<and> display_name \<noteq> [] \<and> br_password req \<noteq> [])
        (Status InvalidArgument ''email, display_name, and password are required'')) (\<lambda>_.
     andthen (need (br_key_material req) (Status InvalidArgument ''key_material is required'')) (\<lambda>km.
     andthen (need (br_device req) (Status InvalidArgument ''device is required'')) (\<lambda>dev.
     andthen (from_sum (validate_device dev)) (\<lambda>_.
     andthen (call (exec X (\<lambda>_. user_count))) (\<lambda>count.
     if 0 < count
     then andthen (limiter_record_failure X client_key) (\<lambda>_.
            throw (Status FailedPrecondition ''an account already exists''))
     else
     andthen (call (hash_password X (br_password req))) (\<lambda>phc.
     andthen (transact X internal (bootstrap_tx X email display_name phc km dev)) (\<lambda>(user, session, token).
     ret \<lparr>ps_token = token, ps_user_id = uuid_str X (u_id user),
          ps_expires_at = rfc3339 X (s_expires_at session)\<rparr>))))))))))"

definition login :: "ext \<Rightarrow> bool \<Rightarrow> metadata \<Rightarrow> login_request \<Rightarrow> login_outcome rpc" where
  "login X trust_proxy md req =
     (let client_key = rate_key md trust_proxy in
     andthen (limiter_allowed X client_key) (\<lambda>ok.
     andthen (when_ok ok too_many_attempts) (\<lambda>_.
     andthen (when_ok (trim (lr_email req) \<noteq> []) (Status InvalidArgument ''email is required'')) (\<lambda>_.
     andthen (call (verify_credentials X (lr_email req) (lr_password req))) (\<lambda>outcome.
     case outcome of
       Inr user \<Rightarrow>
         andthen (call (exec X (\<lambda>_. has_second_factor (u_id user)))) (\<lambda>mfa.
         if mfa then ret (MfaRequired [] [''totp''])
         else andthen (new_session X (u_id user)) (\<lambda>session. ret (LoginSession session)))
     | Inl _ \<Rightarrow>
         andthen (limiter_record_failure X client_key) (\<lambda>_.
         throw (Status Unauthenticated ''invalid email or password'')))))))"

definition verify_mfa :: "proto_session rpc" where
  "verify_mfa = throw (Status Unimplemented ''MFA verification over the hub is not yet supported'')"

section \<open>Keys and devices\<close>

definition get_key_material :: "ext \<Rightarrow> metadata \<Rightarrow> proto_key_material rpc" where
  "get_key_material X md =
     andthen (authenticate X md) (\<lambda>user.
     andthen (call (exec X (\<lambda>_. user_key_get (u_id user)))) (\<lambda>found.
     andthen (need found (Status FailedPrecondition ''no key material is provisioned for this account'')) (\<lambda>km.
     ret (from_key_material km))))"

definition register_device :: "ext \<Rightarrow> metadata \<Rightarrow> device_enrollment option \<Rightarrow> proto_device rpc" where
  "register_device X md req =
     andthen (authenticate X md) (\<lambda>user.
     andthen (need req (Status InvalidArgument ''device is required'')) (\<lambda>dev.
     andthen (from_sum (validate_device dev)) (\<lambda>_.
     transact X internal (\<lambda>now.
       andthen (enroll_device X now user dev) (\<lambda>device.
       andthen (call (append X (Some (actor_of user)) None ''device_registered''
          (JObj [(''device_id'', JStr (pd_device_id device)), (''platform'', JStr (pd_platform device))]))) (\<lambda>_.
       ret device))))))"

definition list_my_devices :: "ext \<Rightarrow> metadata \<Rightarrow> proto_device list rpc" where
  "list_my_devices X md =
     andthen (authenticate X md) (\<lambda>user.
     andthen (call (exec X (\<lambda>_. device_list_for_user (u_id user)))) (\<lambda>devices.
     ret (map (device_to_proto X) devices)))"

definition revoke_device :: "ext \<Rightarrow> metadata \<Rightarrow> string \<Rightarrow> unit rpc" where
  "revoke_device X md req =
     andthen (authenticate X md) (\<lambda>user.
     andthen (from_sum (parse_uuid X req ''device_id'')) (\<lambda>device_id.
     andthen (call (exec X (\<lambda>n. device_revoke_owned (pg_now X n) device_id (u_id user)))) (\<lambda>revoked.
     if revoked then audit_device_revoked X user device_id
     else throw (Status NotFound ''device not found''))))"

section \<open>Self-service\<close>

definition get_profile :: "ext \<Rightarrow> metadata \<Rightarrow> profile rpc" where
  "get_profile X md = andthen (authenticate X md) (\<lambda>user. ret (profile_of X user))"

definition update_display_name :: "ext \<Rightarrow> metadata \<Rightarrow> string \<Rightarrow> profile rpc" where
  "update_display_name X md req =
     andthen (authenticate X md) (\<lambda>user.
     let display_name = trim req in
     andthen (when_ok (display_name \<noteq> []) (Status InvalidArgument ''display_name is required'')) (\<lambda>_.
     andthen (transact X internal (\<lambda>now.
       andthen (call (exec X (\<lambda>_. update_profile now (u_id user) (Some display_name) None))) (\<lambda>updated.
       andthen (call (append X (Some (actor_of updated)) None ''display_name_changed''
          (JObj [(''display_name'', JStr (u_display_name updated))]))) (\<lambda>_.
       ret updated)))) (\<lambda>updated.
     ret (profile_of X updated))))"

text \<open>The \<open>match\<close> on the result of \<open>UserRepository::update_email\<close>.\<close>

definition email_error :: "sql_error \<Rightarrow> status" where
  "email_error err = (case err of
     UniqueViolation \<Rightarrow> Status AlreadyExists ''that email address is already in use'' | _ \<Rightarrow> internal err)"

definition update_email_rpc :: "ext \<Rightarrow> metadata \<Rightarrow> update_email_request \<Rightarrow> profile rpc" where
  "update_email_rpc X md req =
     andthen (authenticate X md) (\<lambda>user.
     andthen (call (verify_user_password X (u_id user) (ue_current_password req))) (\<lambda>verified.
     andthen (when_ok verified (Status Unauthenticated ''current password is incorrect'')) (\<lambda>_.
     let new_email = trim (ue_new_email req) in
     andthen (when_ok (new_email \<noteq> []) (Status InvalidArgument ''new_email is required'')) (\<lambda>_.
     andthen (transact X internal (\<lambda>now.
       andthen (map_err email_error (exec X (\<lambda>_. update_email now (u_id user) new_email))) (\<lambda>updated.
       andthen (call (append X (Some (actor_of updated)) None ''email_changed''
          (JObj [(''email'', JStr (u_email updated))]))) (\<lambda>_.
       ret updated)))) (\<lambda>updated.
     ret (profile_of X updated))))))"

definition change_password :: "ext \<Rightarrow> metadata \<Rightarrow> change_password_request \<Rightarrow> unit rpc" where
  "change_password X md req =
     andthen (authenticate X md) (\<lambda>user.
     andthen (call (verify_user_password X (u_id user) (cp_current_password req))) (\<lambda>verified.
     andthen (when_ok verified (Status Unauthenticated ''current password is incorrect'')) (\<lambda>_.
     andthen (when_ok (cp_new_password req \<noteq> []) (Status InvalidArgument ''new_password is required'')) (\<lambda>_.
     andthen (call (hash_password X (cp_new_password req))) (\<lambda>new_phc.
     transact X internal (\<lambda>now.
       andthen (call (exec X (\<lambda>_. update_password_hash now (u_id user) new_phc))) (\<lambda>_.
       andthen (call (exec X (\<lambda>_. user_key_update (u_id user) (cp_new_master_key_wrapped req)
          (cp_new_kdf_salt req) (cp_new_kdf_params req)))) (\<lambda>_.
       andthen (call (append X (Some (actor_of user)) None ''password_changed'' (JObj []))) (\<lambda>_.
       ret ())))))))))"

definition get_avatar :: "ext \<Rightarrow> metadata \<Rightarrow> bytes rpc" where
  "get_avatar X md =
     andthen (authenticate X md) (\<lambda>user.
     andthen (call (exec X (\<lambda>_. avatar_get (u_id user)))) (\<lambda>avatar.
     ret (case avatar of None \<Rightarrow> [] | Some a \<Rightarrow> a)))"

definition set_avatar :: "ext \<Rightarrow> metadata \<Rightarrow> bytes \<Rightarrow> unit rpc" where
  "set_avatar X md avatar =
     andthen (authenticate X md) (\<lambda>user.
     andthen (when_ok (length avatar \<le> MAX_AVATAR_BYTES) (Status InvalidArgument ''avatar too large'')) (\<lambda>_.
     call (exec X (\<lambda>n. avatar_upsert (pg_now X n) (u_id user) avatar))))"

lemma key_material_roundtrip [simp]: "from_key_material (to_key_material km) = km"
  by (simp add: from_key_material_def to_key_material_def)

end
