(* ===== verification/Machine_Service.thy ===== *)
theory Machine_Service
imports Rpc Identity_Devices "HOL-Library.Stream"
begin

text \<open>
  \<open>platform/src/machine.rs\<close>: the service \<open>Machine\<close> of the always-on agent. A machine proves
  possession of its identity key once and then presents a machine session token.
\<close>

section \<open>Wire messages\<close>

record register_machine_request =
  rmr_machine_identity_public :: bytes
  rmr_platform :: string
  rmr_label :: string
  rmr_signature :: bytes

record proto_machine_session =
  pms_machine_id :: string
  pms_token :: string
  pms_expires_at :: string

record wire_telemetry =
  wt_kind :: string
  wt_recipient_key_id :: bytes
  wt_seq :: u64
  wt_ciphertext :: bytes
  wt_signature :: bytes

record machine_config =
  mc_location_enabled :: bool
  mc_device_admin_group_public :: bytes
  mc_group_key_id :: bytes

datatype server_push = PushConfig machine_config | PushKeepAlive

section \<open>Proof of possession\<close>

definition canonical_machine_bytes :: "bytes \<Rightarrow> string \<Rightarrow> string \<Rightarrow> bytes" where
  "canonical_machine_bytes public platform label =
     as_bytes (''sylva-machine-registration:v1'' @ [CHR 0x0A]) @ public @ [10]
     @ as_bytes platform @ [10] @ as_bytes label"

definition verify_pop :: "ext \<Rightarrow> bytes \<Rightarrow> string \<Rightarrow> string \<Rightarrow> bytes \<Rightarrow> bool" where
  "verify_pop X public platform label signature =
     (if length public \<noteq> 32 then False
      else if \<not> ed25519_key X public then False
      else if length signature \<noteq> 64 then False
      else ed25519_verify X public (canonical_machine_bytes public platform label) signature)"

section \<open>RPCs\<close>

definition register_machine ::
  "ext \<Rightarrow> bool \<Rightarrow> metadata \<Rightarrow> register_machine_request \<Rightarrow> proto_machine_session rpc" where
  "register_machine X trust_proxy md req =
     (let client_key = rate_key md trust_proxy in
     andthen (limiter_allowed X client_key) (\<lambda>ok.
     andthen (when_ok ok (Status ResourceExhausted ''too many attempts; try again later'')) (\<lambda>_.
     andthen (when_ok (trim (rmr_platform req) \<noteq> [] \<and> trim (rmr_label req) \<noteq> [])
        (Status InvalidArgument ''platform and label are required'')) (\<lambda>_.
     if \<not> verify_pop X (rmr_machine_identity_public req) (rmr_platform req) (rmr_label req) (rmr_signature req)
     then andthen (limiter_record_failure X client_key) (\<lambda>_.
            throw (Status PermissionDenied ''invalid machine identity signature''))
     else
     andthen (transact X internal (\<lambda>now.
       andthen (call (exec X (\<lambda>n. register_or_update (gen_uuid X n) now
          (rmr_machine_identity_public req) (trim (rmr_platform req)) (trim (rmr_label req))))) (\<lambda>machine_id.
       andthen (call (machine_session_create X now machine_id DEFAULT_SESSION_TTL)) (\<lambda>(session, token).
       andthen (call (append X None None ''machine_registered''
          (JObj [(''machine_id'', JStr (uuid_str X machine_id)), (''platform'', JStr (rmr_platform req))]))) (\<lambda>_.
       ret (machine_id, session, token)))))) (\<lambda>(machine_id, session, token).
     ret \<lparr>pms_machine_id = uuid_str X machine_id, pms_token = token,
          pms_expires_at = rfc3339 X (ms_expires_at session)\<rparr>)))))"

definition machine_token :: "metadata \<Rightarrow> string option" where
  "machine_token md =
     (case md_authorization md of None \<Rightarrow> None
      | Some v \<Rightarrow> (case to_str v of None \<Rightarrow> None | Some s \<Rightarrow> token_of s))"

definition authenticate_machine :: "ext \<Rightarrow> metadata \<Rightarrow> uuid rpc" where
  "authenticate_machine X md =
     andthen (need (machine_token md) (Status Unauthenticated ''invalid_authorization'')) (\<lambda>token.
     andthen (map_err (\<lambda>_. invalid_session)
        (exec X (\<lambda>n. machine_session_find_active X (pg_now X n) token))) (\<lambda>found.
     andthen (need found invalid_session) (\<lambda>session.
     ret (ms_machine_id session))))"

definition check_in :: "ext \<Rightarrow> metadata \<Rightarrow> string \<Rightarrow> unit rpc" where
  "check_in X md agent_version =
     andthen (authenticate_machine X md) (\<lambda>machine_id.
     call (exec X (\<lambda>n. touch_checkin (pg_now X n) machine_id (trim agent_version))))"

text \<open>The \<open>u64\<close> sequence number becomes a \<open>bigint\<close>, capped at its maximum.\<close>

definition to_new_telemetry :: "wire_telemetry \<Rightarrow> new_telemetry" where
  "to_new_telemetry b =
     \<lparr>nt_kind = wt_kind b, nt_recipient_key_id = wt_recipient_key_id b,
      nt_seq = (if uint (wt_seq b) \<le> 2 ^ 63 - 1 then uint (wt_seq b) else 2 ^ 63 - 1),
      nt_ciphertext = wt_ciphertext b, nt_signature = wt_signature b\<rparr>"

definition report_telemetry :: "ext \<Rightarrow> metadata \<Rightarrow> wire_telemetry list \<Rightarrow> unit rpc" where
  "report_telemetry X md req =
     andthen (authenticate_machine X md) (\<lambda>machine_id.
     let blobs = map to_new_telemetry req in
     if blobs = [] then ret () else call (telemetry_insert X machine_id blobs))"

text \<open>
  The stream a subscriber reads: the configuration at subscription time, then keep-alives,
  every \<open>KEEP_ALIVE_INTERVAL\<close> seconds, until the client is gone.
\<close>

definition KEEP_ALIVE_INTERVAL :: nat where
  "KEEP_ALIVE_INTERVAL = 30"

definition push_stream :: "machine_config \<Rightarrow> server_push stream" where
  "push_stream config = PushConfig config ## sconst PushKeepAlive"

definition subscribe :: "ext \<Rightarrow> metadata \<Rightarrow> server_push stream rpc" where
  "subscribe X md =
     andthen (authenticate_machine X md) (\<lambda>machine_id.
     andthen (call (exec X (\<lambda>_. location_enabled machine_id))) (\<lambda>location.
     andthen (call (exec X (\<lambda>_. group_active))) (\<lambda>group.
     let (public, key_id) = (case group of Some (gid, pub) \<Rightarrow> (pub, uuid_bytes X gid) | None \<Rightarrow> ([], [])) in
     ret (push_stream \<lparr>mc_location_enabled = location, mc_device_admin_group_public = public,
                       mc_group_key_id = key_id\<rparr>))))"

section \<open>Facts\<close>

lemma authenticate_machine_Inr:
  assumes "authenticate_machine X md w = (Inr mid, w')"
  obtains token session where "machine_token md = Some token" and "session \<in> set (machine_sessions (w_db w))"
    and "ms_token_hash session = hash_machine_token X token"
    and "machine_session_live (w_db w) (pg_now X (w_tick w)) session" and "mid = ms_machine_id session"
    and "w' = w\<lparr>w_tick := Suc (w_tick w)\<rparr>"
proof -
  obtain token session where "machine_token md = Some token"
    and f: "exec X (\<lambda>n. machine_session_find_active X (pg_now X n) token) w = (Inr (Some session), w')"
    and "mid = ms_machine_id session"
    using assms unfolding authenticate_machine_def
    by (auto elim!: andthen_eq_InrE split: option.splits)
  moreover from f have "machine_session_find_active X (pg_now X (w_tick w)) token (w_db w) = (Inr (Some session), w_db w)"
    and "w' = w\<lparr>w_tick := Suc (w_tick w)\<rparr>"
    by (auto elim!: exec_eq_InrE simp: machine_session_find_active_def query_def)
  ultimately show thesis
    using that machine_store.find_sound by (metis hash_machine_token_eq)
qed

end
