(* ===== verification/Services.thy ===== *)
theory Services
imports Platform_Service Account_Service Machine_Service
begin

text \<open>
  The four services behind one door, as \<open>serve_grpc\<close> mounts them, and what every RPC promises
  to the database. The locale \<open>rpc_storage\<close> is the contract of the storage layer towards the
  handlers: a relation that each statement they run obeys. Inside it every handler is shown to
  obey the relation, whatever the request, the connection and the other externals do; the
  interpretations at the end supply the contract for the audit log and for the constraints.
\<close>

section \<open>Statements that only read\<close>

lemma reads:
  "snd (session_find_active X now token d) = d" "snd (user_find_by_id uid d) = d"
  "snd (get_trusted_publisher p d) = d" "snd (get_app_by_identifier i d) = d" "snd (get_app a d) = d"
  "snd (get_owned r o' d) = d" "snd (user_count d) = d" "snd (has_second_factor uid d) = d"
  "snd (user_key_get uid d) = d" "snd (device_list_for_user uid d) = d" "snd (avatar_get uid d) = d"
  "snd (machine_session_find_active X now token d) = d" "snd (location_enabled mid d) = d"
  "snd (group_active d) = d" "snd (list_changes a ty ow c l d) = d"
  by (simp_all add: session_find_active_def user_find_by_id_def get_trusted_publisher_def
      get_app_by_identifier_def get_app_def get_owned_def user_count_def has_second_factor_def
      user_key_get_def device_list_for_user_def avatar_get_def machine_session_find_active_def
      location_enabled_def group_active_def list_changes_def query_def sql_err_def split: sum.splits)

section \<open>The contract of the storage layer\<close>

locale rpc_storage = db_relation R for R :: "database \<Rightarrow> database \<Rightarrow> bool" +
  fixes X :: ext
  assumes append_R: "obeys R (append X actor app_id event_type event_data)"
    and touch_R: "R d (snd (touch_last_seen t sid d))"
    and session_R: "R d (snd (insert_session s d))"
    and app_R: "R d (snd (upsert_app u t decl who d))"
    and create_R: "R d (snd (resource_create u t new d))"
    and update_R: "R d (snd (update_owned t r uid blob sig version parent d))"
    and delete_R: "R d (snd (soft_delete_owned t r uid d))"
    and user_R: "R d (snd (user_create u t email name role lifecycle d))"
      "R d (snd (update_profile t uid x y d))" "R d (snd (update_email t uid email d))"
    and credential_R: "R d (snd (create_credentials t uid phc d))" "R d (snd (update_password_hash t uid phc d))"
    and key_R: "R d (snd (user_key_create uid km d))" "R d (snd (user_key_update uid mk salt params d))"
    and avatar_R: "R d (snd (avatar_upsert t uid avatar d))"
    and machine_R: "R d (snd (machine_create u t label platform claimed d))"
      "R d (snd (register_or_update u t pk platform label d))" "R d (snd (touch_checkin t mid agent d))"
    and machine_session_R: "R d (snd (insert_machine_session ms d))"
    and device_R: "R d (snd (device_register u t nd d))" "R d (snd (device_revoke_owned t did uid d))"
    and telemetry_R: "R d (snd (insert_telemetry mid reading d))"
begin

lemmas statements_R = R_refl reads touch_R session_R app_R create_R update_R delete_R user_R credential_R
  key_R avatar_R machine_R machine_session_R device_R telemetry_R

lemmas handler_rules = obeys_andthen obeys_from_sum obeys_ret obeys_throw obeys_need obeys_when_ok
  obeys_map_err obeys_call obeys_attempt obeys_draw obeys_allowed obeys_record_failure obeys_transact
  obeys_if obeys_option obeys_sum obeys_prod obeys_let append_R obeys_exec

lemma authenticate_R: "obeys R (authenticate X md)"
  unfolding authenticate_def by (intro handler_rules; simp add: statements_R)

lemma platform_R:
  "obeys R (who_am_i X md)" "obeys R (register_app X md q1)" "obeys R (get_app_registration X md q2)"
  unfolding who_am_i_def register_app_def get_app_registration_def
  by (intro handler_rules authenticate_R; simp add: statements_R)+

lemma list_owned_R: "obeys R (list_owned X a ty ow l off del)"
  unfolding list_owned_def by (intro handler_rules; simp add: statements_R query_def sql_err_def)

lemma resources_R:
  "obeys R (create_resource X md q3)" "obeys R (read_resource X md q4)"
  "obeys R (update_resource X md q5)" "obeys R (delete_resource X md q6)"
  "obeys R (list_resources X md q7)" "obeys R (stream_changes X md q8)"
  unfolding create_resource_def read_resource_def update_resource_def delete_resource_def
    list_resources_def stream_changes_def
  by (intro handler_rules authenticate_R list_owned_R; simp add: statements_R)+

lemma session_create_R: "obeys R (session_create X t uid ttl ua ip)"
  unfolding session_create_def by (intro handler_rules; simp add: statements_R)

lemma machine_session_create_R: "obeys R (machine_session_create X t mid ttl)"
  unfolding machine_session_create_def by (intro handler_rules; simp add: statements_R)

lemma password_R:
  "obeys R (hash_password X password)" "obeys R (verify_user_password X uid password)"
  "obeys R (verify_credentials X email password)"
  unfolding hash_password_def verify_user_password_def verify_credentials_def
  by (intro handler_rules; simp add: R_refl)+

lemma enroll_device_R: "obeys R (enroll_device X t user dev)"
  unfolding enroll_device_def by (intro handler_rules; simp add: statements_R)

lemmas account_rules = handler_rules authenticate_R session_create_R password_R enroll_device_R

lemma account_helpers_R:
  "obeys R (new_session X uid)" "obeys R (audit_device_revoked X user did)"
  "obeys R (bootstrap_tx X email name phc km dev t)"
  unfolding new_session_def audit_device_revoked_def bootstrap_tx_def
  by (intro account_rules; simp add: statements_R)+

lemma account_R:
  "obeys R (bootstrap X tp md q1)" "obeys R (login X tp md q2)" "obeys R verify_mfa"
  "obeys R (get_key_material X md)" "obeys R (register_device X md q3)" "obeys R (list_my_devices X md)"
  "obeys R (revoke_device X md q4)" "obeys R (get_profile X md)" "obeys R (update_display_name X md q5)"
  "obeys R (update_email_rpc X md q6)" "obeys R (change_password X md q7)" "obeys R (get_avatar X md)"
  "obeys R (set_avatar X md q8)"
  unfolding bootstrap_def login_def verify_mfa_def get_key_material_def register_device_def
    list_my_devices_def revoke_device_def get_profile_def update_display_name_def update_email_rpc_def
    change_password_def get_avatar_def set_avatar_def
  by (intro account_rules account_helpers_R; simp add: statements_R)+

lemma authenticate_machine_R: "obeys R (authenticate_machine X md)"
  unfolding authenticate_machine_def by (intro handler_rules; simp add: statements_R)

lemma telemetry_insert_R: "obeys R (telemetry_insert X mid blobs)"
proof (induction blobs)
  case (Cons blob blobs)
  show ?case unfolding telemetry_insert.simps
    by (intro handler_rules Cons.IH; simp add: statements_R)
qed (simp only: telemetry_insert.simps obeys_ret)

lemma machine_service_R:
  "obeys R (register_machine X tp md q1)" "obeys R (check_in X md q2)"
  "obeys R (report_telemetry X md q3)" "obeys R (subscribe X md)"
  unfolding register_machine_def check_in_def report_telemetry_def subscribe_def
  by (intro handler_rules authenticate_machine_R machine_session_create_R telemetry_insert_R;
      simp add: statements_R)+

end

section \<open>The router\<close>

datatype request =
    WhoAmI
  | RegisterApp register_app_request
  | GetAppRegistration string
  | CreateResource create_resource_request
  | ReadResource string
  | UpdateResource update_resource_request
  | DeleteResource string
  | ListResources list_resources_request
  | StreamChanges stream_changes_request
  | Bootstrap bootstrap_request
  | Login login_request
  | VerifyMfa
  | GetKeyMaterial
  | RegisterDevice "device_enrollment option"
  | ListMyDevices
  | RevokeDevice string
  | GetProfile
  | UpdateDisplayName string
  | UpdateEmail update_email_request
  | ChangePassword change_password_request
  | GetAvatar
  | SetAvatar bytes
  | RegisterMachine register_machine_request
  | CheckIn string
  | ReportTelemetry "wire_telemetry list"
  | Subscribe

text \<open>A handler without its answer.\<close>

definition run :: "'a rpc \<Rightarrow> unit rpc" where
  "run m = andthen m (\<lambda>_. ret ())"

fun serve_grpc :: "ext \<Rightarrow> bool \<Rightarrow> metadata \<Rightarrow> request \<Rightarrow> unit rpc" where
  "serve_grpc X trust_proxy md WhoAmI = run (who_am_i X md)"
| "serve_grpc X trust_proxy md (RegisterApp q) = run (register_app X md q)"
| "serve_grpc X trust_proxy md (GetAppRegistration q) = run (get_app_registration X md q)"
| "serve_grpc X trust_proxy md (CreateResource q) = run (create_resource X md q)"
| "serve_grpc X trust_proxy md (ReadResource q) = run (read_resource X md q)"
| "serve_grpc X trust_proxy md (UpdateResource q) = run (update_resource X md q)"
| "serve_grpc X trust_proxy md (DeleteResource q) = run (delete_resource X md q)"
| "serve_grpc X trust_proxy md (ListResources q) = run (list_resources X md q)"
| "serve_grpc X trust_proxy md (StreamChanges q) = run (stream_changes X md q)"
| "serve_grpc X trust_proxy md (Bootstrap q) = run (bootstrap X trust_proxy md q)"
| "serve_grpc X trust_proxy md (Login q) = run (login X trust_proxy md q)"
| "serve_grpc X trust_proxy md VerifyMfa = run verify_mfa"
| "serve_grpc X trust_proxy md GetKeyMaterial = run (get_key_material X md)"
| "serve_grpc X trust_proxy md (RegisterDevice q) = run (register_device X md q)"
| "serve_grpc X trust_proxy md ListMyDevices = run (list_my_devices X md)"
| "serve_grpc X trust_proxy md (RevokeDevice q) = run (revoke_device X md q)"
| "serve_grpc X trust_proxy md GetProfile = run (get_profile X md)"
| "serve_grpc X trust_proxy md (UpdateDisplayName q) = run (update_display_name X md q)"
| "serve_grpc X trust_proxy md (UpdateEmail q) = run (update_email_rpc X md q)"
| "serve_grpc X trust_proxy md (ChangePassword q) = run (change_password X md q)"
| "serve_grpc X trust_proxy md GetAvatar = run (get_avatar X md)"
| "serve_grpc X trust_proxy md (SetAvatar q) = run (set_avatar X md q)"
| "serve_grpc X trust_proxy md (RegisterMachine q) = run (register_machine X trust_proxy md q)"
| "serve_grpc X trust_proxy md (CheckIn q) = run (check_in X md q)"
| "serve_grpc X trust_proxy md (ReportTelemetry q) = run (report_telemetry X md q)"
| "serve_grpc X trust_proxy md Subscribe = run (subscribe X md)"

text \<open>A step of the server: one request from anyone, answered in any way.\<close>

inductive rpc_step :: "ext \<Rightarrow> bool \<Rightarrow> world \<Rightarrow> world \<Rightarrow> bool" for X trust_proxy where
  request: "serve_grpc X trust_proxy md q w = (r, w') \<Longrightarrow> rpc_step X trust_proxy w w'"

inductive_cases rpc_stepE: "rpc_step X trust_proxy w w'"

context rpc_storage
begin

lemma serve_grpc_R: "obeys R (serve_grpc X trust_proxy md q)"
  by (cases q) (simp_all add: run_def obeys_andthen obeys_ret platform_R resources_R account_R machine_service_R)

lemma rpc_steps_R:
  assumes "(rpc_step X trust_proxy)\<^sup>*\<^sup>* w w'"
  shows "R (w_db w) (w_db w')"
  using assms
proof (induction rule: rtranclp_induct)
  case (step y z)
  from step.hyps(2) obtain md q r where "serve_grpc X trust_proxy md q y = (r, z)"
    by (auto elim!: rpc_stepE)
  then have "R (w_db y) (w_db z)" by (rule obeysD [OF serve_grpc_R])
  with step.IH show ?case by (rule R_trans)
qed (rule R_refl)

end

section \<open>The contract, for the log and for the constraints\<close>

lemmas write_defs = touch_last_seen_def insert_session_def upsert_app_def resource_create_def
  update_owned_def soft_delete_owned_def update_live_def user_create_def insert_user_def update_profile_def
  update_email_def update_user_def create_credentials_def update_password_hash_def user_key_create_def
  user_key_update_def avatar_upsert_def machine_create_def insert_machine_def register_or_update_def
  touch_checkin_def insert_machine_session_def device_register_def insert_device_def
  device_revoke_owned_def insert_telemetry_def

interpretation log_rpc: rpc_storage "log_step X" X for X
  by unfold_locales
    (auto simp: append_log_step write_defs Let_def sql_ok_def sql_err_def intro!: log_step_same_events
      split: option.splits sum.splits prod.splits)

lemma append_keep: "obeys db_keep (append X actor app_id event_type event_data)"
proof -
  have "db_keep d (snd (nextval_seqno d))" "db_keep d (snd (insert_event e d))" for d e
    using db_okD(22) [of d]
    by (auto simp: nextval_seqno_def insert_event_def intro!: db_keepI db_ok_table)
      (simp add: db_ok_def user_ids_def machine_ids_def app_ids_def)
  then show ?thesis
    unfolding append_def
    by (intro integrity.obeys_andthen integrity.obeys_map_err integrity.obeys_let integrity.obeys_need
        integrity.obeys_draw integrity.obeys_exec; simp add: integrity.R_refl)
qed

interpretation keep_rpc: rpc_storage db_keep X for X
  by unfold_locales
    (simp_all add: append_keep session_statements_keep insert_session_keep app_statements_keep
      resource_create_keep resource_statements_keep user_statements_keep insert_user_keep user_create_def
      credential_statements_keep user_key_keep avatar_keep machine_statements_keep register_or_update_keep
      insert_machine_session_keep device_register_def device_keep insert_telemetry_keep)

section \<open>Properties\<close>

lemma some_rpc_step: "\<exists>w'. rpc_step X trust_proxy w w' \<and> w_db w' = w_db (snd (serve_grpc X trust_proxy md q w))"
  using rpc_step.request [of X trust_proxy md q w] by (metis prod.collapse)

text \<open>
  C3. The log is append-only for the whole server: whatever requests arrive, in any order and
  with any externals, connection failures included, a log that verifies still verifies
  afterwards and has the old log as a prefix.
\<close>

theorem service_log_append_only:
  assumes "(rpc_step X trust_proxy)\<^sup>*\<^sup>* w w'" and "log_ok X (w_db w)"
  shows "log_ok X (w_db w') \<and> prefix (events (w_db w)) (events (w_db w'))"
  using log_rpc.rpc_steps_R [OF assms(1)] assms(2) by (simp add: log_step_def)

definition demo_metadata :: metadata where
  "demo_metadata = \<lparr>md_authorization = Some (Ascii ''Bearer abc''), md_x_forwarded_for = None,
     md_remote_addr = Some ''10.0.0.1''\<rparr>"

definition demo_bootstrap :: bootstrap_request where
  "demo_bootstrap = \<lparr>br_email = '' ada@b.c'', br_display_name = ''Ada'', br_password = ''pw'',
     br_key_material = Some \<lparr>pk_x25519_public = [], pk_ed25519_public = [], pk_x25519_private_wrapped = [],
       pk_ed25519_private_wrapped = [], pk_master_key_wrapped = [], pk_kdf_salt = [], pk_kdf_params = []\<rparr>,
     br_device = Some \<lparr>de_device_label = ''laptop'', de_platform = ''linux'', de_device_public_key = [1],
       de_machine_label = []\<rparr>\<rparr>"

lemma empty_log_ok: "log_ok X empty_db"
  by (simp add: log_ok_def)

theorem service_log_append_only_witness:
  "log_ok demo_ext (w_db (snd (serve_grpc demo_ext False demo_metadata (Bootstrap demo_bootstrap) demo_world)))"
proof -
  obtain w' where "rpc_step demo_ext False demo_world w'"
    and w': "w_db w' = w_db (snd (serve_grpc demo_ext False demo_metadata (Bootstrap demo_bootstrap) demo_world))"
    using some_rpc_step by blast
  then have "(rpc_step demo_ext False)\<^sup>*\<^sup>* demo_world w'" by simp
  from service_log_append_only [OF this] w' show ?thesis by (simp add: empty_log_ok)
qed



end
