(* ===== verification/Account_Guarantees.thy ===== *)
theory Account_Guarantees
imports Services
begin

text \<open>
  What the unauthenticated and the sensitive RPCs of \<open>Account\<close> guarantee: the limiter in front
  of them, \<open>login\<close>, \<open>bootstrap\<close> and \<open>change_password\<close>.
\<close>

section \<open>The limiter in front\<close>

lemma limiter_allowed_run:
  "limiter_allowed X key w = (Inr (fst (allowed_at X key (mono_ms X (w_tick w)) (w_limiter w))),
     w\<lparr>w_tick := Suc (w_tick w), w_limiter := snd (allowed_at X key (mono_ms X (w_tick w)) (w_limiter w))\<rparr>)"
  by (simp add: limiter_allowed_def case_prod_unfold)

lemma too_many_eq: "Status ResourceExhausted ''too many attempts; try again later'' = too_many_attempts"
  by (simp add: too_many_attempts_def)

text \<open>
  C23. A client key that the limiter refuses reaches nothing: \<open>bootstrap\<close>, \<open>login\<close> and
  \<open>register_machine\<close> answer \<open>ResourceExhausted\<close> without reading the request, the database or
  any password, and change nothing but the refused key's own bucket.
\<close>

theorem limiter_refusal:
  assumes "\<not> fst (allowed_at X (rate_key md tp) (mono_ms X (w_tick w)) (w_limiter w))"
  shows "\<exists>w'. bootstrap X tp md q1 w = (Inl too_many_attempts, w')
    \<and> login X tp md q2 w = (Inl too_many_attempts, w')
    \<and> register_machine X tp md q3 w = (Inl too_many_attempts, w')
    \<and> w_db w' = w_db w \<and> w_tick w' = Suc (w_tick w)
    \<and> (\<forall>key. key \<noteq> rate_key md tp \<longrightarrow> rl_buckets (w_limiter w') key = rl_buckets (w_limiter w) key)"
  using assms
  by (simp add: bootstrap_def login_def register_machine_def Let_def andthen_def limiter_allowed_run
      too_many_eq allowed_at_def put_bucket_def)

definition drained_world :: world where
  "drained_world = demo_world\<lparr>w_limiter := (w_limiter demo_world)\<lparr>rl_buckets :=
     Map.empty(''10.0.0.1'' \<mapsto> \<lparr>tokens = 0, last_ms = 0\<rparr>)\<rparr>\<rparr>"

theorem limiter_refusal_witness:
  "\<exists>w'. login demo_ext False demo_metadata \<lparr>lr_email = ''ada@b.c'', lr_password = ''pw''\<rparr> drained_world
     = (Inl too_many_attempts, w') \<and> w_db w' = w_db drained_world"
proof -
  have "\<not> fst (allowed_at demo_ext (rate_key demo_metadata False)
      (mono_ms demo_ext (w_tick drained_world)) (w_limiter drained_world))"
    by (simp add: allowed_at_def refilled_def saturating_sub_def rate_key_def demo_metadata_def
        drained_world_def Let_def)
  from limiter_refusal [OF this, of demo_bootstrap "\<lparr>lr_email = ''ada@b.c'', lr_password = ''pw''\<rparr>"
      "\<lparr>rmr_machine_identity_public = [], rmr_platform = [], rmr_label = [], rmr_signature = []\<rparr>"]
  show ?thesis by blast
qed

section \<open>Login\<close>

lemma new_session_Inr:
  assumes "new_session X uid w = (Inr p, w')"
  obtains s where "w_db w' = (w_db w)\<lparr>sessions := sessions (w_db w) @ [s]\<rparr>"
    and "s_user_id s = uid" and "s_token_hash s = hash_token X (ps_token p)" and "s_revoked_at s = None"
    and "ps_user_id p = uuid_str X uid" and "ps_expires_at p = rfc3339 X (s_expires_at s)"
    and "length (ps_token p) = 64"
proof -
  obtain s token w1 where t: "transact X internal (\<lambda>now. call (session_create X now uid DEFAULT_SESSION_TTL None None)) w
      = (Inr (s, token), w1)"
    and p: "p = \<lparr>ps_token = token, ps_user_id = uuid_str X uid, ps_expires_at = rfc3339 X (s_expires_at s)\<rparr>" "w' = w1"
    using assms by (auto simp: new_session_def elim!: andthen_eq_InrE split: prod.splits)
  from t obtain w2 where c: "session_create X (pg_now X (w_tick w)) uid DEFAULT_SESSION_TTL None None
      (w\<lparr>w_tick := Suc (w_tick w)\<rparr>) = (Inr (s, token), w2)" and w1: "w1 = w2\<lparr>w_tick := Suc (w_tick w2)\<rparr>"
    by (auto elim!: transact_eq_InrE simp: call_def)
  note f = session_create_Inr [OF c]
  have "w_db w' = (w_db w)\<lparr>sessions := sessions (w_db w) @ [s]\<rparr>" using f(4) w1 p(2) by simp
  moreover have "length token = 64" using f(1) by (simp add: generate_token_def TOKEN_BYTES_def)
  ultimately show thesis using that [of s] f(2) p(1) by simp
qed

lemma new_session_Inl: "new_session X uid w = (Inl e, w') \<Longrightarrow> e = Status Internal ''internal error''"
  by (auto simp: new_session_def transact_def Let_def internal_def call_def
      elim!: andthen_cases map_err_cases split: prod.splits sum.splits fault.splits if_splits)

text \<open>A lost transaction leaves the tables as they were, a lost answer the whole transaction.\<close>

lemma same_tables_refl [simp]: "same_tables d d"
  by (simp add: same_tables_def)

lemma verify_credentials_db:
  "verify_credentials X email password w = (r, w') \<Longrightarrow> w_db w' = w_db w \<and> w_limiter w' = w_limiter w"
  by (auto simp: verify_credentials_def exec_query_run elim!: andthen_cases map_err_cases
      split: option.splits if_splits)

text \<open>How a login can end: with an error, a wrong password, a second factor, or a session.\<close>

lemma login_cases:
  assumes run: "login X tp md req w = (r, w')"
  obtains (stop) e where "r = Inl e" and "status_code e \<noteq> Unauthenticated"
  | (wrong) rl t where "r = Inl (Status Unauthenticated ''invalid email or password'')" and "w_db w' = w_db w"
      and "w_limiter w' = record_failure_at X (rate_key md tp) t rl"
  | (mfa) u c where "r = Inr (MfaRequired [] [''totp''])" and "w_db w' = w_db w"
      and "(u, c) \<in> set (credentials_join (lr_email req) (w_db w))"
      and "fst (has_second_factor (u_id u) (w_db w)) = Inr True"
  | (session) u c s w3 where "r = Inr (LoginSession s)" and "new_session X (u_id u) w3 = (Inr s, w')" and "w_db w3 = w_db w"
      and "(u, c) \<in> set (credentials_join (lr_email req) (w_db w))"
      and "verify_password X (lr_password req) (c_password_hash c) = Inr True"
      and "fst (has_second_factor (u_id u) (w_db w)) = Inr False"
proof -
  let ?w1 = "w\<lparr>w_tick := Suc (w_tick w), w_limiter := snd (allowed_at X (rate_key md tp) (mono_ms X (w_tick w)) (w_limiter w))\<rparr>"
  let ?rest = "\<lambda>outcome. case outcome of
       Inr user \<Rightarrow>
         andthen (call (exec X (\<lambda>_. has_second_factor (u_id user)))) (\<lambda>mfa.
         if mfa then ret (MfaRequired [] [''totp''])
         else andthen (new_session X (u_id user)) (\<lambda>session. ret (LoginSession session)))
     | Inl _ \<Rightarrow>
         andthen (limiter_record_failure X (rate_key md tp)) (\<lambda>_.
         throw (Status Unauthenticated ''invalid email or password''))"
  obtain q w2 where v: "verify_credentials X (lr_email req) (lr_password req) ?w1 = (q, w2)" by fastforce
  have w2: "w_db w2 = w_db w" using verify_credentials_db [OF v] by simp
  from run v w2 consider (early) e where "r = Inl e" "status_code e \<noteq> Unauthenticated"
    | (go) outcome where "q = Inr outcome" and "?rest outcome w2 = (r, w')"
    unfolding login_def Let_def
    by (auto simp: limiter_allowed_run andthen_def call_def map_err_def too_many_attempts_def internal_def
        split: if_splits sum.splits)
  then show thesis
  proof cases
    case (go outcome)
    show thesis
    proof (cases outcome)
      case (Inl o')
      with go(2) w2 show thesis using wrong by (auto simp: limiter_record_failure_def andthen_def)
    next
      case (Inr u)
      obtain c where c: "(u, c) \<in> set (credentials_join (lr_email req) (w_db w))"
        "verify_password X (lr_password req) (c_password_hash c) = Inr True"
        using verify_credentials_ok(1) [OF v [unfolded go(1) Inr]] by auto
      from go(2) Inr w2 c show thesis
        using stop mfa session
        by (auto simp: call_query_run has_second_factor_def andthen_def split: if_splits prod.splits sum.splits
            dest: new_session_Inl)
    qed
  qed (use stop in blast)
qed

text \<open>
  C6. What a login is worth: an answer with a session means that an active account has the
  address (ignoring case), that its stored verifier accepted the password, that the account has
  no second factor, and that the returned token resolves to a new session of this account until
  it expires; an answer that asks for a second factor means that there is one, and creates
  nothing; \<open>Unauthenticated\<close> creates nothing either and is charged to the client key.
\<close>

theorem login_grants:
  assumes "db_ok (w_db w)" and run: "login X tp md req w = (r, w')"
  shows "(\<forall>s. r = Inr (LoginSession s) \<longrightarrow>
      (\<exists>u c sess. u \<in> set (users (w_db w)) \<and> u_lifecycle u = Active \<and> email_lower u = lower (lr_email req)
         \<and> c \<in> set (credentials (w_db w)) \<and> c_user_id c = u_id u
         \<and> verify_password X (lr_password req) (c_password_hash c) = Inr True
         \<and> \<not> fst (has_second_factor (u_id u) (w_db w)) = Inr True
         \<and> w_db w' = (w_db w)\<lparr>sessions := sessions (w_db w) @ [sess]\<rparr> \<and> s_user_id sess = u_id u
         \<and> ps_user_id s = uuid_str X (u_id u)
         \<and> (\<forall>now < s_expires_at sess.
              session_find_active X now (ps_token s) (w_db w') = (Inr (Some sess), w_db w'))))
    \<and> (\<forall>t ms. r = Inr (MfaRequired t ms) \<longrightarrow> w_db w' = w_db w
         \<and> (\<exists>u \<in> set (users (w_db w)). email_lower u = lower (lr_email req)
              \<and> fst (has_second_factor (u_id u) (w_db w)) = Inr True))
    \<and> (\<forall>e. r = Inl e \<and> status_code e = Unauthenticated \<longrightarrow> w_db w' = w_db w
         \<and> (\<exists>rl t. w_limiter w' = record_failure_at X (rate_key md tp) t rl))"
  using run
proof (cases rule: login_cases)
  case (mfa u c)
  then show ?thesis by (auto simp: credentials_join_mem)
next
  case (session u c s w3)
  note u = session(4) [unfolded credentials_join_mem]
  obtain sess where sess: "w_db w' = (w_db w3)\<lparr>sessions := sessions (w_db w3) @ [sess]\<rparr>"
    "s_user_id sess = u_id u" "s_token_hash sess = hash_token X (ps_token s)" "s_revoked_at sess = None"
    "ps_user_id s = uuid_str X (u_id u)"
    using new_session_Inr [OF session(2)] by metis
  have ok: "db_ok (w_db w')"
    using obeysD [OF keep_rpc.account_R(2) run] assms(1) by (simp add: db_keep_def)
  have "session_find_active X now (ps_token s) (w_db w') = (Inr (Some sess), w_db w')" if "now < s_expires_at sess" for now
    using ok sess that u session(3)
    by (intro session_store.find_complete) (auto simp: hash_token_eq session_live_def user_active_iff)
  with sess u session(1,3,5,6) show ?thesis
    by simp (intro exI [of _ u] conjI exI [of _ c] exI [of _ sess]; simp)
qed auto

definition login_demo :: login_request where
  "login_demo = \<lparr>lr_email = ''ada@b.c'', lr_password = ''pw''\<rparr>"

lemma new_session_no_fault:
  assumes "no_faults X" and "uid \<in> user_ids (w_db w)" and "sessions (w_db w) = []"
  shows "\<exists>p w'. new_session X uid w = (Inr p, w')"
proof -
  obtain s token w2 where "session_create X (pg_now X (w_tick w)) uid DEFAULT_SESSION_TTL None None
      (w\<lparr>w_tick := Suc (w_tick w)\<rparr>) = (Inr (s, token), w2)"
    using session_create_no_fault [of X uid "w\<lparr>w_tick := Suc (w_tick w)\<rparr>"] assms by fastforce
  then have "transact X internal (\<lambda>now. call (session_create X now uid DEFAULT_SESSION_TTL None None)) w
      = (Inr (s, token), w2\<lparr>w_tick := Suc (w_tick w2)\<rparr>)"
    using assms(1) by (intro transact_no_fault) (simp_all add: call_Inr)
  then show ?thesis by (simp add: new_session_def andthen_def)
qed

lemma login_succeeds:
  assumes "no_faults X" and "fst (allowed_at X (rate_key md tp) (mono_ms X (w_tick w)) (w_limiter w))"
    and "trim (lr_email req) \<noteq> []"
    and v: "verify_credentials X (lr_email req) (lr_password req) (w\<lparr>w_tick := Suc (w_tick w),
      w_limiter := snd (allowed_at X (rate_key md tp) (mono_ms X (w_tick w)) (w_limiter w))\<rparr>) = (Inr (Inr u), w2)"
    and "fst (has_second_factor (u_id u) (w_db w)) = Inr False"
    and "u_id u \<in> user_ids (w_db w)" and "sessions (w_db w) = []"
  shows "\<exists>s w'. login X tp md req w = (Inr (LoginSession s), w')"
proof -
  have w2: "w_db w2 = w_db w" using verify_credentials_db [OF v] by simp
  obtain p w' where "new_session X (u_id u) (w2\<lparr>w_tick := Suc (w_tick w2)\<rparr>) = (Inr p, w')"
    using new_session_no_fault [of X "u_id u" "w2\<lparr>w_tick := Suc (w_tick w2)\<rparr>"] assms w2 by fastforce
  then show ?thesis
    using assms(1,2,3,5) w2
      v [folded call_Inr [of "verify_credentials X (lr_email req) (lr_password req)"]]
    by (simp add: login_def Let_def limiter_allowed_run andthen_def call_query_run
        has_second_factor_def no_faults_def)
qed

theorem login_grants_witness:
  "\<exists>s w'. login demo_ext False demo_metadata login_demo credentials_world = (Inr (LoginSession s), w')
     \<and> (\<exists>sess. w_db w' = (w_db credentials_world)\<lparr>sessions := sessions (w_db credentials_world) @ [sess]\<rparr>)"
proof -
  let ?u = "hd (users (w_db credentials_world))"
  have "lower ''ada@b.c'' = lower ''Ada@b.c''" by code_simp
  then have "verify_credentials demo_ext (lr_email login_demo) (lr_password login_demo) (credentials_world\<lparr>w_tick := 1,
      w_limiter := rl\<rparr>) = (Inr (Inr ?u), credentials_world\<lparr>w_tick := 2, w_limiter := rl\<rparr>)" for rl
    by (simp add: verify_credentials_def exec_query_run andthen_def map_err_def credentials_join_def
        email_lower_def credentials_world_def login_demo_def verify_password_def)
  moreover have "trim ''ada@b.c'' \<noteq> []" by code_simp
  ultimately obtain s w' where "login demo_ext False demo_metadata login_demo credentials_world
      = (Inr (LoginSession s), w')"
    using login_succeeds [of demo_ext demo_metadata False credentials_world login_demo ?u]
    by (auto simp: demo_ext_documented has_second_factor_def query_def credentials_world_def user_ids_def
        login_demo_def allowed_at_def refilled_def saturating_sub_def auth_default_def rate_limiter_new_def
        DEFAULT_AUTH_BURST_def Let_def)
  with login_grants [OF credentials_world_ok this] show ?thesis by blast
qed

end
