(* ===== verification/Account_Bootstrap.thy ===== *)
theory Account_Bootstrap
imports Account_Guarantees
begin

text \<open>
  \<open>bootstrap\<close> creates the first account in one transaction, behind a gate that counts the users
  outside of it; \<open>change_password\<close> replaces verifier and wrapped keys together.
\<close>

section \<open>What a successful append leaves\<close>

lemma append_Inr:
  assumes "append X actor app_id event_type event_data w = (Inr e, w')"
  shows "w_db w' = (w_db w)\<lparr>events := events (w_db w) @ [e], events_seqno_seq := events_seqno_seq (w_db w) + 1\<rparr>"
    and "e_actor_user_id e = map_option act_user_id actor" and "e_event_type e = event_type"
    and "e_event_data e = event_data"
proof -
  obtain f where "w_db w' = (w_db w)\<lparr>events := events (w_db w) @ [f],
      events_seqno_seq := events_seqno_seq (w_db w) + 1\<rparr>" "f = e"
    and "canonical_of e = append_draft X w actor app_id event_type event_data"
    using append_cases [OF assms] by auto
  then show "w_db w' = (w_db w)\<lparr>events := events (w_db w) @ [e], events_seqno_seq := events_seqno_seq (w_db w) + 1\<rparr>"
    "e_actor_user_id e = map_option act_user_id actor" "e_event_type e = event_type" "e_event_data e = event_data"
    by (simp_all add: canonical_of_def append_draft_def draft_def)
qed

section \<open>Bootstrap\<close>

text \<open>The first account as \<open>bootstrap\<close> leaves it: one row per table, all of them linked.\<close>

definition owner_installed :: "ext \<Rightarrow> bootstrap_request \<Rightarrow> database \<Rightarrow> session \<Rightarrow> database \<Rightarrow> bool" where
  "owner_installed X req d s d' \<longleftrightarrow>
     (\<exists>u c k m v e. users d' = users d @ [u] \<and> u_lifecycle u = Active \<and> u_instance_role u = Owner
        \<and> u_email u = trim (br_email req) \<and> u_display_name u = trim (br_display_name req)
        \<and> credentials d' = credentials d @ [c] \<and> c_user_id c = u_id u
        \<and> (\<exists>i. argon2_hash X i (as_bytes (br_password req)) = Some (c_password_hash c))
        \<and> user_keys d' = user_keys d @ [k] \<and> uk_user_id k = u_id u
        \<and> br_key_material req = Some (from_key_material (uk_material k))
        \<and> machines d' = machines d @ [m] \<and> m_claimed_by_user_id m = Some (u_id u)
        \<and> devices d' = devices d @ [v] \<and> d_user_id v = u_id u \<and> d_machine_id v = Some (m_id m)
        \<and> sessions d' = sessions d @ [s] \<and> s_user_id s = u_id u \<and> s_revoked_at s = None
        \<and> events d' = events d @ [e] \<and> e_event_type e = ''owner_bootstrapped''
        \<and> e_actor_user_id e = Some (u_id u))"

lemma user_create_Inr:
  "user_create new_id now email name role lifecycle d = (Inr u, d') \<Longrightarrow>
     d' = d\<lparr>users := users d @ [u]\<rparr> \<and> u_email u = email \<and> u_display_name u = name
     \<and> u_instance_role u = role \<and> u_lifecycle u = lifecycle"
  by (auto simp: user_create_def insert_user_def sql_ok_def sql_err_def split: if_splits)

lemma machine_create_Inr:
  "machine_create new_id now label platform claimed d = (Inr m, d') \<Longrightarrow>
     d' = d\<lparr>machines := machines d @ [m]\<rparr> \<and> m_claimed_by_user_id m = claimed"
  by (auto simp: machine_create_def insert_machine_def sql_ok_def sql_err_def split: if_splits)

lemma device_register_Inr:
  "device_register new_id now nd d = (Inr v, d') \<Longrightarrow>
     d' = d\<lparr>devices := devices d @ [v]\<rparr> \<and> d_user_id v = nd_user_id nd \<and> d_machine_id v = nd_machine_id nd"
  by (auto simp: device_register_def insert_device_def sql_ok_def sql_err_def split: if_splits)

lemma enroll_device_Inr:
  assumes "enroll_device X now user dev w = (Inr p, w')"
  shows "\<exists>m v. w_db w' = (w_db w)\<lparr>machines := machines (w_db w) @ [m], devices := devices (w_db w) @ [v]\<rparr>
    \<and> m_claimed_by_user_id m = Some (u_id user) \<and> d_user_id v = u_id user \<and> d_machine_id v = Some (m_id m)"
  using assms unfolding enroll_device_def Let_def
  by (auto elim!: andthen_eq_InrE exec_eq_InrE simp: call_Inr dest!: machine_create_Inr device_register_Inr) blast

lemma bootstrap_tx_Inr:
  assumes run: "bootstrap_tx X (trim (br_email req)) (trim (br_display_name req)) phc km dev now w
      = (Inr (u, s, token), w')"
    and phc: "argon2_hash X i (as_bytes (br_password req)) = Some phc" and km: "br_key_material req = Some km"
  shows "owner_installed X req (w_db w) s (w_db w')" and "last (users (w_db w')) = u"
    and "s_token_hash s = hash_token X token"
proof -
  obtain d1 d2 d3 w4 w5 device e where
    1: "user_create (gen_uuid X (w_tick w)) now (trim (br_email req)) (trim (br_display_name req)) Owner Active (w_db w)
      = (Inr u, d1)"
    and 2: "create_credentials now (u_id u) phc d1 = (Inr (), d2)"
    and 3: "user_key_create (u_id u) (to_key_material km) d2 = (Inr (), d3)"
    and 4: "enroll_device X now u dev (w\<lparr>w_tick := Suc (Suc (Suc (w_tick w))), w_db := d3\<rparr>)
      = (Inr device, w4)"
    and 5: "append X (Some (actor_of u)) None ''owner_bootstrapped''
        (JObj [(''device_id'', JStr (pd_device_id device)), (''email'', JStr (u_email u))]) w4 = (Inr e, w5)"
    and 6: "session_create X now (u_id u) DEFAULT_SESSION_TTL None None w5 = (Inr (s, token), w')"
    using run unfolding bootstrap_tx_def
    by (auto elim!: andthen_eq_InrE exec_eq_InrE simp: call_Inr split: prod.splits)
  note f1 = user_create_Inr [OF 1]
  have f2: "d2 = d1\<lparr>credentials := credentials d1
      @ [\<lparr>c_user_id = u_id u, c_password_hash = phc, c_created_at = now, c_updated_at = now\<rparr>]\<rparr>"
    using 2 by (auto simp: create_credentials_def sql_ok_def sql_err_def split: if_splits)
  have f3: "d3 = d2\<lparr>user_keys := user_keys d2
      @ [\<lparr>uk_user_id = u_id u, uk_material = to_key_material km\<rparr>]\<rparr>"
    using 3 by (auto simp: user_key_create_def sql_ok_def sql_err_def split: if_splits)
  obtain m v where f4: "w_db w4 = d3\<lparr>machines := machines d3 @ [m], devices := devices d3 @ [v]\<rparr>"
    "m_claimed_by_user_id m = Some (u_id u)" "d_user_id v = u_id u" "d_machine_id v = Some (m_id m)"
    using enroll_device_Inr [OF 4] by simp blast
  note f5 = append_Inr [OF 5]
  note f6 = session_create_Inr [OF 6]
  have s: "s_user_id s = u_id u" "s_revoked_at s = None" "s_token_hash s = hash_token X token"
    using f6(2) by simp_all
  show "last (users (w_db w')) = u" "s_token_hash s = hash_token X token"
    using f1 f2 f3 f4 f5 f6(4) s by simp_all
  show "owner_installed X req (w_db w) s (w_db w')"
    unfolding owner_installed_def
    by (rule exI [of _ u], rule exI [of _ "last (credentials (w_db w'))"], rule exI [of _ "last (user_keys (w_db w'))"],
        rule exI [of _ m], rule exI [of _ v], rule exI [of _ e])
      (use f1 f2 f3 f4 f5 f6(4) s phc km in \<open>auto simp: actor_of_def\<close>)
qed

lemma same_tables_rollback [simp]: "same_tables d (rollback d d')"
  by (simp add: same_tables_def)

lemma hash_password_run:
  "hash_password X pw w = (r, w') \<Longrightarrow> w_db w' = w_db w \<and> (\<forall>phc. r = Inr phc \<longrightarrow>
     (\<exists>i. argon2_hash X i (as_bytes pw) = Some phc))"
  by (auto simp: hash_password_def andthen_def split: option.splits)

text \<open>Up to its transaction, \<open>bootstrap\<close> only reads; then everything is decided by the transaction.\<close>

lemma bootstrap_cases:
  assumes "bootstrap X tp md req w = (r, w')"
  obtains (refused) e where "r = Inl e" and "w_db w' = w_db w"
  | (tx) km dev phc i w1 q w2 where "users (w_db w) = []" and "br_key_material req = Some km"
      and "argon2_hash X i (as_bytes (br_password req)) = Some phc" and "w_db w1 = w_db w"
      and "transact X internal (bootstrap_tx X (trim (br_email req)) (trim (br_display_name req)) phc km dev) w1 = (q, w2)"
      and "w_db w' = w_db w2"
      and "r = (case q of Inl e \<Rightarrow> Inl e | Inr (u, s, token) \<Rightarrow>
        Inr \<lparr>ps_token = token, ps_user_id = uuid_str X (u_id u), ps_expires_at = rfc3339 X (s_expires_at s)\<rparr>)"
proof -
  let ?w1 = "w\<lparr>w_tick := Suc (w_tick w), w_limiter :=
      snd (allowed_at X (rate_key md tp) (mono_ms X (w_tick w)) (w_limiter w))\<rparr>"
  let ?w2 = "?w1\<lparr>w_tick := Suc (w_tick ?w1)\<rparr>"
  let ?tail = "\<lambda>km dev phc. andthen (transact X internal (bootstrap_tx X (trim (br_email req))
      (trim (br_display_name req)) phc km dev)) (\<lambda>(user, session, token).
     ret \<lparr>ps_token = token, ps_user_id = uuid_str X (u_id user),
          ps_expires_at = rfc3339 X (s_expires_at session)\<rparr>)"
  obtain h w4 where h: "hash_password X (br_password req) ?w2 = (h, w4)" by fastforce
  note hr = hash_password_run [OF h]
  have hc: "call (hash_password X (br_password req)) ?w2 = (case h of Inl e \<Rightarrow> Inl (internal e) | Inr a \<Rightarrow> Inr a, w4)"
    using h by (simp add: call_def map_err_def split: sum.splits)
  consider (stop) e where "r = Inl e" "w_db w' = w_db w"
    | (go) km dev phc where "users (w_db w) = []" "br_key_material req = Some km" "h = Inr phc"
        "?tail km dev phc w4 = (r, w')"
    using assms hc hr
    by (auto simp: bootstrap_def Let_def limiter_allowed_run andthen_def call_query_run user_count_def
        limiter_record_failure_def
        split: if_splits option.splits sum.splits prod.splits)
  then show thesis
  proof cases
    case (go km dev phc)
    obtain i where i: "argon2_hash X i (as_bytes (br_password req)) = Some phc" using hr go(3) by auto
    obtain q w5 where t: "transact X internal (bootstrap_tx X (trim (br_email req)) (trim (br_display_name req))
        phc km dev) w4 = (q, w5)" by fastforce
    have "w_db w' = w_db w5 \<and> r = (case q of Inl e \<Rightarrow> Inl e | Inr (u, s, token) \<Rightarrow>
        Inr \<lparr>ps_token = token, ps_user_id = uuid_str X (u_id u), ps_expires_at = rfc3339 X (s_expires_at s)\<rparr>)"
      using go(4) t by (cases q) (auto simp: andthen_def)
    then show thesis using tx go(1,2) i hr t by auto
  qed (rule refused)
qed

text \<open>
  C12. Bootstrap is atomic and guarded: unless the server has no account at all, it changes no
  table; whatever fails on the way, the tables are those of before or hold exactly one complete
  owner (account, verifier, keys, machine, device, session and audit event, linked to each
  other); and a session in the answer means the latter, with a token that resolves to it until
  it expires.
\<close>

theorem bootstrap_atomic:
  assumes "db_ok (w_db w)" and run: "bootstrap X tp md req w = (r, w')"
  shows "(same_tables (w_db w) (w_db w')
          \<or> users (w_db w) = [] \<and> (\<exists>s. owner_installed X req (w_db w) s (w_db w')))
    \<and> (\<forall>p. r = Inr p \<longrightarrow> users (w_db w) = []
         \<and> (\<exists>s. owner_installed X req (w_db w) s (w_db w')
              \<and> (\<forall>now < s_expires_at s.
                   session_find_active X now (ps_token p) (w_db w') = (Inr (Some s), w_db w'))))"
  using run
proof (cases rule: bootstrap_cases)
  case (tx km dev phc i w1 q w2)
  let ?body = "bootstrap_tx X (trim (br_email req)) (trim (br_display_name req)) phc km dev"
  have installed: "owner_installed X req (w_db w) s d \<and> s_token_hash s = hash_token X token"
    if "?body t (w1\<lparr>w_tick := n\<rparr>) = (Inr (u, s, token), w3)" "w_db w3 = d" for t n u s token w3 d
    using bootstrap_tx_Inr [OF that(1) tx(3,2)] that(2) tx(4) by simp
  show ?thesis
  proof (cases q)
    case (Inl e)
    have "same_tables (w_db w) (w_db w2) \<or> (\<exists>s. owner_installed X req (w_db w) s (w_db w2))"
      using transact_all_or_nothing [OF tx(5)] tx(4) installed by (metis prod_cases3 same_tables_rollback)
    then show ?thesis using tx(1,6,7) Inl by auto
  next
    case (Inr p)
    then obtain u s token where p: "q = Inr (u, s, token)" by (cases p) auto
    obtain w3 where "?body (pg_now X (w_tick w1)) (w1\<lparr>w_tick := Suc (w_tick w1)\<rparr>) = (Inr (u, s, token), w3)"
      and w3: "w_db w2 = w_db w3"
      using tx(5) [unfolded p] by (auto elim!: transact_eq_InrE)
    from installed [OF this(1)] have i: "owner_installed X req (w_db w) s (w_db w2)"
      "s_token_hash s = hash_token X token" using w3 by auto
    have ok: "db_ok (w_db w2)"
      using obeysD [OF keep_rpc.account_R(1) run] assms(1) tx(6) by (simp add: db_keep_def)
    have "session_find_active X now token (w_db w2) = (Inr (Some s), w_db w2)" if "now < s_expires_at s" for now
      using ok i that unfolding owner_installed_def
      by (intro session_store.find_complete) (auto simp: hash_token_eq session_live_def user_active_iff)
    then show ?thesis using tx(1,6,7) p i by auto
  qed
qed auto

lemma demo_bootstrap_gate:
  "users (w_db credentials_world) \<noteq> []"
  by (simp add: credentials_world_def)

theorem bootstrap_atomic_witness:
  "same_tables (w_db credentials_world) (w_db (snd (bootstrap demo_ext False demo_metadata demo_bootstrap credentials_world)))"
  using bootstrap_atomic [OF credentials_world_ok, of demo_ext False demo_metadata demo_bootstrap] demo_bootstrap_gate
  by (metis prod.collapse)

section \<open>Changing a password\<close>

lemma verify_user_password_run:
  "verify_user_password X uid pw w = (r, w') \<Longrightarrow> w_db w' = w_db w \<and> (r = Inr True \<longrightarrow>
     (\<exists>c \<in> set (credentials (w_db w)). c_user_id c = uid \<and> verify_password X pw (c_password_hash c) = Inr True))"
  by (auto simp: verify_user_password_def exec_query_run elim!: andthen_cases map_err_cases
      dest!: fetch_filter_SomeD split: option.splits if_splits)

text \<open>Authentication touches no table but the sessions.\<close>

lemma authenticate_frame:
  assumes "authenticate X md w = (r, w')"
  shows "\<exists>ss. w_db w' = (w_db w)\<lparr>sessions := ss\<rparr>"
proof -
  have same: "\<exists>ss. d = d\<lparr>sessions := ss\<rparr>" for d :: database
    by (rule exI [of _ "sessions d"]) simp
  show ?thesis
  proof (cases r)
    case (Inl e)
    then show ?thesis using authenticate_Inl(2) assms same by metis
  next
    case (Inr u)
    with assms have "w_db w' = w_db w \<or> (\<exists>t sid. w_db w' = snd (touch_last_seen t sid (w_db w)))"
      by (metis authenticate_Inr)
    then show ?thesis using same by (auto simp: touch_last_seen_def)
  qed
qed

text \<open>A transaction whose body fails internally fails internally.\<close>

lemma transact_internal:
  assumes "transact X internal body w = (Inl e, w')"
    and "\<And>t w1 e w2. body t w1 = (Inl e, w2) \<Longrightarrow> status_code e = Internal"
  shows "status_code e = Internal"
  using assms(1) unfolding transact_def Let_def
  by (auto simp: internal_def dest: assms(2) split: prod.splits sum.splits fault.splits if_splits)

text \<open>The transaction of \<open>change_password\<close>.\<close>

abbreviation password_tx :: "ext \<Rightarrow> change_password_request \<Rightarrow> user \<Rightarrow> string \<Rightarrow> time \<Rightarrow> unit rpc" where
  "password_tx X req u phc now \<equiv>
       andthen (call (exec X (\<lambda>_. update_password_hash now (u_id u) phc))) (\<lambda>_.
       andthen (call (exec X (\<lambda>_. user_key_update (u_id u) (cp_new_master_key_wrapped req)
          (cp_new_kdf_salt req) (cp_new_kdf_params req)))) (\<lambda>_.
       andthen (call (append X (Some (actor_of u)) None ''password_changed'' (JObj []))) (\<lambda>_.
       ret ())))"

definition new_verifier :: "uuid \<Rightarrow> string \<Rightarrow> time \<Rightarrow> credential list \<Rightarrow> credential list" where
  "new_verifier uid phc t = upd_where (\<lambda>c. c_user_id c = uid) (\<lambda>c. c\<lparr>c_password_hash := phc, c_updated_at := t\<rparr>)"

definition new_wrapping :: "uuid \<Rightarrow> change_password_request \<Rightarrow> user_keys_row list \<Rightarrow> user_keys_row list" where
  "new_wrapping uid req = upd_where (\<lambda>r. uk_user_id r = uid) (\<lambda>r. r\<lparr>uk_material := (uk_material r)
     \<lparr>km_master_key_wrapped := cp_new_master_key_wrapped req, km_kdf_salt := cp_new_kdf_salt req,
      km_kdf_params := cp_new_kdf_params req\<rparr>\<rparr>)"

lemma password_tx_Inl: "password_tx X req u phc t w1 = (Inl e, w2) \<Longrightarrow> status_code e = Internal"
  by (auto elim!: andthen_cases call_cases)

lemma password_tx_Inr:
  assumes "password_tx X req u phc t w1 = (Inr x, w2)"
  shows "credentials (w_db w2) = new_verifier (u_id u) phc t (credentials (w_db w1))"
    and "user_keys (w_db w2) = new_wrapping (u_id u) req (user_keys (w_db w1))"
  using assms
  by (auto elim!: andthen_eq_InrE exec_eq_InrE simp: call_Inr update_password_hash_def user_key_update_def
      sql_ok_def new_verifier_def new_wrapping_def dest!: append_Inr(1))

lemma change_password_stored:
  assumes X: "argon2_sound X"
    and run: "andthen (call (hash_password X (cp_new_password req))) (\<lambda>phc. transact X internal (password_tx X req u phc)) w = (r, w')"
  shows "(\<exists>e. r = Inl e \<and> status_code e = Internal)
    \<or> r = Inr () \<and> (\<exists>phc t. verify_password X (cp_new_password req) phc = Inr True
        \<and> credentials (w_db w') = new_verifier (u_id u) phc t (credentials (w_db w))
        \<and> user_keys (w_db w') = new_wrapping (u_id u) req (user_keys (w_db w)))"
  using run
proof (cases rule: andthen_cases)
  case (stop e)
  from stop(1) have "status_code e = Internal" by (auto elim!: call_cases)
  then show ?thesis using stop(2) by simp
next
  case (go phc w1)
  then have "hash_password X (cp_new_password req) w = (Inr phc, w1)" by (simp add: call_Inr)
  then obtain i where i: "argon2_hash X i (as_bytes (cp_new_password req)) = Some phc" and w1: "w_db w1 = w_db w"
    using hash_password_run by fastforce
  have new: "verify_password X (cp_new_password req) phc = Inr True"
    using X i by (auto simp: argon2_sound_def verify_password_Inr)
  show ?thesis
  proof (cases r)
    case (Inl e)
    then show ?thesis using transact_internal [OF go(2) [unfolded Inl]] password_tx_Inl by blast
  next
    case (Inr x)
    then obtain w2 where "password_tx X req u phc (pg_now X (w_tick w1)) (w1\<lparr>w_tick := Suc (w_tick w1)\<rparr>) = (Inr x, w2)"
      "w_db w' = w_db w2"
      using go(2) by (auto elim!: transact_eq_InrE)
    with password_tx_Inr [OF this(1)] Inr show ?thesis
      using new w1 by (intro disjI2 conjI exI [of _ phc]) auto
  qed
qed

lemma change_password_cases:
  assumes X: "argon2_sound X" and run: "change_password X md req w = (r, w')"
  obtains (internal) e where "r = Inl e" and "status_code e = Internal"
  | (refused) e where "r = Inl e" and "credentials (w_db w') = credentials (w_db w)" and "user_keys (w_db w') = user_keys (w_db w)"
  | (changed) u c phc t where "r = Inr ()" and "u \<in> set (users (w_db w))" and "c \<in> set (credentials (w_db w))"
      and "c_user_id c = u_id u" and "verify_password X (cp_current_password req) (c_password_hash c) = Inr True"
      and "verify_password X (cp_new_password req) phc = Inr True"
      and "credentials (w_db w') = new_verifier (u_id u) phc t (credentials (w_db w))"
      and "user_keys (w_db w') = new_wrapping (u_id u) req (user_keys (w_db w))"
  using run unfolding change_password_def
proof (cases rule: andthen_cases)
  case (stop e)
  then show thesis using authenticate_Inl(2) [OF stop(1)] refused by simp
next
  case (go u w1)
  obtain ss where w1: "w_db w1 = (w_db w)\<lparr>sessions := ss\<rparr>" using authenticate_frame [OF go(1)] by blast
  have u: "u \<in> set (users (w_db w))" using authenticate_Inr [OF go(1)] by metis
  from go(2) show thesis
  proof (cases rule: andthen_cases)
    case (stop e)
    from stop(1) have "w_db w' = w_db w1" by (auto elim!: call_cases dest!: verify_user_password_run)
    then show thesis using refused w1 stop(2) by simp
  next
    case (go b w2)
    then have v: "verify_user_password X (u_id u) (cp_current_password req) w1 = (Inr b, w2)" by (simp add: call_Inr)
    note v' = verify_user_password_run [OF v]
    show thesis
    proof (cases "b \<and> cp_new_password req \<noteq> []")
      case False
      then have "w_db w' = w_db w2" "\<exists>e. r = Inl e" using go(2) by (auto simp: andthen_def split: if_splits)
      then show thesis using refused v' w1 by auto
    next
      case True
      then obtain c where c: "c \<in> set (credentials (w_db w))" "c_user_id c = u_id u"
        "verify_password X (cp_current_password req) (c_password_hash c) = Inr True"
        using v' w1 by auto
      have "andthen (call (hash_password X (cp_new_password req))) (\<lambda>phc. transact X internal (password_tx X req u phc)) w2 = (r, w')"
        using go(2) True by (simp add: andthen_def)
      from change_password_stored [OF X this] show thesis
        using internal changed [OF _ u c] v' w1 by auto
    qed
  qed
qed


definition account_world :: world where
  "account_world = credentials_world\<lparr>w_db := (w_db credentials_world)\<lparr>sessions :=
     [\<lparr>s_id = 3, s_user_id = 7, s_token_hash = hash_token demo_ext ''abc'', s_created_at = 0,
       s_expires_at = 1000000, s_revoked_at = None, s_user_agent = None, s_ip_address = None,
       s_last_seen_at = None, s_label = None\<rparr>]\<rparr>\<rparr>"

lemma account_world_authenticates:
  "\<exists>w'. authenticate demo_ext demo_metadata account_world = (Inr (hd (users (w_db credentials_world))), w')
     \<and> w_tick w' = 3 \<and> credentials (w_db w') = credentials (w_db credentials_world)
     \<and> events (w_db w') = [] \<and> user_keys (w_db w') = []"
proof -
  have "token_of ''Bearer abc'' = Some ''abc''" by code_simp
  then have "bearer_token demo_metadata = Inr ''abc''"
    by (simp add: bearer_token_def demo_metadata_def to_str_def)
  then show ?thesis
    by (simp add: authenticate_def andthen_def map_err_def attempt_def exec_no_fault demo_ext_documented
        session_find_active_def user_find_by_id_def query_def touch_last_seen_def sql_ok_def account_world_def
        credentials_world_def user_active_def manageable_def)
qed

definition demo_change :: change_password_request where
  "demo_change = \<lparr>cp_current_password = ''pw'', cp_new_password = ''new'', cp_new_master_key_wrapped = [1],
     cp_new_kdf_salt = [2], cp_new_kdf_params = ''p''\<rparr>"

lemma append_runs:
  assumes "no_faults X" and "events (w_db w) = []" and "\<And>c. json_vec X c \<noteq> None"
  shows "\<exists>e w'. append X actor app_id event_type event_data w = (Inr e, w')"
proof -
  obtain bs where "json_vec X (append_draft X w actor app_id event_type event_data) = Some bs"
    using assms(3) by blast
  with assms(1,2) show ?thesis by (intro append_no_fault) simp_all
qed


end
