(* ===== verification/Platform_Guarantees.thy ===== *)
theory Platform_Guarantees
imports Account_Bootstrap
begin

text \<open>
  What \<open>authenticate\<close> lets in, what a registered app has proved, and that the \<open>Resources\<close> RPCs
  stay within the rows of the account behind the token.
\<close>

section \<open>Authentication\<close>

lemma authenticate_no_fault:
  assumes "no_faults X" and t: "bearer_token md = Inr token"
    and s: "session_find_active X (pg_now X (w_tick w)) token (w_db w) = (Inr (Some s), w_db w)"
    and u: "user_find_by_id (s_user_id s) (w_db w) = (Inr (Some u), w_db w)"
  shows "\<exists>w'. authenticate X md w = (Inr u, w')"
  using assms
  by (simp add: authenticate_def andthen_def map_err_def attempt_def exec_no_fault case_prod_unfold)

lemma live_caller_active:
  assumes "db_ok d" and "session_live d now s" and "u \<in> set (users d)" and "u_id u = s_user_id s"
  shows "u_lifecycle u = Active"
proof -
  obtain v where "v \<in> set (users d)" "u_id v = s_user_id s" "u_lifecycle v = Active"
    using assms(2) by (auto simp: session_live_def user_active_iff)
  then show ?thesis using keyed_eqD [OF db_okD(1) [OF assms(1)]] assms(3,4) by metis
qed

text \<open>
  C7. Authentication lets in exactly the holders of a live session: with a working connection a
  request is accepted for an account precisely when its header carries a bearer token whose
  hash is that of a session of this account that is not revoked and not expired, and the account
  is active. Every refusal is \<open>Unauthenticated\<close> and leaves the database alone, with a failing
  connection as well; an acceptance changes at most the last-seen stamp of that session.
\<close>

theorem authenticate_exact:
  assumes "no_faults X" and "db_ok (w_db w)"
  shows "((\<exists>w'. authenticate X md w = (Inr u, w')) \<longleftrightarrow>
      (\<exists>token s. bearer_token md = Inr token \<and> s \<in> set (sessions (w_db w))
         \<and> s_token_hash s = hash_token X token \<and> s_revoked_at s = None \<and> pg_now X (w_tick w) < s_expires_at s
         \<and> u \<in> set (users (w_db w)) \<and> u_id u = s_user_id s \<and> u_lifecycle u = Active))
    \<and> (\<forall>Y v e w'. authenticate Y md v = (Inl e, w') \<longrightarrow> status_code e = Unauthenticated \<and> w_db w' = w_db v)
    \<and> (\<forall>Y v a w'. authenticate Y md v = (Inr a, w') \<longrightarrow> w_db w' = w_db v
         \<or> (\<exists>t s. s \<in> set (sessions (w_db v)) \<and> w_db w' = snd (touch_last_seen t (s_id s) (w_db v))))"
    (is "(?l \<longleftrightarrow> ?r) \<and> ?refused \<and> ?accepted")
proof (intro conjI)
  show "?l \<longleftrightarrow> ?r"
  proof
    assume ?l
    then obtain token s where "bearer_token md = Inr token" "s \<in> set (sessions (w_db w))"
      "s_token_hash s = hash_token X token" "session_live (w_db w) (pg_now X (w_tick w)) s"
      "u \<in> set (users (w_db w))" "u_id u = s_user_id s"
      by (metis authenticate_Inr)
    with live_caller_active [OF assms(2) this(4-6)] show ?r by (auto simp: session_live_def)
  next
    assume ?r
    then obtain token s where r: "bearer_token md = Inr token" "s \<in> set (sessions (w_db w))"
      "s_token_hash s = hash_token X token" "s_revoked_at s = None" "pg_now X (w_tick w) < s_expires_at s"
      "u \<in> set (users (w_db w))" "u_id u = s_user_id s" "u_lifecycle u = Active" by blast
    have "session_live (w_db w) (pg_now X (w_tick w)) s"
      using r(4-8) by (auto simp: session_live_def user_active_iff)
    then have "session_find_active X (pg_now X (w_tick w)) token (w_db w) = (Inr (Some s), w_db w)"
      using r(2,3) by (intro session_store.find_complete [OF assms(2)]) (simp_all add: hash_token_eq)
    moreover have "user_find_by_id (s_user_id s) (w_db w) = (Inr (Some u), w_db w)"
      using fetch_keyed [OF db_okD(1) [OF assms(2)] r(6), of "\<lambda>v. u_id v = s_user_id s \<and> manageable v"] r(7,8)
      by (simp add: user_find_by_id_def query_def manageable_def)
    ultimately show ?l using authenticate_no_fault [OF assms(1) r(1)] by simp
  qed
  show ?refused using authenticate_Inl(1,2) by blast
  show ?accepted by (metis authenticate_Inr)
qed

theorem authenticate_exact_witness:
  "\<exists>w'. authenticate demo_ext demo_metadata account_world = (Inr (hd (users (w_db credentials_world))), w')"
proof -
  have "db_ok (w_db account_world)"
    using credentials_world_ok
    by (simp add: account_world_def credentials_world_def db_ok_def user_ids_def machine_ids_def app_ids_def
        sessions_ok_def)
  note exact = authenticate_exact [OF demo_ext_documented(7) this, of demo_metadata "hd (users (w_db credentials_world))"]
  have "token_of ''Bearer abc'' = Some ''abc''" by code_simp
  then have "bearer_token demo_metadata = Inr ''abc''"
    by (simp add: bearer_token_def demo_metadata_def to_str_def)
  then show ?thesis
    using exact by (simp add: account_world_def credentials_world_def)
qed

section \<open>App registration\<close>

definition decl_of :: "register_app_request \<Rightarrow> app_declaration" where
  "decl_of req = \<lparr>decl_app_identifier = rar_app_identifier req,
     decl_display_name = rar_display_name req, decl_publisher = rar_publisher req,
     decl_app_public_key = rar_app_public_key req, decl_schema_version = rar_schema_version req,
     decl_resource_types = rar_resource_types req\<rparr>"

lemma upsert_app_Inr:
  "upsert_app new_id now decl who d = (Inr a, d') \<Longrightarrow>
     a \<in> set (registered_apps d') \<and> a_app_identifier a = decl_app_identifier decl
     \<and> events d' = events d"
  by (auto simp: upsert_app_def Let_def sql_ok_def sql_err_def set_upd_where split: option.splits if_splits
      dest!: fetch_filter_SomeD)

text \<open>The transaction of \<open>register_app\<close>.\<close>

abbreviation register_app_tx :: "ext \<Rightarrow> register_app_request \<Rightarrow> user \<Rightarrow> time \<Rightarrow> registered_app rpc" where
  "register_app_tx X req u now \<equiv>
       andthen (call (exec X (\<lambda>n. upsert_app (gen_uuid X n) now (decl_of req) (Some (u_id u))))) (\<lambda>row.
       andthen (call (append X (Some (actor_of u)) None ''app_registered''
         (JObj [(''app_id'', JStr (uuid_str X (a_id row))),
                (''app_identifier'', JStr (a_app_identifier row)),
                (''publisher'', JStr (a_publisher row)),
                (''schema_version'', JNum (a_schema_version row))]))) (\<lambda>_.
       ret row))"

lemma register_app_tx_Inl: "register_app_tx X req u t w1 = (Inl e, w2) \<Longrightarrow> status_code e = Internal"
  by (auto elim!: andthen_cases call_cases)

lemma register_app_tx_Inr:
  assumes "register_app_tx X req u t w1 = (Inr a, w2)"
  obtains e where "a \<in> set (registered_apps (w_db w2))" and "a_app_identifier a = rar_app_identifier req"
    and "events (w_db w2) = events (w_db w1) @ [e]" and "e_event_type e = ''app_registered''"
    and "e_actor_user_id e = Some (u_id u)"
proof -
  obtain d e where up: "upsert_app (gen_uuid X (w_tick w1)) t (decl_of req) (Some (u_id u)) (w_db w1) = (Inr a, d)"
    and ap: "append X (Some (actor_of u)) None ''app_registered''
       (JObj [(''app_id'', JStr (uuid_str X (a_id a))),
              (''app_identifier'', JStr (a_app_identifier a)),
              (''publisher'', JStr (a_publisher a)),
              (''schema_version'', JNum (a_schema_version a))]) (w1\<lparr>w_tick := Suc (w_tick w1), w_db := d\<rparr>)
      = (Inr e, w2)"
    using assms by (auto elim!: andthen_eq_InrE exec_eq_InrE simp: call_Inr)
  show thesis
    using upsert_app_Inr [OF up] append_Inr(1-3) [OF ap] by (intro that [of e]) (simp_all add: actor_of_def decl_of_def)
qed

lemma register_app_cases:
  assumes run: "register_app X md req w = (r, w')"
  obtains (refused) e where "r = Inl e" and "registered_apps (w_db w') = registered_apps (w_db w)"
      and "events (w_db w') = events (w_db w)"
  | (tx) u p w2 where "u \<in> set (users (w_db w))" and "p \<in> set (trusted_publishers (w_db w))"
      and "tp_publisher p = rar_publisher req"
      and "verify_declaration_signature X (tp_public_key p) (decl_of req) (rar_signature req)"
      and "andthen (transact X internal (register_app_tx X req u)) (\<lambda>row. ret (app_to_proto X row)) w2 = (r, w')"
      and "\<exists>ss. w_db w2 = (w_db w)\<lparr>sessions := ss\<rparr>"
  using run unfolding register_app_def
proof (cases rule: andthen_cases)
  case (stop e)
  then show thesis using authenticate_Inl(2) [OF stop(1)] refused by simp
next
  case (go u w1)
  obtain ss where w1: "w_db w1 = (w_db w)\<lparr>sessions := ss\<rparr>" using authenticate_frame [OF go(1)] by blast
  have u: "u \<in> set (users (w_db w))" using authenticate_Inr [OF go(1)] by metis
  let ?w2 = "w1\<lparr>w_tick := Suc (w_tick w1)\<rparr>"
  let ?pub = "fetch_optional (filter (\<lambda>p. tp_publisher p = rar_publisher req) (trusted_publishers (w_db w)))"
  consider (early) e where "r = Inl e" "w_db w' = w_db w1"
    | (accepted) p where "?pub = Some p" "verify_declaration_signature X (tp_public_key p) (decl_of req) (rar_signature req)"
        "andthen (transact X internal (register_app_tx X req u)) (\<lambda>row. ret (app_to_proto X row)) ?w2 = (r, w')"
    using go(2) w1
    by (auto simp: andthen_def call_query_run get_trusted_publisher_def Let_def decl_of_def
        split: if_splits option.splits)
  then show thesis
  proof cases
    case early
    then show thesis using w1 refused by simp
  next
    case (accepted p)
    then show thesis using tx [OF u _ _ accepted(2,3)] w1 by (auto dest: fetch_filter_SomeD)
  qed
qed


definition publisher_world :: world where
  "publisher_world = account_world\<lparr>w_db := (w_db account_world)\<lparr>trusted_publishers :=
     [\<lparr>tp_publisher = ''Ubivera'', tp_public_key = replicate 32 1, tp_added_by = None, tp_added_at = 0\<rparr>]\<rparr>\<rparr>"

definition demo_registration :: register_app_request where
  "demo_registration = \<lparr>rar_app_identifier = ''garden.tasks'', rar_display_name = ''Tasks'',
     rar_publisher = ''Ubivera'', rar_app_public_key = [7], rar_schema_version = 1,
     rar_resource_types = [''task''],
     rar_signature = ed25519_sign demo_ext (replicate 32 1) (canonical_declaration_bytes
       \<lparr>decl_app_identifier = ''garden.tasks'', decl_display_name = ''Tasks'', decl_publisher = ''Ubivera'',
        decl_app_public_key = [7], decl_schema_version = 1, decl_resource_types = [''task'']\<rparr>)\<rparr>"

lemma demo_registration_verifies:
  "verify_declaration_signature demo_ext (replicate 32 1) (decl_of demo_registration) (rar_signature demo_registration)"
  by (simp add: verify_declaration_signature_def decl_of_def demo_registration_def del: replicate.simps)

lemma register_app_tx_runs:
  assumes "no_faults X" and "\<And>c. json_vec X c \<noteq> None" and "events d = []"
    and up: "upsert_app (gen_uuid X (w_tick w)) now (decl_of req) (Some (u_id u)) (w_db w) = (Inr a, d)"
  shows "\<exists>w'. register_app_tx X req u now w = (Inr a, w')"
proof -
  have 1: "call (exec X (\<lambda>n. upsert_app (gen_uuid X n) now (decl_of req) (Some (u_id u)))) w
      = (Inr a, w\<lparr>w_tick := Suc (w_tick w), w_db := d\<rparr>)"
    using up by (simp add: call_Inr exec_no_fault assms(1))
  obtain e w' where "append X (Some (actor_of u)) None ''app_registered''
         (JObj [(''app_id'', JStr (uuid_str X (a_id a))), (''app_identifier'', JStr (a_app_identifier a)),
                (''publisher'', JStr (a_publisher a)), (''schema_version'', JNum (a_schema_version a))])
         (w\<lparr>w_tick := Suc (w_tick w), w_db := d\<rparr>) = (Inr e, w')"
    using append_runs [OF assms(1) _ assms(2), of "w\<lparr>w_tick := Suc (w_tick w), w_db := d\<rparr>"] assms(3) by fastforce
  then show ?thesis by (simp add: andthen_Inr 1 call_Inr ret_def)
qed

lemma register_app_runs:
  assumes "authenticate X md w = (Inr u, w1)"
    and "trim (rar_app_identifier req) \<noteq> []" and "trim (rar_display_name req) \<noteq> []" and "trim (rar_publisher req) \<noteq> []"
    and "call (exec X (\<lambda>_. get_trusted_publisher (rar_publisher req))) w1 = (Inr (Some p), w2)"
    and "verify_declaration_signature X (pub_public_key p) (decl_of req) (rar_signature req)"
    and "transact X internal (register_app_tx X req u) w2 = (Inr a, w3)"
  shows "register_app X md req w = (Inr (app_to_proto X a), w3)"
  using assms by (simp add: register_app_def Let_def andthen_Inr ret_def decl_of_def)


section \<open>Resources stay with their owner\<close>

definition others_same :: "uuid \<Rightarrow> database \<Rightarrow> database \<Rightarrow> bool" where
  "others_same owner d d' \<longleftrightarrow> others owner d' = others owner d"

interpretation foreign: db_relation "others_same owner" for owner
  by unfold_locales (simp_all add: others_same_def others_def rollback_def)

definition is_resources_request :: "request \<Rightarrow> bool" where
  "is_resources_request q =
     (case q of CreateResource _ \<Rightarrow> True | ReadResource _ \<Rightarrow> True | UpdateResource _ \<Rightarrow> True
      | DeleteResource _ \<Rightarrow> True | ListResources _ \<Rightarrow> True | StreamChanges _ \<Rightarrow> True | _ \<Rightarrow> False)"

lemma others_same_writes:
  "nr_owner_user_id new = owner \<Longrightarrow> others_same owner d (snd (resource_create u t new d))"
  "others_same owner d (snd (update_owned t rid owner blob sig version parent d))"
  "others_same owner d (snd (soft_delete_owned t rid owner d))"
proof -
  show "nr_owner_user_id new = owner \<Longrightarrow> others_same owner d (snd (resource_create u t new d))"
    by (simp add: others_same_def resource_create_def Let_def others_def)
  show "others_same owner d (snd (update_owned t rid owner blob sig version parent d))"
    unfolding others_same_def update_owned_def by (rule others_upd) simp
  have "others owner (snd (update_live rid owner (\<lambda>k r. r\<lparr>r_deleted_at := Some t, r_updated_at := t,
         r_change_seq := k\<rparr>) d)) = others owner d"
    by (rule others_upd) simp
  then show "others_same owner d (snd (soft_delete_owned t rid owner d))"
    by (auto simp: others_same_def soft_delete_owned_def split: prod.splits sum.splits)
qed

lemmas foreign_rules = foreign.obeys_andthen foreign.obeys_from_sum foreign.obeys_ret foreign.obeys_throw
  foreign.obeys_need foreign.obeys_when_ok foreign.obeys_map_err foreign.obeys_call foreign.obeys_let
  foreign.obeys_prod foreign.obeys_exec

text \<open>Each \<open>Resources\<close> RPC is \<open>authenticate\<close>, then a part that spares everybody else's rows.\<close>

lemma list_owned_foreign: "obeys (others_same owner) (list_owned X a ty ow l off del)"
  unfolding list_owned_def
  by (intro foreign_rules; simp add: reads query_def sql_err_def foreign.R_refl)

lemma resources_request_shape:
  assumes "is_resources_request q"
  shows "\<exists>rest. serve_grpc X tp md q = andthen (authenticate X md) rest
    \<and> (\<forall>u. obeys (others_same (u_id u)) (rest u))"
proof -
  have assoc: "run (andthen m f) = andthen m (\<lambda>a. run (f a))" for m and f :: "user \<Rightarrow> 'a rpc"
    by (rule ext) (auto simp: run_def andthen_def split: prod.splits sum.splits)
  note defs = create_resource_def read_resource_def update_resource_def delete_resource_def
    list_resources_def stream_changes_def
  show ?thesis
    using assms
    apply (cases q; simp add: is_resources_request_def defs assoc split del: if_split)
         apply (simp_all only: run_def)
         apply (rule exI, rule conjI [OF refl], rule allI,
        (intro foreign_rules list_owned_foreign; simp add: reads others_same_writes foreign.R_refl))+
    done
qed

text \<open>
  C11. The rows of others are out of reach of the \<open>Resources\<close> service: whatever the request and
  whatever fails, either no resource changes, or the caller holds a live session and only rows
  of the account of that session may have changed.
\<close>

theorem resources_rpc_isolation:
  assumes "is_resources_request q" and "serve_grpc X tp md q w = (r, w')"
  shows "resources (w_db w') = resources (w_db w)
    \<or> (\<exists>token s. bearer_token md = Inr token \<and> s \<in> set (sessions (w_db w)) \<and> s_token_hash s = hash_token X token
         \<and> session_live (w_db w) (pg_now X (w_tick w)) s
         \<and> others (s_user_id s) (w_db w') = others (s_user_id s) (w_db w))"
proof -
  obtain rest where q: "serve_grpc X tp md q = andthen (authenticate X md) rest"
    and rest: "obeys (others_same (u_id u)) (rest u)" for u
    using resources_request_shape [OF assms(1)] by metis
  from assms(2) have "andthen (authenticate X md) rest w = (r, w')" by (simp only: q)
  then show ?thesis
  proof (cases rule: andthen_cases)
    case (stop e)
    then show ?thesis using authenticate_Inl(2) [OF stop(1)] by simp
  next
    case (go u w1)
    obtain ss where w1: "w_db w1 = (w_db w)\<lparr>sessions := ss\<rparr>" using authenticate_frame [OF go(1)] by blast
    obtain token s where s: "bearer_token md = Inr token" "s \<in> set (sessions (w_db w))"
      "s_token_hash s = hash_token X token" "session_live (w_db w) (pg_now X (w_tick w)) s" "u_id u = s_user_id s"
      using authenticate_Inr [OF go(1)] by metis
    have "others (u_id u) (w_db w') = others (u_id u) (w_db w1)"
      using obeysD [OF rest go(2)] by (simp add: others_same_def)
    then show ?thesis using s w1 by (auto simp: others_def)
  qed
qed

theorem resources_rpc_isolation_witness:
  "resources (w_db (snd (serve_grpc demo_ext False demo_metadata (DeleteResource ''9'')
       (demo_world\<lparr>w_db := demo_resources\<rparr>)))) = resources demo_resources"
proof -
  let ?w = "demo_world\<lparr>w_db := demo_resources\<rparr>"
  obtain r w' where run: "serve_grpc demo_ext False demo_metadata (DeleteResource ''9'') ?w = (r, w')" by fastforce
  have "sessions (w_db ?w) = []" by (simp add: demo_resources_def)
  with resources_rpc_isolation [OF _ run] run show ?thesis by (simp add: is_resources_request_def)
qed

end
