(* ===== verification/Machine_Guarantees.thy ===== *)
theory Machine_Guarantees
imports Account_Bootstrap
begin

text \<open>
  What the signature of a machine covers, and what a registered machine can rely on: its token
  identifies it to the later RPCs.
\<close>

section \<open>The signed bytes\<close>

lemma split_newline:
  "10 \<notin> set as \<Longrightarrow> 10 \<notin> set bs \<Longrightarrow> as @ (10 :: u8) # cs = bs @ 10 # ds \<longleftrightarrow> as = bs \<and> cs = ds"
  by (auto simp: append_eq_append_conv2 append_eq_Cons_conv Cons_eq_append_conv)

lemma newline_as_bytes: "10 \<in> set (as_bytes s) \<longleftrightarrow> CHR 0x0A \<in> set s"
proof -
  have "(10 :: u8) = of_char (CHR 0x0A)" by simp
  then show ?thesis by (simp only: set_as_bytes of_char_u8_eq_iff image_iff) auto
qed

text \<open>
  What a machine's signature covers: among the keys of 32 bytes that \<open>verify_pop\<close> accepts,
  the signed bytes determine key, platform and label as long as the platform has no line break;
  with line breaks, a part of the label can move into the platform, so that one signature is
  good for two registrations.
\<close>

theorem machine_bytes_cover:
  "(\<forall>k k' p p' l l'. length k = 32 \<and> length k' = 32 \<and> CHR 0x0A \<notin> set p \<and> CHR 0x0A \<notin> set p' \<longrightarrow>
      (canonical_machine_bytes k p l = canonical_machine_bytes k' p' l' \<longleftrightarrow> k = k' \<and> p = p' \<and> l = l'))
   \<and> (\<forall>X k a b c sig. verify_pop X k (a @ [CHR 0x0A] @ b) c sig = verify_pop X k a (b @ [CHR 0x0A] @ c) sig)"
proof (intro conjI allI impI, elim conjE)
  fix k k' :: bytes and p p' l l'
  assume k: "length k = 32" "length k' = 32" and p: "CHR 0x0A \<notin> set p" "CHR 0x0A \<notin> set p'"
  have "canonical_machine_bytes k p l = canonical_machine_bytes k' p' l' \<longleftrightarrow>
      k = k' \<and> as_bytes p @ 10 # as_bytes l = as_bytes p' @ 10 # as_bytes l'"
    using k by (simp add: canonical_machine_bytes_def)
  then show "canonical_machine_bytes k p l = canonical_machine_bytes k' p' l' \<longleftrightarrow> k = k' \<and> p = p' \<and> l = l'"
    using p by (simp add: split_newline newline_as_bytes)
next
  fix X k a b c sig
  have "as_bytes [CHR 0x0A] = [10]" by (simp add: as_bytes_def)
  then show "verify_pop X k (a @ [CHR 0x0A] @ b) c sig = verify_pop X k a (b @ [CHR 0x0A] @ c) sig"
    by (simp only: verify_pop_def canonical_machine_bytes_def as_bytes_append append_assoc)
qed

theorem machine_bytes_cover_witness:
  "canonical_machine_bytes (replicate 32 1) ''linux'' ''a'' \<noteq> canonical_machine_bytes (replicate 32 1) ''linux'' ''b''"
proof -
  have "canonical_machine_bytes (replicate 32 1) ''linux'' ''a'' = canonical_machine_bytes (replicate 32 1) ''linux'' ''b''
      \<longleftrightarrow> replicate 32 (1::u8) = replicate 32 1 \<and> ''linux'' = ''linux'' \<and> ''a'' = ''b''"
    by (rule machine_bytes_cover [THEN conjunct1, rule_format]) (simp_all del: replicate.simps)
  then show ?thesis by simp
qed

section \<open>Registration\<close>

lemma register_or_update_Inr:
  "register_or_update new_id now key plat label d = (Inr mid, d') \<Longrightarrow>
     events d' = events d \<and> machine_sessions d' = machine_sessions d
     \<and> (\<exists>m \<in> set (machines d'). m_id m = mid \<and> m_identity_public m = Some key
          \<and> m_platform m = plat \<and> m_label m = label)"
  by (auto simp: register_or_update_def insert_machine_def sql_ok_def sql_err_def set_upd_where
      split: option.splits if_splits prod.splits sum.splits dest!: fetch_filter_SomeD) (auto simp: bex_Un)

lemma machine_session_create_Inr:
  assumes "machine_session_create X now mid ttl w = (Inr (s, token), w')"
  shows "w_db w' = (w_db w)\<lparr>machine_sessions := machine_sessions (w_db w) @ [s]\<rparr>"
    and "ms_machine_id s = mid" and "ms_token_hash s = hash_machine_token X token" and "ms_revoked_at s = None"
  using assms unfolding machine_session_create_def
  by (auto elim!: andthen_eq_InrE exec_eq_InrE simp: insert_machine_session_def sql_ok_def sql_err_def
      split: if_splits)

text \<open>A header that carries the token of a live session identifies its machine.\<close>

lemma authenticate_machine_live:
  assumes "db_ok (w_db v)" and "machine_token md = Some token" and "pg_fault X (w_tick v) = NoFault"
    and "s \<in> set (machine_sessions (w_db v))" and "ms_token_hash s = hash_machine_token X token"
    and "ms_revoked_at s = None" and "pg_now X (w_tick v) < ms_expires_at s"
  shows "fst (authenticate_machine X md v) = Inr (ms_machine_id s)"
proof -
  have "machine_session_find_active X (pg_now X (w_tick v)) token (w_db v) = (Inr (Some s), w_db v)"
    using assms by (intro machine_store.find_complete) (simp_all add: hash_machine_token_eq machine_session_live_def)
  then show ?thesis
    using assms(2,3) by (simp add: authenticate_machine_def andthen_def map_err_def exec_def)
qed

text \<open>The transaction of \<open>register_machine\<close> and what it leaves.\<close>

abbreviation register_machine_tx :: "ext \<Rightarrow> register_machine_request \<Rightarrow> time \<Rightarrow> (uuid \<times> machine_session \<times> string) rpc" where
  "register_machine_tx X req now \<equiv>
       andthen (call (exec X (\<lambda>n. register_or_update (gen_uuid X n) now
          (rmr_machine_identity_public req) (trim (rmr_platform req)) (trim (rmr_label req))))) (\<lambda>machine_id.
       andthen (call (machine_session_create X now machine_id DEFAULT_SESSION_TTL)) (\<lambda>(session, token).
       andthen (call (append X None None ''machine_registered''
          (JObj [(''machine_id'', JStr (uuid_str X machine_id)), (''platform'', JStr (rmr_platform req))]))) (\<lambda>_.
       ret (machine_id, session, token))))"

lemma register_machine_tx_Inl: "register_machine_tx X req t w1 = (Inl e, w2) \<Longrightarrow> status_code e = Internal"
  by (auto elim!: andthen_cases call_cases split: prod.splits)

lemma register_machine_tx_Inr:
  assumes "register_machine_tx X req t w1 = (Inr (mid, s, token), w2)"
  obtains m e where "m \<in> set (machines (w_db w2))" and "m_id m = mid"
    and "m_identity_public m = Some (rmr_machine_identity_public req)"
    and "m_platform m = trim (rmr_platform req)" and "m_label m = trim (rmr_label req)"
    and "machine_sessions (w_db w2) = machine_sessions (w_db w1) @ [s]"
    and "ms_machine_id s = mid" and "ms_token_hash s = hash_machine_token X token" and "ms_revoked_at s = None"
    and "events (w_db w2) = events (w_db w1) @ [e]" and "e_event_type e = ''machine_registered''"
    and "e_actor_user_id e = None"
proof -
  obtain d w3 e where
    1: "register_or_update (gen_uuid X (w_tick w1)) t
        (rmr_machine_identity_public req) (trim (rmr_platform req)) (trim (rmr_label req)) (w_db w1) = (Inr mid, d)"
    and 2: "machine_session_create X t mid DEFAULT_SESSION_TTL (w1\<lparr>w_tick := Suc (w_tick w1), w_db := d\<rparr>) = (Inr (s, token), w3)"
    and 3: "append X None None ''machine_registered''
        (JObj [(''machine_id'', JStr (uuid_str X mid)), (''platform'', JStr (rmr_platform req))]) w3 = (Inr e, w2)"
    using assms by (auto elim!: andthen_eq_InrE exec_eq_InrE simp: call_Inr split: prod.splits)
  note f1 = register_or_update_Inr [OF 1] and f2 = machine_session_create_Inr [OF 2] and f3 = append_Inr [OF 3]
  from f1 obtain m where "m \<in> set (machines d)" "m_id m = mid"
    "m_identity_public m = Some (rmr_machine_identity_public req)"
    "m_platform m = trim (rmr_platform req)" "m_label m = trim (rmr_label req)" by blast
  then show thesis using f1 f2 f3(1-3) by (intro that [of m e]) simp_all
qed

lemma register_machine_cases:
  assumes "register_machine X tp md req w = (r, w')"
  obtains (refused) e where "r = Inl e" and "w_db w' = w_db w"
  | (tx) w1 where "verify_pop X (rmr_machine_identity_public req) (rmr_platform req) (rmr_label req) (rmr_signature req)"
      and "andthen (transact X internal (register_machine_tx X req)) (\<lambda>(mid, session, token).
          ret \<lparr>pms_machine_id = uuid_str X mid, pms_token = token, pms_expires_at = rfc3339 X (ms_expires_at session)\<rparr>) w1 = (r, w')"
      and "w_db w1 = w_db w"
  using assms
  by (auto simp: register_machine_def Let_def limiter_allowed_run andthen_def limiter_record_failure_def
      split: if_splits)


text \<open>Nothing fails on an empty server with a correctly signed request.\<close>

definition demo_machine :: register_machine_request where
  "demo_machine = \<lparr>rmr_machine_identity_public = replicate 32 1, rmr_platform = ''linux'', rmr_label = ''desk'',
     rmr_signature = ed25519_sign demo_ext (replicate 32 1)
       (canonical_machine_bytes (replicate 32 1) ''linux'' ''desk'')\<rparr>"

lemma demo_machine_signed:
  "verify_pop demo_ext (rmr_machine_identity_public demo_machine) (rmr_platform demo_machine) (rmr_label demo_machine)
     (rmr_signature demo_machine)"
  by (simp add: verify_pop_def demo_machine_def del: replicate.simps)

lemma register_machine_tx_runs:
  assumes "no_faults X" and "\<And>c. json_vec X c \<noteq> None"
    and 1: "register_or_update (gen_uuid X (w_tick w)) now (rmr_machine_identity_public req) (trim (rmr_platform req))
      (trim (rmr_label req)) (w_db w) = (Inr mid, d)"
    and 2: "machine_session_create X now mid DEFAULT_SESSION_TTL (w\<lparr>w_tick := Suc (w_tick w), w_db := d\<rparr>)
      = (Inr (s, token), w1)"
    and "events (w_db w1) = []"
  shows "\<exists>w'. register_machine_tx X req now w = (Inr (mid, s, token), w')"
proof -
  obtain e w' where "append X None None ''machine_registered''
      (JObj [(''machine_id'', JStr (uuid_str X mid)), (''platform'', JStr (rmr_platform req))]) w1 = (Inr e, w')"
    using append_runs [OF assms(1,5,2)] by fastforce
  moreover have "call (exec X (\<lambda>n. register_or_update (gen_uuid X n) now (rmr_machine_identity_public req)
      (trim (rmr_platform req)) (trim (rmr_label req)))) w = (Inr mid, w\<lparr>w_tick := Suc (w_tick w), w_db := d\<rparr>)"
    using 1 by (simp add: call_Inr exec_no_fault assms(1))
  ultimately show ?thesis using 2 by (simp add: andthen_Inr call_Inr ret_def)
qed

lemma register_machine_runs:
  assumes "fst (allowed_at X (rate_key md tp) (mono_ms X (w_tick w)) (w_limiter w))"
    and "trim (rmr_platform req) \<noteq> []" and "trim (rmr_label req) \<noteq> []"
    and "verify_pop X (rmr_machine_identity_public req) (rmr_platform req) (rmr_label req) (rmr_signature req)"
    and "transact X internal (register_machine_tx X req) (w\<lparr>w_tick := Suc (w_tick w),
        w_limiter := snd (allowed_at X (rate_key md tp) (mono_ms X (w_tick w)) (w_limiter w))\<rparr>) = (Inr (mid, s, token), w1)"
  shows "register_machine X tp md req w
     = (Inr \<lparr>pms_machine_id = uuid_str X mid, pms_token = token, pms_expires_at = rfc3339 X (ms_expires_at s)\<rparr>, w1)"
  using assms by (simp add: register_machine_def Let_def limiter_allowed_run andthen_Inr ret_def)


end
