(* ===== verification/Replica.thy ===== *)
theory Replica
imports Sync_Interleaving Account_Bootstrap Platform_Service
begin

text \<open>
  The device at the other end of the change feed. It writes every row of a batch over the row it
  holds for the same identifier, and asks again from the largest number it has seen. This theory
  shows what it holds while writers go on, that it ends up with the rows of the server, and that a call
  of \<open>StreamChanges\<close>, messages and 64-bit cursors included, is one such round.
\<close>

section \<open>What a device holds\<close>

definition replica :: "resource list \<Rightarrow> uuid \<Rightarrow> resource option" where
  "replica seen = fold (\<lambda>r m. m(r_id r := Some r)) seen (\<lambda>_. None)"

text \<open>What it should hold: the rows of its feed in the server's table, tombstones included.\<close>

definition current :: "uuid \<Rightarrow> string option \<Rightarrow> uuid \<Rightarrow> database \<Rightarrow> uuid \<Rightarrow> resource option" where
  "current app_id type owner d i = fetch_optional (filter (\<lambda>r. r_id r = i \<and> in_feed app_id type owner r) (resources d))"

text \<open>One call of \<open>StreamChanges\<close> and the application of its batch.\<close>

definition poll :: "uuid \<Rightarrow> string option \<Rightarrow> uuid \<Rightarrow> int \<Rightarrow> sync_state \<Rightarrow> sync_state" where
  "poll app_id type owner limit s =
     (case fst (list_changes app_id type owner (sy_cursor s) limit (sy_db s)) of
        Inl _ \<Rightarrow> s
      | Inr rows \<Rightarrow> s\<lparr>sy_cursor := advance (sy_cursor s) rows, sy_seen := sy_seen s @ rows\<rparr>)"

lemma replica_snoc: "replica (seen @ [r]) = (replica seen)(r_id r := Some r)"
  by (simp add: replica_def)

lemma replica_newest:
  assumes "sorted_wrt (<) (map r_change_seq seen)"
  shows "replica seen i = Some q \<longleftrightarrow>
    q \<in> set seen \<and> r_id q = i \<and> (\<forall>x \<in> set seen. r_id x = i \<longrightarrow> r_change_seq x \<le> r_change_seq q)"
  using assms
proof (induction seen rule: rev_induct)
  case Nil
  show ?case by (simp add: replica_def)
next
  case (snoc r seen)
  have "\<forall>x \<in> set seen. r_change_seq x < r_change_seq r" and "sorted_wrt (<) (map r_change_seq seen)"
    using snoc.prems by (auto simp: sorted_wrt_append)
  then show ?case using snoc.IH by (cases "r_id r = i") (force simp: replica_snoc)+
qed

lemma current_iff:
  assumes "keyed r_id (resources d)"
  shows "current app_id type owner d i = Some r \<longleftrightarrow>
    r \<in> set (resources d) \<and> r_id r = i \<and> in_feed app_id type owner r"
proof
  assume "r \<in> set (resources d) \<and> r_id r = i \<and> in_feed app_id type owner r"
  then show "current app_id type owner d i = Some r"
    unfolding current_def by (intro fetch_keyed [OF assms]) auto
qed (auto simp: current_def dest: fetch_filter_SomeD)

section \<open>The invariant\<close>

text \<open>A device holds versions of existing rows, in the order in which they were numbered.\<close>

definition mirror_inv :: "uuid \<Rightarrow> string option \<Rightarrow> uuid \<Rightarrow> int \<Rightarrow> sync_state \<Rightarrow> bool" where
  "mirror_inv app_id type owner start s \<longleftrightarrow>
     distinct (map r_id (sy_pending s))
     \<and> (\<forall>p \<in> set (sy_pending s). \<forall>r \<in> set (resources (sy_db s)).
          r_id p = r_id r \<longrightarrow> (in_feed app_id type owner p \<longleftrightarrow> in_feed app_id type owner r))
     \<and> (\<forall>r \<in> set (resources (sy_db s)). in_feed app_id type owner r \<longrightarrow> start < r_change_seq r)
     \<and> (\<forall>q \<in> set (sy_seen s). r_change_seq q \<le> sy_cursor s
          \<and> (\<exists>r \<in> set (resources (sy_db s)). r_id r = r_id q \<and> in_feed app_id type owner r
               \<and> (r = q \<or> r_change_seq q < r_change_seq r)))
     \<and> sorted_wrt (<) (map r_change_seq (sy_seen s))"

lemma mirror_invD:
  assumes "mirror_inv app_id type owner start s"
  shows "distinct (map r_id (sy_pending s))"
    and "p \<in> set (sy_pending s) \<Longrightarrow> r \<in> set (resources (sy_db s)) \<Longrightarrow> r_id p = r_id r \<Longrightarrow>
      in_feed app_id type owner p \<longleftrightarrow> in_feed app_id type owner r"
    and "r \<in> set (resources (sy_db s)) \<Longrightarrow> in_feed app_id type owner r \<Longrightarrow> start < r_change_seq r"
    and "q \<in> set (sy_seen s) \<Longrightarrow> r_change_seq q \<le> sy_cursor s"
    and "q \<in> set (sy_seen s) \<Longrightarrow> \<exists>r \<in> set (resources (sy_db s)). r_id r = r_id q \<and> in_feed app_id type owner r
      \<and> (r = q \<or> r_change_seq q < r_change_seq r)"
    and "sorted_wrt (<) (map r_change_seq (sy_seen s))"
  using assms by (simp_all add: mirror_inv_def)

lemma mirror_inv_draw:
  assumes "mirror_inv app_id type owner start s" and "r_id q \<notin> r_id ` set (sy_pending s)"
    and "\<And>r. r \<in> set (resources (sy_db s)) \<Longrightarrow> r_id q = r_id r \<Longrightarrow>
      in_feed app_id type owner q \<longleftrightarrow> in_feed app_id type owner r"
  shows "mirror_inv app_id type owner start (s\<lparr>sy_db := draw_seq (sy_db s), sy_pending := sy_pending s @ [q]\<rparr>)"
  using assms by (simp add: mirror_inv_def draw_seq_def)

lemma mirror_inv_version:
  assumes "sync_inv app_id type owner start s" and "mirror_inv app_id type owner start s"
    and r: "r \<in> set (resources (sy_db s))" "r_id r \<notin> r_id ` set (sy_pending s)"
    and q: "r_id q = r_id r" "in_feed app_id type owner q \<longleftrightarrow> in_feed app_id type owner r"
  shows "mirror_inv app_id type owner start (s\<lparr>sy_db := draw_seq (sy_db s), sy_pending := sy_pending s @ [q]\<rparr>)"
proof (rule mirror_inv_draw [OF assms(2)])
  show "r_id q \<notin> r_id ` set (sy_pending s)" unfolding q(1) by (rule r(2))
  fix r' assume r': "r' \<in> set (resources (sy_db s))" "r_id q = r_id r'"
  then have "r' = r" using keyed_eqD [OF sync_invD(7) [OF assms(1)] _ r(1)] q(1) by metis
  with q(2) show "in_feed app_id type owner q \<longleftrightarrow> in_feed app_id type owner r'" by simp
qed

text \<open>A row replaced in the table is replaced by a newer one of the same feed.\<close>

lemma mirror_inv_commit:
  assumes sync: "sync_inv app_id type owner start s" and inv: "mirror_inv app_id type owner start s"
    and p: "sy_pending s = q # qs"
  shows "mirror_inv app_id type owner start (s\<lparr>sy_db := snd (commit_row q (sy_db s)), sy_pending := qs\<rparr>)"
proof -
  let ?rs = "resources (sy_db s)"
  note facts = mirror_invD [OF inv]
  have q: "start < r_change_seq q" "r \<in> set ?rs \<Longrightarrow> r_change_seq r < r_change_seq q"
    "r \<in> set ?rs \<Longrightarrow> r_id q = r_id r \<Longrightarrow> in_feed app_id type owner q \<longleftrightarrow> in_feed app_id type owner r" for r
    using sync_invD(1,3,6) [OF sync] facts(2) p by fastforce+
  have others: "distinct (map r_id qs)" "x \<in> set qs \<Longrightarrow> r_id x \<noteq> r_id q" for x
    using facts(1) p by (auto simp: image_iff)
  have frame: "mirror_inv app_id type owner start (s\<lparr>sy_db := (sy_db s)\<lparr>resources := rs\<rparr>, sy_pending := qs\<rparr>)"
    if "set rs \<subseteq> insert q (set ?rs)" and "\<And>r. r \<in> set ?rs \<Longrightarrow> r \<in> set rs \<or> q \<in> set rs \<and> r_id r = r_id q" for rs
  proof -
    have "\<exists>r \<in> set rs. r_id r = r_id x \<and> in_feed app_id type owner r \<and> (r = x \<or> r_change_seq x < r_change_seq r)"
      if x: "x \<in> set (sy_seen s)" for x
    proof -
      obtain r where r: "r \<in> set ?rs" "r_id r = r_id x" "in_feed app_id type owner r" "r = x \<or> r_change_seq x < r_change_seq r"
        using facts(5) [OF x] by blast
      from \<open>\<And>r. r \<in> set ?rs \<Longrightarrow> r \<in> set rs \<or> q \<in> set rs \<and> r_id r = r_id q\<close> [OF r(1)] show ?thesis
        using r q(2,3) [OF r(1)] by force
    qed
    moreover have "in_feed app_id type owner x \<longleftrightarrow> in_feed app_id type owner r"
      if "x \<in> set qs" "r \<in> set rs" "r_id x = r_id r" for x r
      using facts(2) [of x r] others(2) p that \<open>set rs \<subseteq> insert q (set ?rs)\<close> by fastforce
    moreover have "start < r_change_seq r" if "r \<in> set rs" "in_feed app_id type owner r" for r
      using facts(3) [of r] q(1) that \<open>set rs \<subseteq> insert q (set ?rs)\<close> by auto
    ultimately show ?thesis
      using others(1) facts(4,6) by (simp add: mirror_inv_def)
  qed
  show ?thesis
  proof (cases rule: commit_row_cases [of q "sy_db s"])
    case refused
    then show ?thesis using frame [of ?rs] by auto
  next
    case replaced
    then show ?thesis using frame [of "upd_where (\<lambda>r. r_id r = r_id q) (\<lambda>_. q) ?rs"] by (auto simp: set_upd_where)
  next
    case added
    then show ?thesis using frame [of "?rs @ [q]"] by auto
  qed
qed

lemma list_changes_take:
  assumes "fst (list_changes app_id type owner cursor limit d) = Inr rows"
  shows "rows = take (nat limit) (feed app_id type owner cursor d)"
  using assms by (auto simp: list_changes_def query_def feed_def sql_err_def split: if_splits)

lemma mirror_inv_sync:
  assumes sync: "sync_inv app_id type owner start s" and inv: "mirror_inv app_id type owner start s"
    and run: "fst (list_changes app_id type owner (sy_cursor s) limit (sy_db s)) = Inr rows"
  shows "mirror_inv app_id type owner start
    (s\<lparr>sy_cursor := advance (sy_cursor s) rows, sy_seen := sy_seen s @ rows\<rparr>)"
proof -
  note rows = list_changes_rows [OF run]
  have "sorted_wrt (<) (map r_change_seq rows)"
    unfolding list_changes_take [OF run] using feed_ordered [OF sync_invD(8) [OF sync]] by (metis sorted_wrt_take take_map)
  moreover have "r_change_seq q < r_change_seq r" if "q \<in> set (sy_seen s)" "r \<in> set rows" for q r
    using mirror_invD(4) [OF inv that(1)] rows(3) [OF that(2)] by simp
  moreover have "r_change_seq q \<le> advance (sy_cursor s) rows" if "q \<in> set (sy_seen s) \<union> set rows" for q
    using mirror_invD(4) [OF inv, of q] advance_bounds(1,2) [where cursor = "sy_cursor s" and rows = rows] that by fastforce
  ultimately show ?thesis
    using inv rows by (auto simp: mirror_inv_def sorted_wrt_append)
qed

lemma mirror_inv_step:
  assumes "sync_step True app_id type owner limit s s'"
    and sync: "sync_inv app_id type owner start s" and inv: "mirror_inv app_id type owner start s"
  shows "mirror_inv app_id type owner start s'"
  using assms(1)
proof (cases rule: sync_step.cases)
  case (insert new_id d q now new)
  then have "r_id q = new_id" by (simp add: inserted_row_def)
  then have "mirror_inv app_id type owner start (s\<lparr>sy_db := draw_seq (sy_db s), sy_pending := sy_pending s @ [q]\<rparr>)"
    using insert(2) by (intro mirror_inv_draw [OF inv]) auto
  with insert show ?thesis by simp
next
  case (update r res_id user d q now blob sig version parent)
  have "r_id q = r_id r" "in_feed app_id type owner q \<longleftrightarrow> in_feed app_id type owner r"
    using update(6) by (cases type; simp add: updated_row_def in_feed_def)+
  from mirror_inv_version [OF sync inv update(2,4) this] show ?thesis using update by simp
next
  case (delete r res_id user d q now)
  have "r_id q = r_id r" "in_feed app_id type owner q \<longleftrightarrow> in_feed app_id type owner r"
    using delete(6) by (cases type; simp add: deleted_row_def in_feed_def)+
  from mirror_inv_version [OF sync inv delete(2,4) this] show ?thesis using delete by simp
next
  case (commit ps q qs d)
  then show ?thesis using mirror_inv_commit [OF sync inv] by simp
next
  case (sync rows)
  then show ?thesis using mirror_inv_sync [OF assms(2) inv] by simp
qed

lemma mirror_reachable:
  assumes "(sync_step True app_id type owner limit)\<^sup>*\<^sup>* (sync_start d start) s"
    and "db_ok d" and "start \<le> resource_change_seq d"
    and "\<forall>r \<in> set (resources d). in_feed app_id type owner r \<longrightarrow> start < r_change_seq r"
  shows "sync_inv app_id type owner start s \<and> mirror_inv app_id type owner start s"
  using assms(1)
proof (induction rule: rtranclp_induct)
  case base
  show ?case
    using sync_inv_reachable [OF rtranclp.rtrancl_refl assms(2,3)] assms(4)
    by (simp add: mirror_inv_def) (simp add: sync_start_def)
next
  case (step s s')
  then show ?case using sync_inv_step mirror_inv_step by blast
qed

section \<open>Catching up\<close>

text \<open>A device with nothing left to fetch holds its feed, the rows as they are and no others.\<close>

lemma replica_exact:
  assumes sync: "sync_inv app_id type owner start s" and inv: "mirror_inv app_id type owner start s"
    and "feed app_id type owner (sy_cursor s) (sy_db s) = []"
  shows "replica (sy_seen s) = current app_id type owner (sy_db s)"
proof -
  let ?rs = "resources (sy_db s)"
  note k = sync_invD(7) [OF sync]
  have seen: "r \<in> set (sy_seen s)" if r: "r \<in> set ?rs" "in_feed app_id type owner r" for r
  proof -
    have "r \<notin> set (feed app_id type owner (sy_cursor s) (sy_db s))" using assms(3) by simp
    then have "r_change_seq r \<le> sy_cursor s" using r by (simp add: feed_def)
    with r mirror_invD(3) [OF inv r] sync show ?thesis by (simp add: sync_inv_def)
  qed
  have "replica (sy_seen s) i = Some q \<longleftrightarrow> current app_id type owner (sy_db s) i = Some q" for i q
  proof
    assume "replica (sy_seen s) i = Some q"
    then have q: "q \<in> set (sy_seen s)" "r_id q = i"
      "\<And>x. x \<in> set (sy_seen s) \<Longrightarrow> r_id x = i \<Longrightarrow> r_change_seq x \<le> r_change_seq q"
      using replica_newest [OF mirror_invD(6) [OF inv]] by blast+
    then obtain r where r: "r \<in> set ?rs" "r_id r = i" "in_feed app_id type owner r" "r = q \<or> r_change_seq q < r_change_seq r"
      using mirror_invD(5) [OF inv q(1)] by auto
    with q(3) [OF seen [OF r(1,3)]] have "r = q" by auto
    with r show "current app_id type owner (sy_db s) i = Some q" by (simp add: current_iff [OF k])
  next
    assume "current app_id type owner (sy_db s) i = Some q"
    then have q: "q \<in> set ?rs" "r_id q = i" "in_feed app_id type owner q" by (simp_all add: current_iff [OF k])
    have "r_change_seq x \<le> r_change_seq q" if x: "x \<in> set (sy_seen s)" "r_id x = i" for x
    proof -
      obtain r where r: "r \<in> set ?rs" "r_id r = r_id x" "r = x \<or> r_change_seq x < r_change_seq r"
        using mirror_invD(5) [OF inv x(1)] by blast
      with keyed_eqD [OF k r(1) q(1)] q(2) x(2) show ?thesis by auto
    qed
    then show "replica (sy_seen s) i = Some q"
      using replica_newest [OF mirror_invD(6) [OF inv]] seen [OF q(1,3)] q(2) by blast
  qed
  then show ?thesis by (intro ext) (metis option.exhaust)
qed

lemma advance_last:
  assumes "rows \<noteq> []" and "sorted_wrt (<) (map r_change_seq rows)" and "\<forall>r \<in> set rows. cursor < r_change_seq r"
  shows "advance cursor rows = r_change_seq (last rows)"
proof -
  have top: "\<forall>r \<in> set rows. r_change_seq r \<le> r_change_seq (last rows)"
    using assms(1,2) by (cases rows rule: rev_cases) (auto simp: sorted_wrt_append less_imp_le)
  have last: "cursor < r_change_seq (last rows)" "r_change_seq (last rows) \<le> advance cursor rows"
    using assms(1,3) advance_bounds(2) [of rows cursor] by simp_all
  then have "advance cursor rows \<noteq> cursor" by simp
  then obtain r where "r \<in> set rows" "advance cursor rows = r_change_seq r"
    using advance_bounds(3) [of cursor rows] by blast
  with top last(2) show ?thesis by fastforce
qed

lemma filter_after_take:
  fixes key :: "'r \<Rightarrow> 'k::linorder"
  assumes "sorted_wrt (<) (map key xs)" and "take n xs \<noteq> []"
  shows "filter (\<lambda>r. key (last (take n xs)) < key r) xs = drop n xs"
proof -
  obtain ys b where t: "take n xs = ys @ [b]" using assms(2) rev_exhaust [of "take n xs"] by blast
  obtain zs where zs: "drop n xs = zs" by blast
  with t have xs: "xs = ys @ b # zs" using append_take_drop_id [of n xs] by simp
  have "filter (\<lambda>r. key b < key r) xs = zs"
    using filter_beyond [of key ys b zs] assms(1) unfolding xs by blast
  then show ?thesis by (simp add: t zs)
qed

text \<open>A poll takes the next rows of the feed.\<close>

lemma poll_feed:
  assumes "keyed r_change_seq (resources (sy_db s))" and "0 < limit"
  shows "sy_db (poll app_id type owner limit s) = sy_db s"
    and "feed app_id type owner (sy_cursor (poll app_id type owner limit s)) (sy_db s)
      = drop (nat limit) (feed app_id type owner (sy_cursor s) (sy_db s))"
    and "sync_step fifo app_id type owner limit s (poll app_id type owner limit s)"
proof -
  let ?f = "feed app_id type owner (sy_cursor s) (sy_db s)"
  let ?rows = "take (nat limit) ?f"
  have run: "fst (list_changes app_id type owner (sy_cursor s) limit (sy_db s)) = Inr ?rows"
    using assms(2) by (simp add: list_changes_def query_def feed_def)
  then have poll: "poll app_id type owner limit s
      = s\<lparr>sy_cursor := advance (sy_cursor s) ?rows, sy_seen := sy_seen s @ ?rows\<rparr>"
    by (simp add: poll_def)
  then show "sy_db (poll app_id type owner limit s) = sy_db s" by simp
  show "sync_step fifo app_id type owner limit s (poll app_id type owner limit s)"
    unfolding poll by (rule sync_step.sync [OF run])
  note strict = feed_ordered [OF assms(1), of app_id type owner "sy_cursor s"]
  show "feed app_id type owner (sy_cursor (poll app_id type owner limit s)) (sy_db s) = drop (nat limit) ?f"
  proof (cases "?rows = []")
    case True
    then have "?f = []" using assms(2) by simp
    then show ?thesis by (simp add: poll advance_def)
  next
    case False
    have "sorted_wrt (<) (map r_change_seq ?rows)" using strict by (metis sorted_wrt_take take_map)
    moreover have beyond: "\<forall>r \<in> set ?rows. sy_cursor s < r_change_seq r" by (auto simp: feed_def dest: in_set_takeD)
    ultimately have c: "advance (sy_cursor s) ?rows = r_change_seq (last ?rows)" using advance_last False by blast
    then have "sy_cursor s \<le> r_change_seq (last ?rows)" using beyond last_in_set [OF False] by fastforce
    moreover have "sy_cursor (poll app_id type owner limit s) = r_change_seq (last ?rows)" by (simp add: poll c)
    ultimately show ?thesis
      using feed_beyond [of "sy_cursor s" "r_change_seq (last ?rows)"] filter_after_take [OF strict False] by simp
  qed
qed

text \<open>Enough polls leave nothing to fetch.\<close>

lemma polls:
  assumes "(sync_step True app_id type owner limit)\<^sup>*\<^sup>* s0 s" and "0 < limit"
    and "\<And>s. (sync_step True app_id type owner limit)\<^sup>*\<^sup>* s0 s \<Longrightarrow> keyed r_change_seq (resources (sy_db s))"
    and "((poll app_id type owner limit) ^^ k) s = s'"
  shows "sy_db s' = sy_db s \<and> (sync_step True app_id type owner limit)\<^sup>*\<^sup>* s0 s'
    \<and> feed app_id type owner (sy_cursor s') (sy_db s) = drop (k * nat limit) (feed app_id type owner (sy_cursor s) (sy_db s))"
  using assms(4)
proof (induction k arbitrary: s')
  case 0
  then show ?case using assms(1) by simp
next
  case (Suc k)
  let ?t = "((poll app_id type owner limit) ^^ k) s"
  have t: "sy_db ?t = sy_db s" "(sync_step True app_id type owner limit)\<^sup>*\<^sup>* s0 ?t"
    "feed app_id type owner (sy_cursor ?t) (sy_db s) = drop (k * nat limit) (feed app_id type owner (sy_cursor s) (sy_db s))"
    using Suc.IH by blast+
  have s': "s' = poll app_id type owner limit ?t" using Suc.prems by simp
  note next_poll = poll_feed [OF assms(3) [OF t(2)] assms(2)]
  show ?case
    using next_poll(1,2) t rtranclp.rtrancl_into_rtrancl [OF t(2) next_poll(3)]
    by (simp add: s' add.commute)
qed

text \<open>
  C19. A device that follows the change feed converges to the server. Its feed may be any app and type
  of one owner, from a cursor below every row of it. Whatever the writers did in the meantime,
  while commits come in the order of the drawn numbers: what the device holds is never foreign and never made up, but the row
  of the server or an older version of it; and as soon as the writers pause, the polls needed to
  fetch the rows that remain bring it to hold every row of its feed as it is in the table, deleted ones as
  tombstones, and no other.
\<close>

theorem replica_converges:
  assumes "db_ok d" and "start \<le> resource_change_seq d"
    and "\<forall>r \<in> set (resources d). in_feed app_id type owner r \<longrightarrow> start < r_change_seq r"
    and "(sync_step True app_id type owner limit)\<^sup>*\<^sup>* (sync_start d start) s" and "0 < limit"
  shows "(\<forall>i q. replica (sy_seen s) i = Some q \<longrightarrow> (\<exists>r. current app_id type owner (sy_db s) i = Some r
        \<and> (r = q \<or> r_change_seq q < r_change_seq r)))
    \<and> (\<forall>k. length (feed app_id type owner (sy_cursor s) (sy_db s)) \<le> k * nat limit \<longrightarrow>
        replica (sy_seen (((poll app_id type owner limit) ^^ k) s)) = current app_id type owner (sy_db s))"
proof (intro conjI allI impI)
  note inv = mirror_reachable [OF _ assms(1-3)]
  fix i q assume "replica (sy_seen s) i = Some q"
  then have q: "q \<in> set (sy_seen s)" "r_id q = i"
    using replica_newest [OF mirror_invD(6) [OF conjunct2 [OF inv [OF assms(4)]]]] by blast+
  with mirror_invD(5) [OF conjunct2 [OF inv [OF assms(4)]] q(1)]
  show "\<exists>r. current app_id type owner (sy_db s) i = Some r \<and> (r = q \<or> r_change_seq q < r_change_seq r)"
    by (auto simp: current_iff [OF sync_invD(7) [OF conjunct1 [OF inv [OF assms(4)]]]])
next
  note inv = mirror_reachable [OF _ assms(1-3)]
  fix k assume k: "length (feed app_id type owner (sy_cursor s) (sy_db s)) \<le> k * nat limit"
  let ?s = "((poll app_id type owner limit) ^^ k) s"
  have "sy_db ?s = sy_db s" "(sync_step True app_id type owner limit)\<^sup>*\<^sup>* (sync_start d start) ?s"
    "feed app_id type owner (sy_cursor ?s) (sy_db s) = []"
    using polls [OF assms(4,5) sync_invD(8) [OF conjunct1 [OF inv]] refl, where k = k] k by simp_all
  then show "replica (sy_seen ?s) = current app_id type owner (sy_db s)"
    using replica_exact inv by metis
qed

theorem replica_converges_witness:
  "replica (sy_seen (poll 5 None 7 10 (sync_start demo_resources 0))) 9 = Some demo_resource"
proof -
  let ?s = "sync_start demo_resources 0"
  have "feed 5 None 7 (sy_cursor ?s) (sy_db ?s) = [demo_resource]"
    by (simp add: feed_def order_asc_def sync_start_def demo_resources_def demo_resource_def in_feed_def)
  then have few: "length (feed 5 None 7 (sy_cursor ?s) (sy_db ?s)) \<le> 1 * nat 10" by simp
  have "(0::int) \<le> resource_change_seq demo_resources"
    "\<forall>r \<in> set (resources demo_resources). in_feed 5 None 7 r \<longrightarrow> 0 < r_change_seq r"
    by (simp_all add: demo_resources_def demo_resource_def)
  from replica_converges [OF demo_resources_ok this rtranclp.rtrancl_refl, THEN conjunct2, of 10] few
  have "replica (sy_seen (((poll 5 None 7 10) ^^ 1) ?s)) = current 5 None 7 (sy_db ?s)" by (simp del: One_nat_def)
  moreover have "current 5 None 7 (sy_db ?s) 9 = Some demo_resource"
    by (simp add: current_def sync_start_def demo_resources_def demo_resource_def in_feed_def)
  ultimately show ?thesis by simp
qed

section \<open>The call on the wire\<close>

text \<open>
  What the device computes from the messages of a \<open>StreamChanges\<close> answer. The column is a \<open>bigint\<close> fed from a
  sequence that starts at 1, so the numbers survive the 64-bit words of the protocol.
\<close>

definition wire_advance :: "u64 \<Rightarrow> wire_resource list \<Rightarrow> u64" where
  "wire_advance cursor items = fold (\<lambda>r c. max (wr_change_seq r) c) items cursor"

abbreviation bigint_range :: "resource \<Rightarrow> bool" where
  "bigint_range r \<equiv> 0 \<le> r_change_seq r \<and> r_change_seq r \<le> 2 ^ 63 - 1"

lemma uint_wire_seq:
  assumes "bigint_range r"
  shows "uint (wr_change_seq (to_proto X r)) = r_change_seq r"
proof -
  have "take_bit 64 (r_change_seq r) = r_change_seq r" using assms by (intro take_bit_int_eq_self) simp_all
  then show ?thesis using assms by (simp add: to_proto_def unsigned_of_int)
qed

lemma wire_advance_reads:
  assumes "\<forall>r \<in> set rows. bigint_range r" and "uint c \<le> 2 ^ 63 - 1"
  shows "i64_or_max (wire_advance c (map (to_proto X) rows)) = advance (i64_or_max c) rows"
  using assms
proof (induction rows arbitrary: c)
  case (Cons r rows)
  let ?c = "max (wr_change_seq (to_proto X r)) c"
  have c: "uint ?c = max (r_change_seq r) (uint c)"
    using uint_wire_seq [of r X] Cons.prems(1) by (simp add: max_def word_le_def)
  then have "uint ?c \<le> 2 ^ 63 - 1" using Cons.prems by simp
  with Cons have "i64_or_max (wire_advance ?c (map (to_proto X) rows)) = advance (i64_or_max ?c) rows" by simp
  moreover have "i64_or_max ?c = max (r_change_seq r) (i64_or_max c)"
    using c Cons.prems by (simp add: i64_or_max_def)
  ultimately show ?case by (simp add: wire_advance_def advance_def)
qed (simp add: wire_advance_def advance_def)

text \<open>
  A successful call is a poll of the caller's feed, with a limit that is never zero: the messages are the
  rows the poll adds, and the cursor read off them is the one the poll leaves.
\<close>

theorem stream_changes_polls:
  assumes "stream_changes X md req w = (Inr items, w')"
    and "\<forall>r \<in> set (resources (w_db w)). bigint_range r" and "uint (scr_since_cursor req) \<le> 2 ^ 63 - 1"
    and "sy_db s = w_db w" and "sy_cursor s = i64_or_max (scr_since_cursor req)"
  shows "\<exists>u app_id type rows. fst (authenticate X md w) = Inr u \<and> parse_uuid X (scr_app_id req) ''app_id'' = Inr app_id
    \<and> type = (if trim (scr_resource_type req) = [] then None else Some (scr_resource_type req))
    \<and> 0 < clamp_changes_limit (scr_limit req) \<and> items = map (to_proto X) rows
    \<and> sy_seen (poll app_id type (u_id u) (clamp_changes_limit (scr_limit req)) s) = sy_seen s @ rows
    \<and> sy_cursor (poll app_id type (u_id u) (clamp_changes_limit (scr_limit req)) s)
        = i64_or_max (wire_advance (scr_since_cursor req) items)"
proof -
  let ?type = "if trim (scr_resource_type req) = [] then None else Some (scr_resource_type req)"
  let ?since = "i64_or_max (scr_since_cursor req)" and ?limit = "clamp_changes_limit (scr_limit req)"
  obtain u w1 app_id w2 rows w3 where auth: "authenticate X md w = (Inr u, w1)"
    and app: "parse_uuid X (scr_app_id req) ''app_id'' = Inr app_id"
    and run: "exec X (\<lambda>_. list_changes app_id ?type (u_id u) ?since ?limit) w1 = (Inr rows, w3)"
    and items: "items = map (to_proto X) rows"
    using assms(1) unfolding stream_changes_def Let_def
    by (auto elim!: andthen_eq_InrE simp: call_Inr from_sum_def split: sum.splits)
  obtain ss where w1: "w_db w1 = (w_db w)\<lparr>sessions := ss\<rparr>" using authenticate_frame [OF auth] by blast
  have "fst (list_changes app_id ?type (u_id u) ?since ?limit (w_db w1)) = Inr rows"
    using run by (auto elim!: exec_eq_InrE)
  then have rows: "fst (list_changes app_id ?type (u_id u) ?since ?limit (w_db w)) = Inr rows"
    by (simp add: w1 list_changes_def query_def sql_err_def split: if_splits)
  then have poll: "poll app_id ?type (u_id u) ?limit s
      = s\<lparr>sy_cursor := advance ?since rows, sy_seen := sy_seen s @ rows\<rparr>"
    by (simp add: poll_def assms(4,5))
  have "advance ?since rows = i64_or_max (wire_advance (scr_since_cursor req) items)"
    unfolding items using list_changes_rows(1) [OF rows] assms(2,3) by (intro wire_advance_reads [symmetric]) blast+
  then show ?thesis
    using auth app items poll clamp_changes_limit_bounds [of "scr_limit req"]
    by (intro exI [of _ u] exI [of _ app_id] exI [of _ ?type] exI [of _ rows]) simp
qed

end
