(* ===== verification/Bootstrap_Race.thy ===== *)
theory Bootstrap_Race
imports Account_Bootstrap
begin

text \<open>
  Concurrent \<open>Bootstrap\<close> requests. The handler counts the accounts before it opens its
  transaction, so it is two steps: the gate and the commit. Requests are run one step at a time
  in any order.
\<close>

section \<open>The handler as gate and commit\<close>

record passed =
  p_email :: string
  p_display_name :: string
  p_phc :: string
  p_key_material :: proto_key_material
  p_device :: device_enrollment

definition bootstrap_gate :: "ext \<Rightarrow> bool \<Rightarrow> metadata \<Rightarrow> bootstrap_request \<Rightarrow> passed rpc" where
  "bootstrap_gate X trust_proxy md req =
     (let client_key = rate_key md trust_proxy in
     andthen (limiter_allowed X client_key) (\<lambda>ok.
     andthen (when_ok ok too_many_attempts) (\<lambda>_.
     let email = trim (br_email req); display_name = trim (br_display_name req) in
     andthen (when_ok (email \<noteq> [] \<and> display_name \<noteq> [] \<and> br_password req \<noteq> [])
        (Status InvalidArgument ''email, display_name, and password are required'')) (\<lambda>_.
     andthen (need (br_key_material req) (Status InvalidArgument ''key_material is required'')) (\<lambda>km.
     andthen (need (br_device req) (Status InvalidArgument ''device is required'')) (\<lambda>dev.
     andthen (from_sum (validate_device dev)) (\<lambda>_.
     andthen (call (exec X (\<lambda>_. user_count))) (\<lambda>count.
     if 0 < count
     then andthen (limiter_record_failure X client_key) (\<lambda>_.
            throw (Status FailedPrecondition ''an account already exists''))
     else
     andthen (call (hash_password X (br_password req))) (\<lambda>phc.
     ret \<lparr>p_email = email, p_display_name = display_name, p_phc = phc, p_key_material = km, p_device = dev\<rparr>)))))))))"

definition bootstrap_commit :: "ext \<Rightarrow> passed \<Rightarrow> proto_session rpc" where
  "bootstrap_commit X p =
     andthen (transact X internal (bootstrap_tx X (p_email p) (p_display_name p) (p_phc p) (p_key_material p) (p_device p)))
       (\<lambda>(user, session, token).
     ret \<lparr>ps_token = token, ps_user_id = uuid_str X (u_id user), ps_expires_at = rfc3339 X (s_expires_at session)\<rparr>)"

lemma andthen_assoc: "andthen (andthen m f) g = andthen m (\<lambda>a. andthen (f a) g)"
  by (rule ext) (simp add: andthen_def split: prod.splits sum.splits)

lemma andthen_throw: "andthen (throw e) f = throw e"
  by (rule ext) (simp add: andthen_def throw_def)

lemma andthen_ret: "andthen (ret a) f = f a"
  by (rule ext) (simp add: andthen_def ret_def)

text \<open>Run back to back the two steps are the handler.\<close>

lemma bootstrap_split: "bootstrap X tp md req = andthen (bootstrap_gate X tp md req) (bootstrap_commit X)"
proof -
  have branch: "andthen (if b then m else n) f = (if b then andthen m f else andthen n f)"
    for b and m n :: "passed rpc" and f :: "passed \<Rightarrow> proto_session rpc" by simp
  show ?thesis
    unfolding bootstrap_def bootstrap_gate_def bootstrap_commit_def Let_def
    by (simp only: andthen_assoc branch andthen_throw andthen_ret passed.simps)
qed

section \<open>Interleaved requests\<close>

datatype phase = Waiting metadata bootstrap_request | Passed passed | Answered "status + proto_session"

record boot_state =
  bs_world :: world
  bs_requests :: "phase list"

inductive boot_step :: "ext \<Rightarrow> bool \<Rightarrow> boot_state \<Rightarrow> boot_state \<Rightarrow> bool" for X trust_proxy where
  gate: "i < length (bs_requests s) \<Longrightarrow> bs_requests s ! i = Waiting md req \<Longrightarrow>
     bootstrap_gate X trust_proxy md req (bs_world s) = (r, w) \<Longrightarrow>
     boot_step X trust_proxy s \<lparr>bs_world = w, bs_requests = (bs_requests s)[i :=
       (case r of Inl e \<Rightarrow> Answered (Inl e) | Inr p \<Rightarrow> Passed p)]\<rparr>"
| commit: "i < length (bs_requests s) \<Longrightarrow> bs_requests s ! i = Passed p \<Longrightarrow>
     bootstrap_commit X p (bs_world s) = (r, w) \<Longrightarrow>
     boot_step X trust_proxy s \<lparr>bs_world = w, bs_requests = (bs_requests s)[i := Answered r]\<rparr>"

text \<open>Whatever the order, every step keeps the constraints and the log.\<close>

context rpc_storage
begin

lemma boot_steps_R:
  assumes "(boot_step X tp)\<^sup>*\<^sup>* s s'"
  shows "R (w_db (bs_world s)) (w_db (bs_world s'))"
  using assms
proof (induction rule: rtranclp_induct)
  case (step t t')
  have gate: "obeys R (bootstrap_gate X tp md req)" and commit: "obeys R (bootstrap_commit X p)" for md req p
    unfolding bootstrap_gate_def bootstrap_commit_def
    by (intro account_rules account_helpers_R; simp add: statements_R)+
  from step.hyps(2) have "R (w_db (bs_world t)) (w_db (bs_world t'))"
    by (cases rule: boot_step.cases) (simp_all add: obeysD [OF gate] obeysD [OF commit])
  with step.IH show ?case by (rule R_trans)
qed (rule R_refl)

end

section \<open>A commit that succeeds\<close>

lemma append_ticks:
  assumes "no_faults X" and "append X a app ty data w = (Inr e, w')"
  shows "w_tick w' = w_tick w + 5"
  using assms unfolding append_def Let_def
  by (auto elim!: andthen_eq_InrE exec_eq_InrE simp: map_err_eq_Inr split: option.splits)

lemma enroll_device_runs:
  assumes X: "no_faults X" and "u_id u \<in> user_ids (w_db w)"
    and fresh: "gen_uuid X (w_tick w) \<notin> machine_ids (w_db w)" "gen_uuid X (w_tick w + 1) \<notin> d_id ` set (devices (w_db w))"
  shows "\<exists>p m v. enroll_device X now u dev w = (Inr p, w\<lparr>w_tick := w_tick w + 2,
        w_db := (w_db w)\<lparr>machines := machines (w_db w) @ [m], devices := devices (w_db w) @ [v]\<rparr>\<rparr>)
     \<and> m_id m = gen_uuid X (w_tick w) \<and> d_id v = gen_uuid X (w_tick w + 1)"
proof -
  let ?d = "w_db w" and ?label = "if trim (de_machine_label dev) = [] then de_device_label dev else de_machine_label dev"
  obtain m where m: "machine_create (gen_uuid X (w_tick w)) now ?label (de_platform dev) (Some (u_id u)) ?d
      = (Inr m, ?d\<lparr>machines := machines ?d @ [m]\<rparr>)" "m_id m = gen_uuid X (w_tick w)"
    using assms(2) fresh(1) by (auto simp: machine_create_def insert_machine_def sql_ok_def)
  moreover obtain v where "device_register (gen_uuid X (w_tick w + 1)) now \<lparr>nd_user_id = u_id u, nd_machine_id = Some (m_id m),
       nd_device_label = de_device_label dev, nd_platform = de_platform dev,
       nd_device_public_key = de_device_public_key dev\<rparr> (?d\<lparr>machines := machines ?d @ [m]\<rparr>)
      = (Inr v, ?d\<lparr>machines := machines ?d @ [m], devices := devices ?d @ [v]\<rparr>)" "d_id v = gen_uuid X (w_tick w + 1)"
    using assms(2) fresh(2) by (auto simp: device_register_def insert_device_def machine_ids_def user_ids_def sql_ok_def)
  ultimately show ?thesis
    by (simp add: enroll_device_def Let_def andthen_Inr call_Inr exec_no_fault X eval_nat_numeral) blast
qed

lemma bootstrap_tx_runs:
  fixes w :: world and X :: ext
  defines "t \<equiv> w_tick w" and "d \<equiv> w_db w"
  assumes X: "no_faults X" "\<And>c. json_vec X c \<noteq> None" and ok: "db_ok d" "log_ok X d"
    and fresh: "gen_uuid X t \<notin> user_ids d" "gen_uuid X (t + 3) \<notin> machine_ids d"
      "gen_uuid X (t + 4) \<notin> d_id ` set (devices d)" "gen_uuid X (t + 12) \<notin> s_id ` set (sessions d)"
      "lower email \<notin> email_lower ` set (users d)"
      "hash_token X (generate_token X (t + 10)) \<notin> s_token_hash ` set (sessions d)"
  shows "\<exists>u s token w'. bootstrap_tx X email name phc km dev now w = (Inr (u, s, token), w')
    \<and> w_tick w' = t + 13 \<and> users (w_db w') = users d @ [u] \<and> sessions (w_db w') = sessions d @ [s]
    \<and> u_email u = email \<and> u_instance_role u = Owner \<and> u_lifecycle u = Active \<and> s_token_hash s = hash_token X token
    \<and> u_id u = gen_uuid X t \<and> s_id s = gen_uuid X (t + 12) \<and> token = generate_token X (t + 10)
    \<and> machine_ids (w_db w') = insert (gen_uuid X (t + 3)) (machine_ids d)
    \<and> d_id ` set (devices (w_db w')) = insert (gen_uuid X (t + 4)) (d_id ` set (devices d))"
proof -
  let ?u = "\<lparr>u_id = gen_uuid X t, u_email = email, u_display_name = name, u_lifecycle = Active, u_instance_role = Owner,
      u_kind = KindMember, u_locale = None, u_created_at = now, u_updated_at = now\<rparr>"
  let ?c = "\<lparr>c_user_id = u_id ?u, c_password_hash = phc, c_created_at = now, c_updated_at = now\<rparr>"
  let ?k = "\<lparr>uk_user_id = u_id ?u, uk_material = to_key_material km\<rparr>"
  let ?d1 = "d\<lparr>users := users d @ [?u]\<rparr>"
  let ?d2 = "?d1\<lparr>credentials := credentials d @ [?c]\<rparr>"
  let ?d3 = "?d2\<lparr>user_keys := user_keys d @ [?k]\<rparr>"
  let ?w = "\<lambda>n d. w\<lparr>w_tick := n, w_db := d\<rparr>"
  have row: "u_id ?u \<notin> c_user_id ` set (credentials d)" "u_id ?u \<notin> uk_user_id ` set (user_keys d)"
    using fresh(1) db_okD [OF ok(1)] by (auto simp: refs_def)
  have 1: "call (exec X (\<lambda>n. user_create (gen_uuid X n) now email name Owner Active)) w = (Inr ?u, ?w (t + 1) ?d1)"
    using fresh(1,5) by (simp add: call_Inr exec_no_fault X t_def d_def user_create_def insert_user_def sql_ok_def
        email_lower_def)
  have 2: "call (exec X (\<lambda>_. create_credentials now (u_id ?u) phc)) (?w (t + 1) ?d1) = (Inr (), ?w (t + 2) ?d2)"
    using row by (simp add: call_Inr exec_no_fault X create_credentials_def user_ids_def sql_ok_def)
  have 3: "call (exec X (\<lambda>_. user_key_create (u_id ?u) (to_key_material km))) (?w (t + 2) ?d2)
      = (Inr (), ?w (t + 3) ?d3)"
    using row by (simp add: call_Inr exec_no_fault X user_key_create_def user_ids_def sql_ok_def)
  obtain p m v where 4: "enroll_device X now ?u dev (?w (t + 3) ?d3)
      = (Inr p, ?w (t + 5) (?d3\<lparr>machines := machines d @ [m], devices := devices d @ [v]\<rparr>))"
    and ids: "m_id m = gen_uuid X (t + 3)" "d_id v = gen_uuid X (t + 4)"
    using enroll_device_runs [OF X(1), of ?u "?w (t + 3) ?d3" now dev] fresh(2,3)
    by (auto simp: user_ids_def machine_ids_def eval_nat_numeral)
  let ?d5 = "?d3\<lparr>machines := machines d @ [m], devices := devices d @ [v]\<rparr>"
  let ?event = "JObj [(''device_id'', JStr (pd_device_id p)), (''email'', JStr (u_email ?u))]"
  have seqno: "events_seqno_seq d + 1 \<notin> e_seqno ` set (events d)"
    using ok(2) by (fastforce simp: log_ok_def)
  obtain e w6 where 5: "append X (Some (actor_of ?u)) None ''owner_bootstrapped'' ?event (?w (t + 5) ?d5) = (Inr e, w6)"
    using append_no_fault [OF X(1), of "?w (t + 5) ?d5"] seqno X(2) by fastforce
  note w6 = append_Inr(1) [OF 5] append_ticks [OF X(1) 5]
  obtain s w7 where 6: "session_create X now (u_id ?u) DEFAULT_SESSION_TTL None None w6
      = (Inr (s, generate_token X (t + 10)), w7)" and s: "s_id s = gen_uuid X (t + 12)" "w_tick w7 = t + 13"
    "w_db w7 = (w_db w6)\<lparr>sessions := sessions d @ [s]\<rparr>" "s_token_hash s = hash_token X (generate_token X (t + 10))"
    using fresh(4,6) w6 by (simp add: session_create_def andthen_def exec_no_fault X insert_session_def sql_ok_def
        user_ids_def eval_nat_numeral)
  have "bootstrap_tx X email name phc km dev now w = (Inr (?u, s, generate_token X (t + 10)), w7)"
    unfolding bootstrap_tx_def using 5 6
    by (simp only: andthen_Inr 1 2 3 4 call_Inr [THEN iffD2] prod.case ret_def)
  then show ?thesis using s w6 ids by (auto simp: machine_ids_def)
qed

section \<open>Two owners\<close>

lemma bootstrap_gate_runs:
  assumes X: "no_faults X" and w: "users (w_db w) = []"
    and "fst (allowed_at X (rate_key md tp) (mono_ms X (w_tick w)) (w_limiter w))"
    and "trim (br_email req) \<noteq> []" "trim (br_display_name req) \<noteq> []" "br_password req \<noteq> []"
    and "br_key_material req = Some km" "br_device req = Some dev" "validate_device dev = Inr ()"
    and "argon2_hash X (w_tick w + 2) (as_bytes (br_password req)) = Some phc"
  shows "bootstrap_gate X tp md req w = (Inr \<lparr>p_email = trim (br_email req), p_display_name = trim (br_display_name req),
      p_phc = phc, p_key_material = km, p_device = dev\<rparr>,
      w\<lparr>w_tick := w_tick w + 3, w_limiter := snd (allowed_at X (rate_key md tp) (mono_ms X (w_tick w)) (w_limiter w))\<rparr>)"
  using assms no_faults_def [of X]
  by (simp add: bootstrap_gate_def Let_def limiter_allowed_run andthen_def exec_no_fault user_count_def
      query_def hash_password_def call_def map_err_def eval_nat_numeral)

lemma bootstrap_commit_runs:
  assumes X: "no_faults X"
    and "bootstrap_tx X (p_email p) (p_display_name p) (p_phc p) (p_key_material p) (p_device p) (pg_now X (w_tick w))
      (w\<lparr>w_tick := Suc (w_tick w)\<rparr>) = (Inr (u, s, token), w2)"
  shows "\<exists>q. bootstrap_commit X p w = (Inr q, w2\<lparr>w_tick := Suc (w_tick w2)\<rparr>)"
  unfolding bootstrap_commit_def
  using transact_no_fault [where conv = internal and w = w and body = "bootstrap_tx X (p_email p) (p_display_name p) (p_phc p)
      (p_key_material p) (p_device p)", OF X assms(2)]
  by (simp add: andthen_def)

definition eve_bootstrap :: bootstrap_request where
  "eve_bootstrap = demo_bootstrap\<lparr>br_email := ''eve@b.c''\<rparr>"

definition race_start :: boot_state where
  "race_start = \<lparr>bs_world = demo_world,
     bs_requests = [Waiting demo_metadata demo_bootstrap, Waiting demo_metadata eve_bootstrap]\<rparr>"

text \<open>Two requests that have passed the gate of an empty server both commit.\<close>

lemma two_commits:
  fixes X :: ext and p p' :: passed and w :: world
  assumes X: "no_faults X" "\<And>c. json_vec X c \<noteq> None" and w: "w_db w = empty_db" "w_tick w = 6"
    and distinct: "lower (p_email p') \<noteq> lower (p_email p)"
      "gen_uuid X 22 \<noteq> gen_uuid X 7" "gen_uuid X 25 \<noteq> gen_uuid X 10" "gen_uuid X 26 \<noteq> gen_uuid X 11"
      "gen_uuid X 34 \<noteq> gen_uuid X 19"
      "hash_token X (generate_token X 32) \<noteq> hash_token X (generate_token X 17)"
  shows "\<exists>q q' w' w'' u v. bootstrap_commit X p w = (Inr q, w') \<and> bootstrap_commit X p' w' = (Inr q', w'')
    \<and> users (w_db w'') = [u, v] \<and> u_instance_role u = Owner \<and> u_instance_role v = Owner
    \<and> u_lifecycle u = Active \<and> u_lifecycle v = Active"
proof -
  let ?tx = "\<lambda>p. bootstrap_tx X (p_email p) (p_display_name p) (p_phc p) (p_key_material p) (p_device p)"
  let ?w = "w\<lparr>w_tick := 7\<rparr>"
  obtain u s token w3 where 1: "?tx p (pg_now X 6) ?w = (Inr (u, s, token), w3)" and w3: "w_tick w3 = 20"
    and u: "users (w_db w3) = [u]" "sessions (w_db w3) = [s]" "u_email u = p_email p" "u_instance_role u = Owner"
      "u_lifecycle u = Active" "s_token_hash s = hash_token X token"
    and ids: "u_id u = gen_uuid X 7" "s_id s = gen_uuid X 19" "token = generate_token X 17"
      "machine_ids (w_db w3) = {gen_uuid X 10}" "d_id ` set (devices (w_db w3)) = {gen_uuid X 11}"
    using bootstrap_tx_runs [OF X, of ?w "p_email p" "p_display_name p" "p_phc p" "p_key_material p" "p_device p" "pg_now X 6"]
      empty_db_ok empty_log_ok w by (auto simp: user_ids_def machine_ids_def)
  have ok: "db_ok (w_db w3)" "log_ok X (w_db w3)"
    using obeysD [OF keep_rpc.account_helpers_R(3) 1] obeysD [OF log_rpc.account_helpers_R(3) 1] w empty_db_ok empty_log_ok
    by (simp_all add: db_keep_def log_step_def)
  let ?w3 = "w3\<lparr>w_tick := 21\<rparr>"
  obtain v s' token' w4 where 2: "?tx p' (pg_now X 21) (?w3\<lparr>w_tick := 22\<rparr>) = (Inr (v, s', token'), w4)"
    and v: "users (w_db w4) = [u, v]" "u_instance_role v = Owner" "u_lifecycle v = Active"
    using bootstrap_tx_runs [OF X, of "?w3\<lparr>w_tick := 22\<rparr>" "p_email p'" "p_display_name p'" "p_phc p'" "p_key_material p'" "p_device p'" "pg_now X 21"]
      ok u ids distinct by (auto simp: user_ids_def email_lower_def)
  obtain q where "bootstrap_commit X p w = (Inr q, ?w3)"
    using bootstrap_commit_runs [OF X(1), of p w] 1 w w3 by auto
  moreover obtain q' where "bootstrap_commit X p' ?w3 = (Inr q', w4\<lparr>w_tick := Suc (w_tick w4)\<rparr>)"
    using bootstrap_commit_runs [OF X(1), of p' ?w3] 2 by auto
  ultimately show ?thesis using u v by auto
qed

lemma first_commit:
  fixes X :: ext and p :: passed and w :: world
  assumes X: "no_faults X" "\<And>c. json_vec X c \<noteq> None" and w: "w_db w = empty_db"
  shows "\<exists>q w'. bootstrap_commit X p w = (Inr q, w')"
proof -
  obtain u s token w2 where "bootstrap_tx X (p_email p) (p_display_name p) (p_phc p) (p_key_material p) (p_device p)
      (pg_now X (w_tick w)) (w\<lparr>w_tick := Suc (w_tick w)\<rparr>) = (Inr (u, s, token), w2)"
    using bootstrap_tx_runs [OF X, of "w\<lparr>w_tick := Suc (w_tick w)\<rparr>" "p_email p" "p_display_name p" "p_phc p"
        "p_key_material p" "p_device p" "pg_now X (w_tick w)"] empty_db_ok empty_log_ok w
    by (auto simp: user_ids_def machine_ids_def)
  from bootstrap_commit_runs [OF X(1) this] show ?thesis by blast
qed

definition open_limiter :: rate_limiter where
  "open_limiter = snd (allowed_at demo_ext ''10.0.0.1'' 0 (auth_default demo_ext))"

lemma demo_limiter:
  "fst (allowed_at demo_ext (rate_key demo_metadata False) (mono_ms demo_ext n) (auth_default demo_ext))"
  "snd (allowed_at demo_ext (rate_key demo_metadata False) (mono_ms demo_ext n) (auth_default demo_ext)) = open_limiter"
  "fst (allowed_at demo_ext (rate_key demo_metadata False) (mono_ms demo_ext n) open_limiter)"
proof -
  have key: "rate_key demo_metadata False = ''10.0.0.1''" "mono_ms demo_ext n = 0"
    by (simp_all add: rate_key_def demo_metadata_def)
  show "snd (allowed_at demo_ext (rate_key demo_metadata False) (mono_ms demo_ext n) (auth_default demo_ext)) = open_limiter"
    by (simp only: key open_limiter_def)
  show "fst (allowed_at demo_ext (rate_key demo_metadata False) (mono_ms demo_ext n) (auth_default demo_ext))"
    unfolding key by code_simp
  show "fst (allowed_at demo_ext (rate_key demo_metadata False) (mono_ms demo_ext n) open_limiter)"
    unfolding key by code_simp
qed

lemma demo_requests:
  "trim (br_email demo_bootstrap) = ''ada@b.c''" "trim (br_email eve_bootstrap) = ''eve@b.c''"
  "validate_device (the (br_device demo_bootstrap)) = Inr ()"
  by code_simp+

lemma demo_request_fields:
  assumes "req = demo_bootstrap \<or> req = eve_bootstrap"
  shows "trim (br_email req) \<noteq> []" "trim (br_display_name req) \<noteq> []" "br_password req \<noteq> []"
    "br_key_material req = Some (the (br_key_material demo_bootstrap))"
    "br_device req = Some (the (br_device demo_bootstrap))"
    "br_password req = br_password demo_bootstrap"
proof -
  have "trim (br_display_name demo_bootstrap) \<noteq> []" "br_password demo_bootstrap \<noteq> []"
    "\<exists>km. br_key_material demo_bootstrap = Some km" "\<exists>dev. br_device demo_bootstrap = Some dev"
    by code_simp (code_simp, simp_all add: demo_bootstrap_def)
  then show "trim (br_email req) \<noteq> []" "trim (br_display_name req) \<noteq> []" "br_password req \<noteq> []"
    "br_key_material req = Some (the (br_key_material demo_bootstrap))"
    "br_device req = Some (the (br_device demo_bootstrap))" "br_password req = br_password demo_bootstrap"
    using assms demo_requests(1,2) by (auto simp: eve_bootstrap_def)
qed

lemma demo_tokens:
  "hash_token demo_ext (generate_token demo_ext 32) \<noteq> hash_token demo_ext (generate_token demo_ext 17)"
  "lower ''ada@b.c'' \<noteq> lower ''eve@b.c''"
  by code_simp+

lemma demo_gate:
  assumes req: "req = demo_bootstrap \<or> req = eve_bootstrap" and "users (w_db w) = []"
    and "fst (allowed_at demo_ext (rate_key demo_metadata False) (mono_ms demo_ext (w_tick w)) (w_limiter w))"
  shows "bootstrap_gate demo_ext False demo_metadata req w = (Inr \<lparr>p_email = trim (br_email req),
      p_display_name = trim (br_display_name req),
      p_phc = the (argon2_hash demo_ext 0 (as_bytes (br_password demo_bootstrap))),
      p_key_material = the (br_key_material demo_bootstrap), p_device = the (br_device demo_bootstrap)\<rparr>,
      w\<lparr>w_tick := w_tick w + 3,
        w_limiter := snd (allowed_at demo_ext (rate_key demo_metadata False) (mono_ms demo_ext (w_tick w)) (w_limiter w))\<rparr>)"
  by (rule bootstrap_gate_runs [OF demo_ext_documented(7) assms(2,3) demo_request_fields(1-5) [OF req] demo_requests(3)])
    (subst demo_request_fields(6) [OF req], simp)

lemma two_requests_step:
  "bootstrap_gate X tp md req w = (Inr p, w') \<Longrightarrow>
     boot_step X tp \<lparr>bs_world = w, bs_requests = [Waiting md req, b]\<rparr> \<lparr>bs_world = w', bs_requests = [Passed p, b]\<rparr>"
  "bootstrap_gate X tp md req w = (Inr p, w') \<Longrightarrow>
     boot_step X tp \<lparr>bs_world = w, bs_requests = [a, Waiting md req]\<rparr> \<lparr>bs_world = w', bs_requests = [a, Passed p]\<rparr>"
  "bootstrap_commit X p w = (r, w') \<Longrightarrow>
     boot_step X tp \<lparr>bs_world = w, bs_requests = [Passed p, b]\<rparr> \<lparr>bs_world = w', bs_requests = [Answered r, b]\<rparr>"
  "bootstrap_commit X p w = (r, w') \<Longrightarrow>
     boot_step X tp \<lparr>bs_world = w, bs_requests = [a, Passed p]\<rparr> \<lparr>bs_world = w', bs_requests = [a, Answered r]\<rparr>"
  using boot_step.gate [of 0 "\<lparr>bs_world = w, bs_requests = [Waiting md req, b]\<rparr>" md req X tp "Inr p" w']
    boot_step.gate [of 1 "\<lparr>bs_world = w, bs_requests = [a, Waiting md req]\<rparr>" md req X tp "Inr p" w']
    boot_step.commit [of 0 "\<lparr>bs_world = w, bs_requests = [Passed p, b]\<rparr>" p X r w' tp]
    boot_step.commit [of 1 "\<lparr>bs_world = w, bs_requests = [a, Passed p]\<rparr>" p X r w' tp]
  by simp_all

text \<open>Both requests pass the gate before either commits.\<close>

lemma race_reachable:
  "\<exists>s u v p q. (boot_step demo_ext False)\<^sup>*\<^sup>* race_start s \<and> bs_requests s = [Answered (Inr p), Answered (Inr q)]
     \<and> users (w_db (bs_world s)) = [u, v] \<and> u_instance_role u = Owner \<and> u_instance_role v = Owner
     \<and> u_lifecycle u = Active \<and> u_lifecycle v = Active"
proof -
  let ?X = demo_ext and ?step = "boot_step demo_ext False"
  let ?lim = "snd (allowed_at demo_ext (rate_key demo_metadata False) (mono_ms demo_ext 3) open_limiter)"
  let ?phc = "the (argon2_hash demo_ext 0 (as_bytes (br_password demo_bootstrap)))"
  let ?km = "the (br_key_material demo_bootstrap)" and ?dev = "the (br_device demo_bootstrap)"
  let ?pass = "\<lambda>req. \<lparr>p_email = trim (br_email req), p_display_name = trim (br_display_name req), p_phc = ?phc,
      p_key_material = ?km, p_device = ?dev\<rparr>"
  let ?w1 = "demo_world\<lparr>w_tick := 3, w_limiter := open_limiter\<rparr>"
  let ?w2 = "demo_world\<lparr>w_tick := 6, w_limiter := ?lim\<rparr>"
  have X: "no_faults ?X" "\<And>c. json_vec ?X c \<noteq> None" by (simp_all add: demo_ext_documented)
  have g1: "bootstrap_gate ?X False demo_metadata demo_bootstrap demo_world = (Inr (?pass demo_bootstrap), ?w1)"
    using demo_gate [of demo_bootstrap demo_world] demo_limiter(1,2) [of 0] by (simp del: demo_ext_fields)
  have g2: "bootstrap_gate ?X False demo_metadata eve_bootstrap ?w1 = (Inr (?pass eve_bootstrap), ?w2)"
    using demo_gate [of eve_bootstrap ?w1] demo_limiter(3) [of 3] by (simp del: demo_ext_fields)
  have pass: "p_email (?pass eve_bootstrap) = ''eve@b.c''" "p_email (?pass demo_bootstrap) = ''ada@b.c''"
    by (simp_all only: passed.simps demo_requests)
  have uuids: "gen_uuid ?X 22 \<noteq> gen_uuid ?X 7" "gen_uuid ?X 25 \<noteq> gen_uuid ?X 10" "gen_uuid ?X 26 \<noteq> gen_uuid ?X 11"
    "gen_uuid ?X 34 \<noteq> gen_uuid ?X 19" by simp_all
  obtain q q' w3 w4 u v where c: "bootstrap_commit ?X (?pass demo_bootstrap) ?w2 = (Inr q, w3)"
    "bootstrap_commit ?X (?pass eve_bootstrap) w3 = (Inr q', w4)"
    and users: "users (w_db w4) = [u, v]" "u_instance_role u = Owner" "u_instance_role v = Owner"
      "u_lifecycle u = Active" "u_lifecycle v = Active"
    using two_commits [OF X, where p = "?pass demo_bootstrap" and p' = "?pass eve_bootstrap" and w = ?w2]
      uuids demo_tokens unfolding pass by (simp del: demo_ext_fields) blast
  let ?S = "\<lambda>w a b. \<lparr>bs_world = w, bs_requests = [a, b]\<rparr>"
  let ?ada = "Waiting demo_metadata demo_bootstrap" and ?eve = "Waiting demo_metadata eve_bootstrap"
  have "?step race_start (?S ?w1 (Passed (?pass demo_bootstrap)) ?eve)"
    unfolding race_start_def by (rule two_requests_step(1) [OF g1])
  moreover have "?step (?S ?w1 (Passed (?pass demo_bootstrap)) ?eve) (?S ?w2 (Passed (?pass demo_bootstrap)) (Passed (?pass eve_bootstrap)))"
    by (rule two_requests_step(2) [OF g2])
  moreover have "?step (?S ?w2 (Passed (?pass demo_bootstrap)) (Passed (?pass eve_bootstrap))) (?S w3 (Answered (Inr q)) (Passed (?pass eve_bootstrap)))"
    by (rule two_requests_step(3) [OF c(1)])
  moreover have "?step (?S w3 (Answered (Inr q)) (Passed (?pass eve_bootstrap))) (?S w4 (Answered (Inr q)) (Answered (Inr q')))"
    by (rule two_requests_step(4) [OF c(2)])
  ultimately have "?step\<^sup>*\<^sup>* race_start (?S w4 (Answered (Inr q)) (Answered (Inr q')))"
    by (meson rtranclp.rtrancl_refl rtranclp.rtrancl_into_rtrancl)
  then show ?thesis using users by (intro exI [of _ "?S w4 (Answered (Inr q)) (Answered (Inr q'))"] exI [of _ u] exI [of _ v]) simp
qed

text \<open>A request that starts after another one has succeeded is refused at the gate.\<close>

lemma bootstrap_Inr_users:
  assumes "bootstrap X tp md req w = (Inr p, w')"
  shows "users (w_db w') \<noteq> []"
  using assms
proof (cases rule: bootstrap_cases)
  case (tx km dev phc i w1 q w2)
  then obtain u s token where q: "q = Inr (u, s, token)" by (auto split: sum.splits prod.splits)
  obtain w3 where "bootstrap_tx X (trim (br_email req)) (trim (br_display_name req)) phc km dev (pg_now X (w_tick w1))
      (w1\<lparr>w_tick := Suc (w_tick w1)\<rparr>) = (Inr (u, s, token), w3)" and w3: "w_db w2 = w_db w3"
    using tx(5) unfolding q by (auto elim!: transact_eq_InrE)
  from bootstrap_tx_Inr(1) [OF this(1) tx(3,2)] show ?thesis
    using tx(6) w3 by (auto simp: owner_installed_def)
qed simp

lemma bootstrap_later_refused:
  assumes "bootstrap X tp md req w = (r, w')" and "users (w_db w) \<noteq> []"
  shows "(\<exists>e. r = Inl e) \<and> w_db w' = w_db w"
  using assms(1) by (cases rule: bootstrap_cases) (use assms(2) in auto)



end
