(* ===== verification/Discovery.thy ===== *)
theory Discovery
imports Secretbox Audit_Log
begin

text \<open>
  \<open>server::instance\<close> and \<open>server::discovery\<close>: the server identity that native clients pin, its
  storage under the instance secret key, and the signed answer of
  \<open>/.well-known/sylva-discovery\<close>.
\<close>

section \<open>The identity\<close>

record server_identity =
  si_seed :: bytes
  si_public :: bytes

datatype identity_error = IdentityDatabase sql_error | DecryptingIdentity | SeedLength | PublicLength | SealingIdentity

definition stored_identity :: "(bytes option \<times> bytes option) option stmt" where
  "stored_identity = query (\<lambda>d. fetch_optional
     (map (\<lambda>r. (i_identity_public r, i_identity_priv_enc r)) (instance_rows d)))"

definition store_identity :: "bytes \<Rightarrow> bytes \<Rightarrow> unit stmt" where
  "store_identity public priv_enc d = sql_ok () (d\<lparr>instance_rows := map (\<lambda>r. r\<lparr>i_identity_public := Some public,
     i_identity_priv_enc := Some priv_enc\<rparr>) (instance_rows d)\<rparr>)"

definition load_identity :: "ext \<Rightarrow> bytes \<Rightarrow> bytes \<Rightarrow> bytes \<Rightarrow> identity_error + server_identity" where
  "load_identity X secret_key public priv_enc =
     (case open_blob X secret_key priv_enc of
        Inl _ \<Rightarrow> Inl DecryptingIdentity
      | Inr seed \<Rightarrow>
          if length seed \<noteq> 32 then Inl SeedLength
          else if length public \<noteq> 32 then Inl PublicLength
          else Inr \<lparr>si_seed = seed, si_public = public\<rparr>)"

definition generate_identity :: "ext \<Rightarrow> bytes \<Rightarrow> (identity_error, server_identity) action" where
  "generate_identity X secret_key =
     andthen (draw (\<lambda>n. fill_bytes X n 32)) (\<lambda>seed.
     let public = ed25519_public X seed in
     andthen (map_err (\<lambda>_. SealingIdentity) (seal X secret_key seed)) (\<lambda>priv_enc.
     andthen (map_err IdentityDatabase (exec X (\<lambda>_. store_identity public priv_enc))) (\<lambda>_.
     ret \<lparr>si_seed = seed, si_public = public\<rparr>)))"

definition ensure_server_identity :: "ext \<Rightarrow> bytes \<Rightarrow> (identity_error, server_identity) action" where
  "ensure_server_identity X secret_key =
     andthen (map_err IdentityDatabase (exec X (\<lambda>_. stored_identity))) (\<lambda>row.
     case row of
       Some (Some public, Some priv_enc) \<Rightarrow> from_sum (load_identity X secret_key public priv_enc)
     | _ \<Rightarrow> generate_identity X secret_key)"

definition server_name :: "ext \<Rightarrow> string \<Rightarrow> (sql_error, string) action" where
  "server_name X env_instance_name =
     andthen (exec X (\<lambda>_. query (\<lambda>d. fetch_optional (map i_instance_name (instance_rows d))))) (\<lambda>stored.
     ret (case stored of Some (Some name) \<Rightarrow> name | _ \<Rightarrow> env_instance_name))"

section \<open>The signed bytes\<close>

definition PAYLOAD_VERSION :: u32 where "PAYLOAD_VERSION = 1"
definition DISCOVERY_DOMAIN :: string where "DISCOVERY_DOMAIN = ''sylva.discovery.v1''"
definition MAX_NONCE_LEN :: nat where "MAX_NONCE_LEN = 256"

text \<open>\<open>to_be_bytes\<close> of a \<open>u32\<close> and of a \<open>u16\<close>.\<close>

definition u32_to_be_bytes :: "u32 \<Rightarrow> bytes" where
  "u32_to_be_bytes n = [ucast (drop_bit 24 n), ucast (drop_bit 16 n), ucast (drop_bit 8 n), ucast n]"

definition u16_to_be_bytes :: "16 word \<Rightarrow> bytes" where
  "u16_to_be_bytes n = [ucast (drop_bit 8 n), ucast n]"

text \<open>The length is cast to a \<open>u32\<close>, so it wraps.\<close>

definition push_field :: "bytes \<Rightarrow> bytes \<Rightarrow> bytes" where
  "push_field out field = out @ u32_to_be_bytes (of_nat (length field)) @ field"

definition discovery_bytes :: "string \<Rightarrow> bytes \<Rightarrow> 16 word \<Rightarrow> string \<Rightarrow> bytes" where
  "discovery_bytes nonce public grpc_port name =
     (let out = [];
          out = push_field out (as_bytes DISCOVERY_DOMAIN);
          out = push_field out (u32_to_be_bytes PAYLOAD_VERSION);
          out = push_field out (as_bytes nonce);
          out = push_field out public;
          out = push_field out (u16_to_be_bytes grpc_port);
          out = push_field out (as_bytes name)
      in out)"

section \<open>The endpoint\<close>

record discovery_state =
  ds_instance_name :: string
  ds_grpc_port :: "16 word"
  ds_server_identity :: server_identity

record discovery_response =
  dr_name :: string
  dr_grpc_port :: "16 word"
  dr_server_identity_public :: string
  dr_nonce :: string
  dr_signature :: string
  dr_payload_version :: u32

datatype http_status = BAD_REQUEST

definition discovery_handler :: "ext \<Rightarrow> discovery_state \<Rightarrow> string \<Rightarrow> http_status + discovery_response" where
  "discovery_handler X state nonce =
     (if MAX_NONCE_LEN < length nonce then Inl BAD_REQUEST
      else let name = ds_instance_name state; grpc_port = ds_grpc_port state;
               identity = ds_server_identity state;
               payload = discovery_bytes nonce (si_public identity) grpc_port name;
               signature = ed25519_sign X (si_seed identity) payload
           in Inr \<lparr>dr_name = name, dr_grpc_port = grpc_port,
                   dr_server_identity_public = hex_encode (si_public identity), dr_nonce = nonce,
                   dr_signature = hex_encode signature, dr_payload_version = PAYLOAD_VERSION\<rparr>)"

section \<open>Framing\<close>

lemma length_be_bytes [simp]: "length (u32_to_be_bytes n) = 4" "length (u16_to_be_bytes p) = 2"
  by (simp_all add: u32_to_be_bytes_def u16_to_be_bytes_def)

lemma same_byte:
  assumes "ucast (drop_bit k m) = (ucast (drop_bit k n) :: u8)" and "j < 8"
  shows "bit m (k + j) = bit n (k + j)"
  using arg_cong [OF assms(1), of "\<lambda>b. bit b j"] assms(2) by (simp add: bit_ucast_iff bit_drop_bit_eq)

lemma u32_to_be_bytes_inj [simp]: "u32_to_be_bytes m = u32_to_be_bytes n \<longleftrightarrow> m = n"
proof
  assume "u32_to_be_bytes m = u32_to_be_bytes n"
  then have eq: "ucast (drop_bit 24 m) = (ucast (drop_bit 24 n) :: u8)" "ucast (drop_bit 16 m) = (ucast (drop_bit 16 n) :: u8)"
    "ucast (drop_bit 8 m) = (ucast (drop_bit 8 n) :: u8)" "ucast (drop_bit 0 m) = (ucast (drop_bit 0 n) :: u8)"
    by (simp_all add: u32_to_be_bytes_def)
  show "m = n"
  proof (rule bit_eqI)
    fix i assume "possible_bit TYPE(32 word) i"
    then have "i < 32" by simp
    then consider "i < 8" | "8 \<le> i" "i < 16" | "16 \<le> i" "i < 24" | "24 \<le> i" "i < 32" by linarith
    then show "bit m i = bit n i"
      using same_byte [OF eq(1), of "i - 24"] same_byte [OF eq(2), of "i - 16"] same_byte [OF eq(3), of "i - 8"]
        same_byte [OF eq(4), of i] by cases simp_all
  qed
qed simp

lemma u16_to_be_bytes_inj [simp]: "u16_to_be_bytes m = u16_to_be_bytes n \<longleftrightarrow> m = n"
proof
  assume "u16_to_be_bytes m = u16_to_be_bytes n"
  then have eq: "ucast (drop_bit 8 m) = (ucast (drop_bit 8 n) :: u8)" "ucast (drop_bit 0 m) = (ucast (drop_bit 0 n) :: u8)"
    by (simp_all add: u16_to_be_bytes_def)
  show "m = n"
  proof (rule bit_eqI)
    fix i assume "possible_bit TYPE(16 word) i"
    then have "i < 16" by simp
    then consider "i < 8" | "8 \<le> i" "i < 16" by linarith
    then show "bit m i = bit n i"
      using same_byte [OF eq(1), of "i - 8"] same_byte [OF eq(2), of i] by cases simp_all
  qed
qed simp

text \<open>A length-prefixed field can be read off the front of whatever follows.\<close>

lemma push_field_cancel:
  assumes "length a < 2 ^ 32" and "length b < 2 ^ 32"
  shows "push_field [] a @ xs = push_field [] b @ ys \<longleftrightarrow> a = b \<and> xs = ys"
proof -
  have "(of_nat (length a) :: u32) = of_nat (length b) \<longleftrightarrow> length a = length b"
    using assms by (simp add: word_of_nat_eq_iff take_bit_nat_eq_self)
  then show ?thesis by (auto simp: push_field_def append_eq_append_conv)
qed

lemma push_field_append: "push_field out field = out @ push_field [] field"
  by (simp add: push_field_def)

lemma discovery_bytes_eq:
  "discovery_bytes nonce public port name = push_field [] (as_bytes DISCOVERY_DOMAIN)
     @ push_field [] (u32_to_be_bytes PAYLOAD_VERSION) @ push_field [] (as_bytes nonce) @ push_field [] public
     @ push_field [] (u16_to_be_bytes port) @ push_field [] (as_bytes name)"
  unfolding discovery_bytes_def Let_def
  by (simp only: push_field_append [of "push_field _ _"] push_field_append [of "_ @ _"] append_assoc append_Nil)

text \<open>
  C35. The bytes behind a discovery signature determine what was signed: for fields shorter than
  four gigabytes, equal bytes mean the same nonce, the same identity key, the same gRPC port and
  the same name, so a signature is good for one answer only.
\<close>

theorem discovery_bytes_unambiguous:
  assumes "length nonce < 2 ^ 32" and "length nonce' < 2 ^ 32" and "length public = 32" and "length public' = 32"
    and "length name < 2 ^ 32" and "length name' < 2 ^ 32"
  shows "discovery_bytes nonce public port name = discovery_bytes nonce' public' port' name'
    \<longleftrightarrow> nonce = nonce' \<and> public = public' \<and> port = port' \<and> name = name'"
proof -
  have last: "push_field [] a = push_field [] b \<longleftrightarrow> a = b" if "length a < 2 ^ 32" "length b < 2 ^ 32" for a b
    using push_field_cancel [OF that, of "[]" "[]"] by simp
  show ?thesis
    using assms by (auto simp: discovery_bytes_eq push_field_cancel last)
qed

theorem discovery_bytes_unambiguous_witness:
  "discovery_bytes ''n'' (replicate 32 1) 50051 ''Server'' \<noteq> discovery_bytes ''n'' (replicate 32 1) 50051 ''Server1''"
  using discovery_bytes_unambiguous [of "''n''" "''n''" "replicate 32 1" "replicate 32 1" "''Server''" "''Server1''" 50051 50051]
  by simp

section \<open>The pinned identity\<close>

lemma generate_identity_Inr:
  assumes "generate_identity X key w = (Inr ident, w')"
  shows "si_public ident = ed25519_public X (si_seed ident)" and "length (si_seed ident) = 32"
    and "\<exists>i ct. aead_encrypt X key (fill_bytes X i NONCE_LEN) (si_seed ident) = Some ct
      \<and> instance_rows (w_db w') = map (\<lambda>r. r\<lparr>i_identity_public := Some (si_public ident),
          i_identity_priv_enc := Some (fill_bytes X i NONCE_LEN @ ct)\<rparr>) (instance_rows (w_db w))"
  using assms unfolding generate_identity_def Let_def
  by (auto elim!: andthen_eq_InrE exec_eq_InrE simp: map_err_eq_Inr seal_run store_identity_def sql_ok_def draw_run
      split: option.splits) blast

lemma stored_identity_answer:
  assumes "ensure_server_identity X key w = (r, w')" and "instance_rows (w_db w) = [row]"
    and "i_identity_public row = Some public" and "i_identity_priv_enc row = Some blob"
  shows "w_db w' = w_db w" and "r = Inr ident \<Longrightarrow> load_identity X key public blob = Inr ident"
  using assms
  by (auto simp: ensure_server_identity_def andthen_def map_err_def exec_query_run stored_identity_def
      split: fault.splits sum.splits if_splits)

lemma missing_identity_answer:
  assumes X: "aead_sound X" "ed25519_sound X"
    and run: "ensure_server_identity X key w = (r, w')" and row: "instance_rows (w_db w) = [row]"
    and missing: "i_identity_public row = None \<or> i_identity_priv_enc row = None"
  obtains (kept) e where "w_db w' = w_db w" and "r = Inl e"
  | (generated) seed blob where "instance_rows (w_db w') = [row\<lparr>i_identity_public := Some (ed25519_public X seed),
        i_identity_priv_enc := Some blob\<rparr>]"
      and "load_identity X key (ed25519_public X seed) blob = Inr \<lparr>si_seed = seed, si_public = ed25519_public X seed\<rparr>"
      and "\<And>ident. r = Inr ident \<Longrightarrow> ident = \<lparr>si_seed = seed, si_public = ed25519_public X seed\<rparr>"
proof -
  have sealed: "load_identity X key (ed25519_public X seed) (fill_bytes X i NONCE_LEN @ ct)
      = Inr \<lparr>si_seed = seed, si_public = ed25519_public X seed\<rparr>"
    if "aead_encrypt X key (fill_bytes X i NONCE_LEN) seed = Some ct" "length seed = 32" for i ct seed
    using that X by (auto simp: load_identity_def open_blob_def NONCE_LEN_def aead_sound_def ed25519_sound_def)
  show thesis
    using run row missing kept generated [OF _ sealed]
    by (auto simp: ensure_server_identity_def generate_identity_def stored_identity_def store_identity_def sql_ok_def
        exec_query_run Let_def seal_run exec_def elim!: andthen_cases map_err_cases
        split: option.splits fault.splits if_splits)
qed

lemma stored_identity_kept:
  assumes "instance_rows (w_db v) = [row]" and "i_identity_public row = Some public" and "i_identity_priv_enc row = Some blob"
  shows "w_db (snd (ensure_server_identity X key v)) = w_db v"
    and "pg_fault X (w_tick v) = NoFault \<Longrightarrow> ensure_server_identity X key v
      = (load_identity X key public blob, v\<lparr>w_tick := Suc (w_tick v)\<rparr>)"
  using assms
  by (simp_all add: ensure_server_identity_def andthen_def map_err_def exec_query_run stored_identity_def
      split: fault.splits sum.splits)

text \<open>
  The identity clients pin survives restarts: once a first start has generated it, every later
  start with the same secret key and the same row comes up with the same key pair; a start never
  replaces a stored identity, whatever key it is given and whatever fails. Every answer of the
  discovery endpoint to a nonce of at most 256 bytes carries this public key and a signature
  that verifies under it over the nonce, the key, the port and the name; longer nonces are
  refused.
\<close>

theorem identity_survives_restart:
  assumes "aead_sound X" and "ed25519_sound X"
    and "instance_rows (w_db w) = [row]" and "i_identity_public row = None \<or> i_identity_priv_enc row = None"
    and "ensure_server_identity X key w = (Inr ident, w1)"
    and "instance_rows (w_db v) = instance_rows (w_db w1)"
  shows "(pg_fault X (w_tick v) = NoFault \<longrightarrow> fst (ensure_server_identity X key v) = Inr ident)
    \<and> (\<forall>Y k. w_db (snd (ensure_server_identity Y k v)) = w_db v)
    \<and> (\<forall>nonce name port. length nonce \<le> 256 \<longrightarrow> (\<exists>resp sig.
         discovery_handler X \<lparr>ds_instance_name = name, ds_grpc_port = port, ds_server_identity = ident\<rparr> nonce = Inr resp
         \<and> dr_nonce resp = nonce \<and> dr_name resp = name \<and> dr_grpc_port resp = port
         \<and> dr_server_identity_public resp = hex_encode (si_public ident) \<and> dr_signature resp = hex_encode sig
         \<and> ed25519_verify X (si_public ident) (discovery_bytes nonce (si_public ident) port name) sig))
    \<and> (\<forall>nonce st. 256 < length nonce \<longrightarrow> discovery_handler X st nonce = Inl BAD_REQUEST)"
proof -
  have g: "generate_identity X key (w\<lparr>w_tick := Suc (w_tick w)\<rparr>) = (Inr ident, w1)"
    using assms(3-5)
    by (auto simp: ensure_server_identity_def stored_identity_def exec_query_run map_err_eq_Inr
        elim!: andthen_eq_InrE split: option.splits if_splits fault.splits)
  note id = generate_identity_Inr [OF g]
  obtain i ct where sealed: "aead_encrypt X key (fill_bytes X i NONCE_LEN) (si_seed ident) = Some ct"
    and rows: "instance_rows (w_db w1) = [row\<lparr>i_identity_public := Some (si_public ident),
      i_identity_priv_enc := Some (fill_bytes X i NONCE_LEN @ ct)\<rparr>]"
    using id(3) assms(3) by auto
  let ?blob = "fill_bytes X i NONCE_LEN @ ct"
  have "open_blob X key ?blob = Inr (si_seed ident)"
    using sealed assms(1) by (auto simp: open_blob_def NONCE_LEN_def aead_sound_def)
  then have load: "load_identity X key (si_public ident) ?blob = Inr ident"
    using id(1,2) assms(2) by (simp add: load_identity_def ed25519_sound_def)
  have v: "instance_rows (w_db v) = [row\<lparr>i_identity_public := Some (si_public ident), i_identity_priv_enc := Some ?blob\<rparr>]"
    using assms(6) rows by simp
  note kept = stored_identity_kept [OF v]
  have "ed25519_verify X (si_public ident) m (ed25519_sign X (si_seed ident) m)" for m
    using assms(2) id(1) by (simp add: ed25519_sound_def)
  then show ?thesis
    using kept load by (auto simp: discovery_handler_def MAX_NONCE_LEN_def Let_def)
qed

theorem identity_survives_restart_witness:
  "\<exists>ident w1. ensure_server_identity demo_ext [1] demo_world = (Inr ident, w1)
     \<and> fst (ensure_server_identity demo_ext [1] (w1\<lparr>w_tick := 900\<rparr>)) = Inr ident"
proof -
  obtain ident w1 where run: "ensure_server_identity demo_ext [1] demo_world = (Inr ident, w1)"
    by (simp add: ensure_server_identity_def stored_identity_def exec_query_run map_err_def andthen_def empty_db_def
        generate_identity_def Let_def seal_run exec_no_fault demo_ext_documented store_identity_def sql_ok_def draw_run
        del: fill_bytes_def)
  have "instance_rows (w_db demo_world) = [\<lparr>i_instance_name = None, i_identity_public = None, i_identity_priv_enc = None\<rparr>]"
    by (simp add: empty_db_def)
  from identity_survives_restart [OF demo_ext_documented(4,5) this _ run, of "w1\<lparr>w_tick := 900\<rparr>"] run
  show ?thesis by simp
qed

end
