(* ===== verification/Server_Config.thy ===== *)
theory Server_Config
imports Text_Codec
begin

text \<open>
  \<open>server::config\<close>: the configuration read from the environment, and the instance secret key.
  The parser of PostgreSQL URLs is a parameter; the parsers of the standard library are modelled.
\<close>

section \<open>Socket addresses\<close>

text \<open>
  \<open>SocketAddr::from_str\<close> of the standard library: readers take a prefix of the text or fail.
  Addresses are kept as their groups.
\<close>

type_synonym 'a reader = "string \<Rightarrow> ('a \<times> string) option"

datatype socket_addr = SocketV4 "nat list" nat | SocketV6 "nat list" nat nat

definition sa_port :: "socket_addr \<Rightarrow> nat" where
  "sa_port a = (case a of SocketV4 _ p \<Rightarrow> p | SocketV6 _ _ p \<Rightarrow> p)"

definition to_digit :: "nat \<Rightarrow> char \<Rightarrow> nat option" where
  "to_digit radix c =
     (let n = of_char c :: nat;
          v = (if 48 \<le> n \<and> n \<le> 57 then n - 48 else if 97 \<le> n \<and> n \<le> 122 then n - 87
               else if 65 \<le> n \<and> n \<le> 90 then n - 55 else 36)
      in if v < radix then Some v else None)"

fun read_digits :: "nat \<Rightarrow> string \<Rightarrow> nat list \<times> string" where
  "read_digits radix [] = ([], [])"
| "read_digits radix (c # cs) =
     (case to_digit radix c of None \<Rightarrow> ([], c # cs)
      | Some d \<Rightarrow> (let (ds, rest) = read_digits radix cs in (d # ds, rest)))"

definition digits_value :: "nat \<Rightarrow> nat list \<Rightarrow> nat" where
  "digits_value radix ds = foldl (\<lambda>n d. radix * n + d) 0 ds"

definition read_number :: "nat \<Rightarrow> nat option \<Rightarrow> bool \<Rightarrow> nat \<Rightarrow> nat reader" where
  "read_number radix max_digits allow_zero_prefix bound s =
     (let (ds, rest) = read_digits radix s in
      if ds = [] \<or> (case max_digits of None \<Rightarrow> False | Some m \<Rightarrow> m < length ds)
         \<or> \<not> allow_zero_prefix \<and> hd ds = 0 \<and> 1 < length ds \<or> bound \<le> digits_value radix ds
      then None else Some (digits_value radix ds, rest))"

definition read_given_char :: "char \<Rightarrow> unit reader" where
  "read_given_char c s = (case s of [] \<Rightarrow> None | d # rest \<Rightarrow> if d = c then Some ((), rest) else None)"

definition after :: "unit reader \<Rightarrow> 'a reader \<Rightarrow> 'a reader" where
  "after r q s = (case r s of None \<Rightarrow> None | Some (_, rest) \<Rightarrow> q rest)"

definition read_separator :: "char \<Rightarrow> nat \<Rightarrow> 'a reader \<Rightarrow> 'a reader" where
  "read_separator sep i inner = (if 0 < i then after (read_given_char sep) inner else inner)"

fun read_ipv4_groups :: "nat \<Rightarrow> nat \<Rightarrow> nat list reader" where
  "read_ipv4_groups i 0 s = Some ([], s)"
| "read_ipv4_groups i (Suc k) s =
     (case read_separator CHR ''.'' i (read_number 10 (Some 3) False 256) s of
        None \<Rightarrow> None
      | Some (g, rest) \<Rightarrow> (case read_ipv4_groups (Suc i) k rest of
            None \<Rightarrow> None | Some (gs, rest') \<Rightarrow> Some (g # gs, rest')))"

definition read_ipv4_addr :: "nat list reader" where
  "read_ipv4_addr = read_ipv4_groups 0 4"

text \<open>Up to \<open>k\<close> more groups of 16 bits, the last two possibly as an IPv4 address.\<close>

fun read_groups :: "nat \<Rightarrow> nat \<Rightarrow> string \<Rightarrow> nat list \<times> bool \<times> string" where
  "read_groups i 0 s = ([], False, s)"
| "read_groups i (Suc k) s =
     (case (if 0 < k then read_separator CHR '':'' i read_ipv4_addr s else None) of
        Some (v4, rest) \<Rightarrow> ([256 * v4 ! 0 + v4 ! 1, 256 * v4 ! 2 + v4 ! 3], True, rest)
      | None \<Rightarrow>
          (case read_separator CHR '':'' i (read_number 16 (Some 4) True 65536) s of
             None \<Rightarrow> ([], False, s)
           | Some (g, rest) \<Rightarrow> (let (gs, v4, rest') = read_groups (Suc i) k rest in (g # gs, v4, rest'))))"

definition read_ipv6_addr :: "nat list reader" where
  "read_ipv6_addr s =
     (let (head, head_ipv4, rest) = read_groups 0 8 s in
      if length head = 8 then Some (head, rest)
      else if head_ipv4 then None
      else case after (read_given_char CHR '':'') (read_given_char CHR '':'') rest of
             None \<Rightarrow> None
           | Some (_, rest') \<Rightarrow>
               (let (tail, _, rest'') = read_groups 0 (8 - (length head + 1)) rest'
                in Some (head @ replicate (8 - length head - length tail) 0 @ tail, rest'')))"

definition read_port :: "nat reader" where
  "read_port = after (read_given_char CHR '':'') (read_number 10 None True 65536)"

definition read_scope_id :: "string \<Rightarrow> nat \<times> string" where
  "read_scope_id s =
     (case after (read_given_char CHR ''%'') (read_number 10 None True (2 ^ 32)) s of
        None \<Rightarrow> (0, s) | Some (n, rest) \<Rightarrow> (n, rest))"

definition read_socket_addr_v4 :: "socket_addr reader" where
  "read_socket_addr_v4 s =
     (case read_ipv4_addr s of None \<Rightarrow> None
      | Some (ip, rest) \<Rightarrow> (case read_port rest of None \<Rightarrow> None
          | Some (port, rest') \<Rightarrow> Some (SocketV4 ip port, rest')))"

definition read_socket_addr_v6 :: "socket_addr reader" where
  "read_socket_addr_v6 s =
     (case after (read_given_char CHR ''['') read_ipv6_addr s of None \<Rightarrow> None
      | Some (ip, rest) \<Rightarrow>
          (let (scope, rest') = read_scope_id rest in
           case after (read_given_char CHR '']'') read_port rest' of None \<Rightarrow> None
           | Some (port, rest'') \<Rightarrow> Some (SocketV6 ip scope port, rest'')))"

definition parse_socket_addr :: "string \<Rightarrow> socket_addr option" where
  "parse_socket_addr s =
     (case (case read_socket_addr_v4 s of Some r \<Rightarrow> Some r | None \<Rightarrow> read_socket_addr_v6 s) of
        Some (a, []) \<Rightarrow> Some a | _ \<Rightarrow> None)"

text \<open>\<open>str::parse::<u16>\<close>, which also takes a plus sign, and refuses an empty or longer number.\<close>

definition parse_unsigned :: "nat \<Rightarrow> string \<Rightarrow> nat option" where
  "parse_unsigned bound s =
     (let digits = (case s of CHR ''+'' # rest \<Rightarrow> if rest = [] then s else rest | _ \<Rightarrow> s) in
      case read_number 10 None True bound digits of Some (n, []) \<Rightarrow> Some n | _ \<Rightarrow> None)"

section \<open>The configuration\<close>

datatype log_format = Json | Pretty
datatype smtp_tls = Starttls | ImplicitTls | NoTls

record smtp_settings =
  smtp_host :: string
  smtp_port :: nat
  smtp_tls :: smtp_tls
  smtp_username :: string
  smtp_password :: string
  smtp_from_email :: string
  smtp_from_name :: "string option"

datatype notifications_config = Disabled | Log | Smtp smtp_settings

record config =
  cfg_listen_addr :: socket_addr
  cfg_grpc_listen_addr :: socket_addr
  cfg_log_format :: log_format
  cfg_log_filter :: string
  cfg_data_dir :: string
  cfg_postgres_url :: string
  cfg_public_base_url :: string
  cfg_instance_name :: string
  cfg_trust_proxy :: bool
  cfg_notifications :: notifications_config

text \<open>An error names the variable at fault, as the messages do.\<close>

datatype config_error = Invalid string string | NotAPort string | Required string


definition DEFAULT_LISTEN_ADDR :: string where "DEFAULT_LISTEN_ADDR = ''127.0.0.1:8443''"
definition DEFAULT_GRPC_LISTEN_ADDR :: string where "DEFAULT_GRPC_LISTEN_ADDR = ''127.0.0.1:50051''"
definition DEFAULT_LOG_FORMAT :: string where "DEFAULT_LOG_FORMAT = ''json''"
definition DEFAULT_LOG_FILTER :: string where "DEFAULT_LOG_FILTER = ''info,server=debug''"
definition DEFAULT_DATA_DIR :: string where "DEFAULT_DATA_DIR = ''./data''"
definition DEFAULT_POSTGRES_URL :: string where "DEFAULT_POSTGRES_URL = ''postgresql://sylva@127.0.0.1:15432/sylva''"
definition DEFAULT_PUBLIC_BASE_URL :: string where "DEFAULT_PUBLIC_BASE_URL = ''http://localhost:8443''"
definition DEFAULT_INSTANCE_NAME :: string where "DEFAULT_INSTANCE_NAME = ''Server''"
definition DEFAULT_NOTIFICATIONS_MODE :: string where "DEFAULT_NOTIFICATIONS_MODE = ''disabled''"
definition DEFAULT_SMTP_PORT :: nat where "DEFAULT_SMTP_PORT = 587"
definition DEFAULT_SMTP_TLS :: string where "DEFAULT_SMTP_TLS = ''starttls''"

type_synonym lookup = "string \<Rightarrow> string option"

definition get_or :: "lookup \<Rightarrow> string \<Rightarrow> string \<Rightarrow> string" where
  "get_or get key dflt = (case get key of Some v \<Rightarrow> v | None \<Rightarrow> dflt)"

definition parse_bool :: "string \<Rightarrow> bool" where
  "parse_bool s = (lower (trim s) \<in> {''1'', ''true'', ''yes'', ''on''})"

definition required :: "lookup \<Rightarrow> string \<Rightarrow> config_error + string" where
  "required get key = (case get key of Some v \<Rightarrow> Inr v | None \<Rightarrow> Inl (Required key))"

text \<open>Sequencing of results, the \<open>?\<close> of the source.\<close>

definition ok_then :: "'e + 'a \<Rightarrow> ('a \<Rightarrow> 'e + 'b) \<Rightarrow> 'e + 'b" where
  "ok_then r f = (case r of Inl e \<Rightarrow> Inl e | Inr a \<Rightarrow> f a)"

definition or_invalid :: "'a option \<Rightarrow> config_error \<Rightarrow> config_error + 'a" where
  "or_invalid x e = (case x of None \<Rightarrow> Inl e | Some a \<Rightarrow> Inr a)"

definition parse_smtp_tls :: "string \<Rightarrow> smtp_tls option" where
  "parse_smtp_tls s = (if s = ''starttls'' then Some Starttls else if s = ''implicit'' then Some ImplicitTls
     else if s = ''none'' then Some NoTls else None)"

definition parse_notifications :: "lookup \<Rightarrow> config_error + notifications_config" where
  "parse_notifications get =
     (let mode = get_or get ''SYLVA_NOTIFICATIONS_MODE'' DEFAULT_NOTIFICATIONS_MODE in
      if mode = ''disabled'' then Inr Disabled
      else if mode = ''log'' then Inr Log
      else if mode = ''smtp'' then
        ok_then (required get ''SYLVA_SMTP_HOST'') (\<lambda>host.
        ok_then (case get ''SYLVA_SMTP_PORT'' of
               Some s \<Rightarrow> or_invalid (parse_unsigned 65536 s) (NotAPort s)
             | None \<Rightarrow> Inr DEFAULT_SMTP_PORT) (\<lambda>port.
        let tls_str = get_or get ''SYLVA_SMTP_TLS'' DEFAULT_SMTP_TLS in
        ok_then (or_invalid (parse_smtp_tls tls_str) (Invalid ''SYLVA_SMTP_TLS'' tls_str)) (\<lambda>tls.
        ok_then (required get ''SYLVA_SMTP_USERNAME'') (\<lambda>username.
        ok_then (required get ''SYLVA_SMTP_PASSWORD'') (\<lambda>password.
        ok_then (required get ''SYLVA_SMTP_FROM_EMAIL'') (\<lambda>from_email.
        Inr (Smtp \<lparr>smtp_host = host, smtp_port = port, smtp_tls = tls, smtp_username = username,
          smtp_password = password, smtp_from_email = from_email,
          smtp_from_name = get ''SYLVA_SMTP_FROM_NAME''\<rparr>)))))))
      else Inl (Invalid ''SYLVA_NOTIFICATIONS_MODE'' mode))"

definition parse_log_format :: "string \<Rightarrow> log_format option" where
  "parse_log_format s = (if s = ''json'' then Some Json else if s = ''pretty'' then Some Pretty else None)"

definition trim_end_slashes :: "string \<Rightarrow> string" where
  "trim_end_slashes s = rev (dropWhile (\<lambda>c. c = CHR ''/'') (rev s))"

text \<open>\<open>pg_port\<close> is the port of a PostgreSQL URL that \<open>PgConnectOptions\<close> accepts.\<close>

definition from_env_lookup :: "(string \<Rightarrow> nat option) \<Rightarrow> lookup \<Rightarrow> config_error + config" where
  "from_env_lookup pg_port get =
     (let listen_addr_str = get_or get ''SYLVA_LISTEN_ADDR'' DEFAULT_LISTEN_ADDR in
      ok_then (or_invalid (parse_socket_addr listen_addr_str) (Invalid ''SYLVA_LISTEN_ADDR'' listen_addr_str)) (\<lambda>listen_addr.
      let grpc_listen_addr_str = get_or get ''SYLVA_GRPC_LISTEN_ADDR'' DEFAULT_GRPC_LISTEN_ADDR in
      ok_then (or_invalid (parse_socket_addr grpc_listen_addr_str)
             (Invalid ''SYLVA_GRPC_LISTEN_ADDR'' grpc_listen_addr_str)) (\<lambda>grpc_listen_addr.
      let log_format_str = get_or get ''SYLVA_LOG_FORMAT'' DEFAULT_LOG_FORMAT in
      ok_then (or_invalid (parse_log_format log_format_str) (Invalid ''SYLVA_LOG_FORMAT'' log_format_str)) (\<lambda>log_format.
      let log_filter = get_or get ''SYLVA_LOG_FILTER'' DEFAULT_LOG_FILTER;
          data_dir = get_or get ''SYLVA_DATA_DIR'' DEFAULT_DATA_DIR;
          postgres_url = get_or get ''SYLVA_POSTGRES_URL'' DEFAULT_POSTGRES_URL in
      ok_then (or_invalid (pg_port postgres_url) (Invalid ''SYLVA_POSTGRES_URL'' postgres_url)) (\<lambda>_.
      let public_base_url = trim_end_slashes (get_or get ''SYLVA_PUBLIC_BASE_URL'' DEFAULT_PUBLIC_BASE_URL);
          instance_name = (case get ''SYLVA_INSTANCE_NAME'' of None \<Rightarrow> DEFAULT_INSTANCE_NAME
            | Some s \<Rightarrow> if trim s = [] then DEFAULT_INSTANCE_NAME else trim s);
          trust_proxy = (case get ''SYLVA_TRUST_PROXY'' of None \<Rightarrow> False | Some v \<Rightarrow> parse_bool v) in
      ok_then (parse_notifications get) (\<lambda>notifications.
      Inr \<lparr>cfg_listen_addr = listen_addr, cfg_grpc_listen_addr = grpc_listen_addr, cfg_log_format = log_format,
           cfg_log_filter = log_filter, cfg_data_dir = data_dir, cfg_postgres_url = postgres_url,
           cfg_public_base_url = public_base_url, cfg_instance_name = instance_name,
           cfg_trust_proxy = trust_proxy, cfg_notifications = notifications\<rparr>))))))"

text \<open>\<open>PathBuf::join\<close> with a relative component, on a system whose separator is a slash.\<close>

definition path_join :: "string \<Rightarrow> string \<Rightarrow> string" where
  "path_join base name = (if base = [] then name else if last base = CHR ''/'' then base @ name
     else base @ ''/'' @ name)"

definition pg_bin_dir :: "config \<Rightarrow> string" where
  "pg_bin_dir c = path_join (cfg_data_dir c) ''postgres''"

definition pg_data_dir :: "config \<Rightarrow> string" where
  "pg_data_dir c = path_join (cfg_data_dir c) ''postgres-data''"

definition postgres_port :: "(string \<Rightarrow> nat option) \<Rightarrow> config \<Rightarrow> nat" where
  "postgres_port pg_port c = (case pg_port (cfg_postgres_url c) of Some p \<Rightarrow> p | None \<Rightarrow> 15432)"

section \<open>The instance secret key\<close>

text \<open>
  The part of the host that \<open>load_secret_key\<close> touches. A write can fail and then leaves some
  content or no file; a read of an existing or missing file can fail.
\<close>

record host =
  h_env :: lookup
  h_files :: "string \<Rightarrow> bytes option"
  h_read_fails :: "string \<Rightarrow> bool"
  h_write_fails :: "string \<Rightarrow> bytes option option"

datatype secret_key_error = BadSecretKeyHex | NotA32ByteKey | ReadingKey | WritingKey

definition write_secret_key :: "string \<Rightarrow> bytes \<Rightarrow> host \<Rightarrow> (secret_key_error + unit) \<times> host" where
  "write_secret_key path key h =
     (case h_write_fails h path of
        None \<Rightarrow> (Inr (), h\<lparr>h_files := (h_files h)(path := Some key)\<rparr>)
      | Some left \<Rightarrow> (Inl WritingKey, h\<lparr>h_files := (h_files h)(path := left)\<rparr>))"

text \<open>\<open>fresh\<close> is what \<open>generate_key\<close> draws from the random number generator.\<close>

definition load_secret_key :: "bytes \<Rightarrow> config \<Rightarrow> host \<Rightarrow> (secret_key_error + bytes) \<times> host" where
  "load_secret_key fresh c h =
     (let hex = (case h_env h ''SYLVA_SECRET_KEY'' of Some s \<Rightarrow> trim s | None \<Rightarrow> []) in
      if hex \<noteq> [] then (case decode_hex32 hex of Inl _ \<Rightarrow> (Inl BadSecretKeyHex, h) | Inr key \<Rightarrow> (Inr key, h))
      else let path = path_join (cfg_data_dir c) ''secret.key'' in
        if h_read_fails h path then (Inl ReadingKey, h)
        else case h_files h path of
          Some bytes \<Rightarrow> if length bytes = 32 then (Inr bytes, h) else (Inl NotA32ByteKey, h)
        | None \<Rightarrow> (case write_secret_key path fresh h of
              (Inl e, h') \<Rightarrow> (Inl e, h') | (Inr _, h') \<Rightarrow> (Inr fresh, h')))"

lemma load_secret_key_again:
  assumes "length fresh = 32" and "load_secret_key fresh c h = (Inr key, h')"
  shows "length key = 32" and "load_secret_key fresh' c h' = (Inr key, h')"
  using assms decode_hex32_length
  by (auto simp: load_secret_key_def write_secret_key_def Let_def split: if_splits option.splits sum.splits)

section \<open>Properties\<close>


definition empty_host :: host where
  "empty_host = \<lparr>h_env = (\<lambda>_. None), h_files = (\<lambda>_. None), h_read_fails = (\<lambda>_. False),
     h_write_fails = (\<lambda>_. None)\<rparr>"

definition demo_config :: config where
  "demo_config = \<lparr>cfg_listen_addr = SocketV4 [127, 0, 0, 1] 8443, cfg_grpc_listen_addr = SocketV4 [127, 0, 0, 1] 50051,
     cfg_log_format = Json, cfg_log_filter = ''info,server=debug'', cfg_data_dir = ''./data'',
     cfg_postgres_url = ''postgresql://sylva@127.0.0.1:15432/sylva'', cfg_public_base_url = ''http://localhost:8443'',
     cfg_instance_name = ''Server'', cfg_trust_proxy = False, cfg_notifications = Disabled\<rparr>"


text \<open>The defaults, computed.\<close>

lemmas groups_numeral =
  read_ipv4_groups.simps(2) [where k = "pred_numeral k" for k, folded numeral_eq_Suc]
  read_groups.simps(2) [where k = "pred_numeral k" for k, folded numeral_eq_Suc]

lemma replicate_numeral: "replicate (numeral k) x = x # replicate (pred_numeral k) x"
  by (simp add: numeral_eq_Suc)

lemmas reader_defs = parse_socket_addr_def read_socket_addr_v4_def read_separator_def after_def read_given_char_def
  read_number_def to_digit_def digits_value_def read_port_def Let_def read_ipv4_addr_def groups_numeral

lemma default_addresses:
  "parse_socket_addr DEFAULT_LISTEN_ADDR = Some (SocketV4 [127, 0, 0, 1] 8443)"
  "parse_socket_addr DEFAULT_GRPC_LISTEN_ADDR = Some (SocketV4 [127, 0, 0, 1] 50051)"
  "trim_end_slashes DEFAULT_PUBLIC_BASE_URL = ''http://localhost:8443''"
  by (simp_all add: DEFAULT_LISTEN_ADDR_def DEFAULT_GRPC_LISTEN_ADDR_def reader_defs trim_end_slashes_def
      DEFAULT_PUBLIC_BASE_URL_def)

lemma defaults: "from_env_lookup (\<lambda>_. Some 15432) (\<lambda>_. None) = Inr demo_config"
  by (simp add: from_env_lookup_def get_or_def ok_then_def or_invalid_def default_addresses Let_def
      parse_log_format_def DEFAULT_LOG_FORMAT_def DEFAULT_LOG_FILTER_def DEFAULT_DATA_DIR_def
      DEFAULT_POSTGRES_URL_def DEFAULT_INSTANCE_NAME_def parse_notifications_def DEFAULT_NOTIFICATIONS_MODE_def
      demo_config_def)

text \<open>Compressed and embedded IPv6 groups, scopes, and near misses.\<close>

lemma sample_addresses:
  "parse_socket_addr ''[::1%3]:80'' = Some (SocketV6 [0, 0, 0, 0, 0, 0, 0, 1] 3 80)"
  "parse_socket_addr ''[fe80::1:2.3.4.5]:0080'' = Some (SocketV6 [0xfe80, 0, 0, 0, 0, 1, 0x203, 0x405] 0 80)"
  "parse_socket_addr ''127.0.0.01:80'' = None" "parse_socket_addr ''1.2.3.4:65536'' = None"
  by (simp_all add: reader_defs read_socket_addr_v6_def read_ipv6_addr_def read_scope_id_def replicate_numeral)

end
