(* ===== verification/Config_Range.thy ===== *)
theory Config_Range
imports Server_Config
begin

text \<open>
  What a configuration that \<open>from_env_lookup\<close> accepts looks like: the readers of addresses and
  numbers yield values in the range of their machine types, and a refusal blames a variable that
  is really wrong.
\<close>

section \<open>Ranges of the readers\<close>

definition wf_addr :: "socket_addr \<Rightarrow> bool" where
  "wf_addr a = (case a of
      SocketV4 gs p \<Rightarrow> length gs = 4 \<and> list_all (\<lambda>g. g < 2 ^ 8) gs \<and> p < 2 ^ 16
    | SocketV6 gs scope p \<Rightarrow> length gs = 8 \<and> list_all (\<lambda>g. g < 2 ^ 16) gs \<and> scope < 2 ^ 32 \<and> p < 2 ^ 16)"

lemma read_number_range: "read_number radix m z bound s = Some (n, rest) \<Longrightarrow> n < bound"
  by (auto simp: read_number_def Let_def split: prod.splits if_splits)

lemma after_Some: "after r q s = Some (a, rest) \<Longrightarrow> \<exists>s'. q s' = Some (a, rest)"
  by (auto simp: after_def split: option.splits)

lemma read_separator_Some: "read_separator c i q s = Some (a, rest) \<Longrightarrow> \<exists>s'. q s' = Some (a, rest)"
  by (auto simp: read_separator_def split: if_splits dest: after_Some)

lemma read_ipv4_groups_range:
  "read_ipv4_groups i k s = Some (gs, rest) \<Longrightarrow> length gs = k \<and> list_all (\<lambda>g. g < 256) gs"
  by (induction i k s arbitrary: gs rest rule: read_ipv4_groups.induct)
    (auto split: option.splits dest!: read_separator_Some read_number_range)

lemma read_ipv4_addr_range: "read_ipv4_addr s = Some (gs, rest) \<Longrightarrow> length gs = 4 \<and> list_all (\<lambda>g. g < 256) gs"
  unfolding read_ipv4_addr_def by (rule read_ipv4_groups_range)

lemma ipv4_pair:
  assumes "read_separator CHR '':'' i read_ipv4_addr s = Some (v4, rest)"
  shows "256 * v4 ! 0 + v4 ! 1 < 65536" and "256 * v4 ! 2 + v4 ! 3 < 65536"
proof -
  have "v4 ! j < 256" if "j < 4" for j
    using assms that by (auto dest!: read_separator_Some read_ipv4_addr_range simp: list_all_length)
  from this [of 0] this [of 1] this [of 2] this [of 3]
  show "256 * v4 ! 0 + v4 ! 1 < 65536" and "256 * v4 ! 2 + v4 ! 3 < 65536" by simp_all
qed

lemma read_groups_range:
  "read_groups i k s = (gs, v4, rest) \<Longrightarrow> length gs \<le> k \<and> list_all (\<lambda>g. g < 65536) gs"
proof (induction i k s arbitrary: gs v4 rest rule: read_groups.induct)
  case (2 i k s)
  show ?case
  proof (cases "if 0 < k then read_separator CHR '':'' i read_ipv4_addr s else None")
    case (Some r)
    then obtain v rest' where r: "r = (v, rest')" "0 < k" "read_separator CHR '':'' i read_ipv4_addr s = Some (v, rest')"
      by (cases r) (auto split: if_splits)
    with 2(2) Some have "gs = [256 * v ! 0 + v ! 1, 256 * v ! 2 + v ! 3]" by simp
    then show ?thesis using ipv4_pair [OF r(3)] r(2) by simp
  next
    case None
    then show ?thesis
      using 2 by (fastforce simp: Let_def split: option.splits prod.splits dest!: read_separator_Some read_number_range)
  qed
qed simp

lemma read_ipv6_addr_range: "read_ipv6_addr s = Some (gs, rest) \<Longrightarrow> length gs = 8 \<and> list_all (\<lambda>g. g < 65536) gs"
proof -
  assume run: "read_ipv6_addr s = Some (gs, rest)"
  obtain head v r where head: "read_groups 0 8 s = (head, v, r)" by (cases "read_groups 0 8 s") auto
  note head_range = read_groups_range [OF head]
  show ?thesis
  proof (cases "length head = 8")
    case True
    then show ?thesis using run head head_range by (simp add: read_ipv6_addr_def)
  next
    case False
    with run head obtain r' where "\<not> v" and step: "after (read_given_char CHR '':'') (read_given_char CHR '':'') r = Some ((), r')"
      by (auto simp: read_ipv6_addr_def split: if_splits option.splits)
    obtain tl v' r'' where tl: "read_groups 0 (8 - (length head + 1)) r' = (tl, v', r'')"
      by (cases "read_groups 0 (8 - (length head + 1)) r'") auto
    then have "gs = head @ replicate (8 - length head - length tl) 0 @ tl"
      using run head False \<open>\<not> v\<close> step by (simp add: read_ipv6_addr_def)
    then show ?thesis using head_range read_groups_range [OF tl] False
      by (auto simp: list_all_iff)
  qed
qed

lemma read_port_range: "read_port s = Some (p, rest) \<Longrightarrow> p < 65536"
  unfolding read_port_def by (auto dest!: after_Some read_number_range)

lemma read_scope_id_range: "read_scope_id s = (n, rest) \<Longrightarrow> n < 2 ^ 32"
  unfolding read_scope_id_def by (auto split: option.splits dest!: after_Some read_number_range)

lemma read_v4_range: "read_socket_addr_v4 s = Some (a, rest) \<Longrightarrow> wf_addr a"
  by (auto simp: read_socket_addr_v4_def wf_addr_def split: option.splits dest!: read_ipv4_addr_range read_port_range)

lemma read_v6_range: "read_socket_addr_v6 s = Some (a, rest) \<Longrightarrow> wf_addr a"
  by (auto simp: read_socket_addr_v6_def wf_addr_def Let_def split: option.splits prod.splits
      dest!: after_Some read_ipv6_addr_range read_port_range read_scope_id_range)

lemma parse_socket_addr_range: "parse_socket_addr s = Some a \<Longrightarrow> wf_addr a"
  by (auto simp: parse_socket_addr_def split: option.splits prod.splits list.splits dest: read_v4_range read_v6_range)

lemma parse_unsigned_range: "parse_unsigned bound s = Some n \<Longrightarrow> n < bound"
  by (auto simp: parse_unsigned_def Let_def split: option.splits prod.splits list.splits dest: read_number_range)

section \<open>The configuration\<close>

definition wf_notifications :: "notifications_config \<Rightarrow> bool" where
  "wf_notifications n = (case n of Smtp s \<Rightarrow> smtp_port s < 2 ^ 16 | _ \<Rightarrow> True)"

definition wf_config :: "(string \<Rightarrow> nat option) \<Rightarrow> config \<Rightarrow> bool" where
  "wf_config pg_port c \<longleftrightarrow> wf_addr (cfg_listen_addr c) \<and> wf_addr (cfg_grpc_listen_addr c)
     \<and> pg_port (cfg_postgres_url c) = Some (postgres_port pg_port c)
     \<and> (cfg_public_base_url c = [] \<or> last (cfg_public_base_url c) \<noteq> CHR ''/'')
     \<and> cfg_instance_name c \<noteq> [] \<and> trim (cfg_instance_name c) = cfg_instance_name c
     \<and> wf_notifications (cfg_notifications c)"

text \<open>The blame of an error lies with a value that was given, or with a variable that was not.\<close>

definition blames :: "lookup \<Rightarrow> config_error \<Rightarrow> bool" where
  "blames get e = (case e of
      Invalid key v \<Rightarrow> get key = Some v
    | NotAPort s \<Rightarrow> get ''SYLVA_SMTP_PORT'' = Some s \<and> parse_unsigned 65536 s = None
    | Required key \<Rightarrow> get key = None \<and> get ''SYLVA_NOTIFICATIONS_MODE'' = Some ''smtp'')"

lemma ok_then_eq [simp]:
  "ok_then r f = Inr b \<longleftrightarrow> (\<exists>a. r = Inr a \<and> f a = Inr b)"
  "ok_then r f = Inl e \<longleftrightarrow> r = Inl e \<or> (\<exists>a. r = Inr a \<and> f a = Inl e)"
  by (auto simp: ok_then_def split: sum.splits)

lemma or_invalid_eq [simp]:
  "or_invalid x e = Inr a \<longleftrightarrow> x = Some a" "or_invalid x e = Inl e' \<longleftrightarrow> x = None \<and> e' = e"
  by (auto simp: or_invalid_def split: option.splits)

lemma required_eq [simp]: "required get key = Inl e \<longleftrightarrow> get key = None \<and> e = Required key"
  by (auto simp: required_def split: option.splits)

lemma no_trailing_slash: "trim_end_slashes s \<noteq> [] \<Longrightarrow> last (trim_end_slashes s) \<noteq> CHR ''/''"
proof (cases "dropWhile (\<lambda>c. c = CHR ''/'') (rev s)")
  case (Cons c cs)
  then show ?thesis using dropWhile_eq_Cons_conv [of "\<lambda>c. c = CHR ''/''" "rev s" c cs] by (simp add: trim_end_slashes_def)
qed (simp add: trim_end_slashes_def)

lemma trim_default_name: "trim DEFAULT_INSTANCE_NAME = DEFAULT_INSTANCE_NAME" "DEFAULT_INSTANCE_NAME \<noteq> []"
  unfolding DEFAULT_INSTANCE_NAME_def by code_simp+

lemma notifications_range: "parse_notifications get = Inr n \<Longrightarrow> wf_notifications n"
  by (auto simp: parse_notifications_def wf_notifications_def Let_def DEFAULT_SMTP_PORT_def split: if_splits option.splits
      dest!: parse_unsigned_range)

lemma blamed_default: "get_or get key dflt \<noteq> dflt \<Longrightarrow> get key = Some (get_or get key dflt)"
  by (auto simp: get_or_def split: option.splits)

lemma notifications_blame: "parse_notifications get = Inl e \<Longrightarrow> blames get e"
proof -
  have "get ''SYLVA_SMTP_TLS'' = Some (get_or get ''SYLVA_SMTP_TLS'' DEFAULT_SMTP_TLS)"
    if "parse_smtp_tls (get_or get ''SYLVA_SMTP_TLS'' DEFAULT_SMTP_TLS) = None"
    using that by (intro blamed_default) (auto simp: parse_smtp_tls_def DEFAULT_SMTP_TLS_def split: if_splits)
  moreover have "get ''SYLVA_NOTIFICATIONS_MODE'' = Some (get_or get ''SYLVA_NOTIFICATIONS_MODE'' DEFAULT_NOTIFICATIONS_MODE)"
    if "get_or get ''SYLVA_NOTIFICATIONS_MODE'' DEFAULT_NOTIFICATIONS_MODE \<noteq> ''disabled''"
    using that by (intro blamed_default) (simp add: DEFAULT_NOTIFICATIONS_MODE_def)
  ultimately show "blames get e" if "parse_notifications get = Inl e"
    using that by (auto simp: parse_notifications_def blames_def Let_def split: if_splits option.splits)
qed

text \<open>
  C37. An accepted configuration is well formed: the octets, groups, scopes and ports of both addresses
  and the SMTP port fit their machine types, the PostgreSQL URL parses, so that the port of the
  server is the one of the URL, the public URL has no trailing slash and the instance name is
  trimmed and not empty. If the built-in PostgreSQL URL parses, a refusal blames a variable of the
  environment: one whose value was given, or one that mail delivery requires and that is missing.
\<close>

theorem config_well_formed:
  "(\<forall>c. from_env_lookup pg_port get = Inr c \<longrightarrow> wf_config pg_port c)
    \<and> (\<forall>e. pg_port DEFAULT_POSTGRES_URL \<noteq> None \<and> from_env_lookup pg_port get = Inl e \<longrightarrow> blames get e)"
proof (intro conjI allI impI; (elim conjE)?)
  fix c
  assume "from_env_lookup pg_port get = Inr c"
  then show "wf_config pg_port c"
    using trim_default_name notifications_range
    by (auto simp: from_env_lookup_def wf_config_def postgres_port_def Let_def split: option.splits if_splits
        dest!: parse_socket_addr_range dest: no_trailing_slash)
next
  fix e
  assume "pg_port DEFAULT_POSTGRES_URL \<noteq> None" and run: "from_env_lookup pg_port get = Inl e"
  then have "pg_port (get_or get key DEFAULT_POSTGRES_URL) = None \<Longrightarrow> get key = Some (get_or get key DEFAULT_POSTGRES_URL)" for key
    by (intro blamed_default) auto
  moreover have "parse_log_format (get_or get key DEFAULT_LOG_FORMAT) = None \<Longrightarrow> get key = Some (get_or get key DEFAULT_LOG_FORMAT)" for key
    by (intro blamed_default) (auto simp: parse_log_format_def DEFAULT_LOG_FORMAT_def)
  moreover have "parse_socket_addr (get_or get key DEFAULT_LISTEN_ADDR) = None \<Longrightarrow> get key = Some (get_or get key DEFAULT_LISTEN_ADDR)"
    "parse_socket_addr (get_or get key DEFAULT_GRPC_LISTEN_ADDR) = None \<Longrightarrow> get key = Some (get_or get key DEFAULT_GRPC_LISTEN_ADDR)" for key
    by (intro blamed_default; use default_addresses in auto)+
  ultimately show "blames get e"
    using run notifications_blame by (auto simp: from_env_lookup_def blames_def Let_def)
qed

theorem config_well_formed_witness:
  "wf_config (\<lambda>_. Some 15432) demo_config
    \<and> blames (\<lambda>key. if key = ''SYLVA_LOG_FORMAT'' then Some ''xml'' else None) (Invalid ''SYLVA_LOG_FORMAT'' ''xml'')"
proof -
  let ?get = "\<lambda>key. if key = ''SYLVA_LOG_FORMAT'' then Some ''xml'' else None"
  have "from_env_lookup (\<lambda>_. Some 15432) ?get = Inl (Invalid ''SYLVA_LOG_FORMAT'' ''xml'')"
    by (simp add: from_env_lookup_def get_or_def default_addresses Let_def parse_log_format_def)
  then show ?thesis
    using config_well_formed [of "\<lambda>_. Some 15432" ?get] config_well_formed [of "\<lambda>_. Some 15432" "\<lambda>_. None"] defaults by simp
qed

end
