(* ===== verification/Sql_Ready.thy ===== *)
theory Sql_Ready
imports Prelude
begin

text \<open>
  \<open>server::db\<close>: \<open>wait_until_ready\<close> retries until PostgreSQL answers, with exponential backoff and a
  deadline. Each attempt, which returns, and the time it takes beyond the sleep before it are
  parameters; the loop is a partial function, and that it returns is a theorem. \<open>connect\<close> and
  \<open>run_migrations\<close> hand constants to \<open>sqlx\<close>.
\<close>

section \<open>The pool and the migrations\<close>

definition MAX_CONNECTIONS :: nat where "MAX_CONNECTIONS = 20"
definition ACQUIRE_TIMEOUT :: nat where "ACQUIRE_TIMEOUT = 10000"   \<comment> \<open>milliseconds\<close>

datatype pool_error = ParsingUrl string | ConnectingTo string | RunningMigrations

text \<open>\<open>parse\<close>, \<open>connect_with\<close> and \<open>migrator\<close> stand for \<open>sqlx\<close>.\<close>

definition connect ::
  "(string \<Rightarrow> 'opts option) \<Rightarrow> ('opts \<Rightarrow> (string \<times> string) list \<Rightarrow> nat \<Rightarrow> nat \<Rightarrow> 'pool option) \<Rightarrow> string
     \<Rightarrow> pool_error + 'pool" where
  "connect parse connect_with url =
     (case parse url of None \<Rightarrow> Inl (ParsingUrl url)
      | Some opts \<Rightarrow>
          (case connect_with opts [(''search_path'', ''sylva_meta,public'')] MAX_CONNECTIONS ACQUIRE_TIMEOUT of
             None \<Rightarrow> Inl (ConnectingTo url) | Some pool \<Rightarrow> Inr pool))"

definition run_migrations :: "('pool \<Rightarrow> bool) \<Rightarrow> 'pool \<Rightarrow> pool_error + unit" where
  "run_migrations migrator pool = (if migrator pool then Inr () else Inl RunningMigrations)"

section \<open>Waiting for SQL\<close>

text \<open>The errors as the loop tells them apart; times in milliseconds.\<close>

datatype connect_error = DatabaseError "string option" | IoError | OtherError

definition transient :: "connect_error \<Rightarrow> bool" where
  "transient e = (case e of DatabaseError (Some c) \<Rightarrow> take 2 c = ''57'' | IoError \<Rightarrow> True | _ \<Rightarrow> False)"

definition SQL_READY_TIMEOUT :: nat where "SQL_READY_TIMEOUT = 120000"

partial_function (option) wait_loop ::
  "(nat \<Rightarrow> connect_error + unit) \<Rightarrow> (nat \<Rightarrow> nat) \<Rightarrow> nat \<Rightarrow> nat \<Rightarrow> connect_error option \<Rightarrow> nat \<Rightarrow> nat \<Rightarrow>
     (connect_error \<times> connect_error option + unit) option" where
  "wait_loop attempt extra deadline delay last_err now i =
     (let now = now + extra i in
      case attempt i of
        Inr _ \<Rightarrow> Some (Inr ())
      | Inl err \<Rightarrow>
          if transient err \<and> now < deadline
          then wait_loop attempt extra deadline (min (delay * 2) 500) (Some err) (now + delay) (Suc i)
          else Some (Inl (err, last_err)))"

definition wait_until_ready ::
  "(nat \<Rightarrow> connect_error + unit) \<Rightarrow> (nat \<Rightarrow> nat) \<Rightarrow> nat \<Rightarrow> (connect_error \<times> connect_error option + unit) option" where
  "wait_until_ready attempt extra start =
     wait_loop attempt extra (start + SQL_READY_TIMEOUT) 100 None start 0"

text \<open>The delay after attempt \<open>i\<close>, and the time when attempt \<open>i\<close> starts.\<close>

definition delay_at :: "nat \<Rightarrow> nat" where
  "delay_at i = min (100 * 2 ^ i) 500"

definition starts_at :: "(nat \<Rightarrow> nat) \<Rightarrow> nat \<Rightarrow> nat" where
  "starts_at extra i = (\<Sum>j<i. extra j + delay_at j)"

definition goes_on :: "(nat \<Rightarrow> connect_error + unit) \<Rightarrow> (nat \<Rightarrow> nat) \<Rightarrow> nat \<Rightarrow> bool" where
  "goes_on attempt extra i \<longleftrightarrow> (\<exists>e. attempt i = Inl e \<and> transient e)
     \<and> starts_at extra i + extra i < SQL_READY_TIMEOUT"

lemma delay_at_Suc: "delay_at (Suc i) = min (delay_at i * 2) 500"
  by (auto simp: delay_at_def min_def)

lemma wait_loop_run:
  assumes "\<And>j. i \<le> j \<Longrightarrow> j < n \<Longrightarrow> goes_on attempt extra j" and "\<not> goes_on attempt extra n" and "i \<le> n"
  shows "wait_loop attempt extra (start + SQL_READY_TIMEOUT) (delay_at i) last_err (start + starts_at extra i) i
    = Some (case attempt n of Inr _ \<Rightarrow> Inr ()
        | Inl e \<Rightarrow> Inl (e, if i = n then last_err else Some (projl (attempt (n - 1)))))"
  using assms(1,3)
proof (induction "n - i" arbitrary: i last_err)
  case 0
  then have "i = n" by simp
  then show ?case
    using assms(2) by (subst wait_loop.simps) (auto simp: goes_on_def Let_def add.assoc split: sum.splits)
next
  case (Suc k)
  then have i: "i < n" "goes_on attempt extra i" by simp_all
  then obtain e where e: "attempt i = Inl e" "transient e" "starts_at extra i + extra i < SQL_READY_TIMEOUT"
    by (auto simp: goes_on_def)
  have "wait_loop attempt extra (start + SQL_READY_TIMEOUT) (delay_at i) last_err (start + starts_at extra i) i
      = wait_loop attempt extra (start + SQL_READY_TIMEOUT) (delay_at (Suc i)) (Some e)
          (start + starts_at extra (Suc i)) (Suc i)"
    using e by (subst wait_loop.simps) (simp add: Let_def delay_at_Suc starts_at_def add.assoc)
  also have "\<dots> = Some (case attempt n of Inr _ \<Rightarrow> Inr ()
      | Inl e' \<Rightarrow> Inl (e', if Suc i = n then Some e else Some (projl (attempt (n - 1)))))"
    using Suc by (intro Suc.hyps) auto
  finally show ?case using e(1) i(1) by (auto split: sum.splits)
qed

lemma starts_at_bound: "700 + 500 * k \<le> starts_at extra (k + 3)"
proof (induction k)
  case 0
  show ?case by (simp add: starts_at_def delay_at_def eval_nat_numeral)
next
  case (Suc k)
  have "(1 :: nat) \<le> 2 ^ k" by simp
  then have "\<not> (8 :: nat) * 2 ^ k \<le> 5" by linarith
  then have "delay_at (k + 3) = 500" unfolding delay_at_def min_def by (simp add: power_add)
  moreover have "starts_at extra (Suc k + 3) = starts_at extra (k + 3) + (extra (k + 3) + delay_at (k + 3))"
    unfolding add_Suc starts_at_def by (rule sum.lessThan_Suc)
  ultimately show ?case using Suc unfolding mult_Suc_right by presburger
qed

text \<open>
  C39. The wait for PostgreSQL ends, whatever the attempts answer and however long each takes: there
  are at most 243 attempts. The loop returns the outcome of the last of them; all earlier ones
  failed with a transient error before the deadline of two minutes, and a transient error ends it
  only once the deadline has passed. The error comes with the transient one before it.
\<close>

theorem wait_until_ready_returns:
  "\<exists>n \<le> 242. wait_until_ready attempt extra start = Some (case attempt n of Inr _ \<Rightarrow> Inr ()
       | Inl e \<Rightarrow> Inl (e, if n = 0 then None else Some (projl (attempt (n - 1)))))
    \<and> (\<forall>i. i < n \<longrightarrow> (\<exists>e. attempt i = Inl e \<and> transient e) \<and> starts_at extra i + extra i < SQL_READY_TIMEOUT)
    \<and> (\<forall>e. attempt n = Inl e \<longrightarrow> \<not> transient e \<or> SQL_READY_TIMEOUT \<le> starts_at extra n + extra n)"
proof -
  have "\<not> goes_on attempt extra 242"
    using starts_at_bound [of 239 extra] by (simp add: goes_on_def SQL_READY_TIMEOUT_def)
  then obtain n where n: "\<not> goes_on attempt extra n" "\<And>j. j < n \<Longrightarrow> goes_on attempt extra j"
    using exists_least_iff [of "\<lambda>i. \<not> goes_on attempt extra i"] by auto
  have le: "n \<le> 242" using n(2) [of 242] \<open>\<not> goes_on attempt extra 242\<close> not_le by blast
  have "wait_until_ready attempt extra start = Some (case attempt n of Inr _ \<Rightarrow> Inr ()
       | Inl e \<Rightarrow> Inl (e, if n = 0 then None else Some (projl (attempt (n - 1)))))"
    using wait_loop_run [of 0 n attempt extra start None] n
    by (simp add: wait_until_ready_def delay_at_def starts_at_def cong: sum.case_cong)
  with n le show ?thesis by (intro exI [of _ n] conjI) (auto simp: goes_on_def)
qed

theorem wait_until_ready_returns_witness:
  "wait_until_ready (\<lambda>i. if i < 2 then Inl IoError else Inr ()) (\<lambda>_. 5) 0 = Some (Inr ())"
proof -
  let ?a = "\<lambda>i :: nat. if i < 2 then Inl IoError else Inr () :: connect_error + unit"
  obtain n where n: "wait_until_ready ?a (\<lambda>_. 5) 0 = Some (case ?a n of Inr _ \<Rightarrow> Inr ()
       | Inl e \<Rightarrow> Inl (e, if n = 0 then None else Some (projl (?a (n - 1)))))"
    and last: "\<forall>e. ?a n = Inl e \<longrightarrow> \<not> transient e \<or> SQL_READY_TIMEOUT \<le> starts_at (\<lambda>_. 5) n + 5"
    using wait_until_ready_returns [of ?a "\<lambda>_. 5" 0] by blast
  have "\<not> n < 2"
  proof
    assume "n < 2"
    then have "n = 0 \<or> n = 1" by auto
    then have "starts_at (\<lambda>_. 5) n \<le> 105" by (auto simp: starts_at_def delay_at_def)
    with last \<open>n < 2\<close> show False by (simp add: transient_def SQL_READY_TIMEOUT_def)
  qed
  with n show ?thesis by simp
qed

end
