(* ===== verification/Provisioning.thy ===== *)
theory Provisioning
imports Recovery_Code Discovery Server_Config Identity_Invitations Account_Bootstrap
begin

text \<open>
  What runs beside the RPCs: \<open>provision\<close>, which prepares an instance once, and the \<open>/health\<close>
  endpoint.
\<close>

section \<open>provision\<close>

datatype provision_error = ProvisionDatabase sql_error | AlreadyInitialized int | SecretKey secret_key_error
  | ServerIdentity identity_error | ProvisionAudit audit_error

text \<open>
  From the point where the pool is connected and the migrations have run; \<open>secret_key\<close> is what
  \<open>load_secret_key\<close> answered.
\<close>

definition init_infrastructure :: "ext \<Rightarrow> secret_key_error + bytes \<Rightarrow> (provision_error, string) action" where
  "init_infrastructure X secret_key =
     andthen (map_err ProvisionDatabase (exec X (\<lambda>_. query (\<lambda>d. int (length (recovery_codes d)))))) (\<lambda>codes.
     andthen (when_ok (\<not> 0 < codes) (AlreadyInitialized codes)) (\<lambda>_.
     andthen (from_sum (map_sum SecretKey id secret_key)) (\<lambda>key.
     andthen (map_err ServerIdentity (ensure_server_identity X key)) (\<lambda>_.
     andthen (draw (generate_code X)) (\<lambda>recovery_code.
     andthen (transact X ProvisionDatabase (\<lambda>now.
       andthen (map_err ProvisionDatabase (exec X (\<lambda>n. recovery_bootstrap X (gen_uuid X n) now recovery_code None)))
         (\<lambda>code_id.
       andthen (map_err ProvisionAudit (append X None None ''recovery_code_generated''
         (JObj [(''by'', JStr ''provision''), (''code_id'', JStr (uuid_str X code_id))]))) (\<lambda>_.
       ret ())))) (\<lambda>_.
     ret recovery_code))))))"

section \<open>The health endpoint\<close>

record health_response =
  hr_status :: string
  hr_db :: string
  hr_users_count :: "int option"
  hr_audit_events_count :: "int option"
  hr_active_sessions_count :: "int option"
  hr_pending_invitations_count :: "int option"

definition ok_of :: "'e + 'a \<Rightarrow> 'a option" where
  "ok_of r = (case r of Inl _ \<Rightarrow> None | Inr a \<Rightarrow> Some a)"

text \<open>The HTTP status and the body; version and uptime are left out.\<close>

definition health :: "ext \<Rightarrow> (unit, nat \<times> health_response) action" where
  "health X =
     andthen (attempt (exec X (\<lambda>_. query (\<lambda>_. 1 :: int)))) (\<lambda>one.
     let alive = (ok_of one \<noteq> None) in
     andthen (if alive
       then andthen (attempt (exec X (\<lambda>_. user_count))) (\<lambda>u.
            andthen (attempt (exec X (\<lambda>_. audit_count))) (\<lambda>a.
            andthen (attempt (exec X (\<lambda>n. session_count_active (pg_now X n)))) (\<lambda>s.
            andthen (attempt (exec X (\<lambda>n. count_pending (pg_now X n)))) (\<lambda>i.
            ret (ok_of u, ok_of a, ok_of s, ok_of i)))))
       else ret (None, None, None, None)) (\<lambda>(u, a, s, i).
     ret (if alive then 200 else 503,
       \<lparr>hr_status = (if alive then ''ok'' else ''degraded''), hr_db = (if alive then ''ok'' else ''down''),
        hr_users_count = u, hr_audit_events_count = a, hr_active_sessions_count = s,
        hr_pending_invitations_count = i\<rparr>)))"

section \<open>An instance is provisioned once\<close>

lemma ensure_identity_frame:
  assumes "ensure_server_identity X key w = (r, w')"
  shows "\<exists>rows. w_db w' = (w_db w)\<lparr>instance_rows := rows\<rparr>"
    and "r = Inr ident \<Longrightarrow> instance_rows (w_db w) = [row] \<Longrightarrow>
      \<exists>row'. instance_rows (w_db w') = [row'] \<and> i_identity_public row' \<noteq> None \<and> i_identity_priv_enc row' \<noteq> None"
proof -
  have same: "\<exists>rows. d = d\<lparr>instance_rows := rows\<rparr>" for d :: database
    by (rule exI [of _ "instance_rows d"]) simp
  show "\<exists>rows. w_db w' = (w_db w)\<lparr>instance_rows := rows\<rparr>"
    using assms same
    by (auto simp: ensure_server_identity_def generate_identity_def stored_identity_def store_identity_def sql_ok_def
        exec_query_run exec_def Let_def seal_run elim!: andthen_cases map_err_cases split: option.splits fault.splits)
      (rule exI, rule refl)+
  show "\<exists>row'. instance_rows (w_db w') = [row'] \<and> i_identity_public row' \<noteq> None \<and> i_identity_priv_enc row' \<noteq> None"
    if "r = Inr ident" "instance_rows (w_db w) = [row]"
    using assms that
    by (auto simp: ensure_server_identity_def generate_identity_def stored_identity_def store_identity_def sql_ok_def
        exec_query_run Let_def seal_run map_err_eq_Inr elim!: andthen_eq_InrE exec_eq_InrE split: option.splits if_splits)
qed

lemma provision_refused:
  assumes "init_infrastructure X sk w = (r, w')" and "recovery_codes (w_db w) \<noteq> []"
  shows "(\<exists>e. r = Inl e) \<and> w_db w' = w_db w"
  using assms by (auto simp: init_infrastructure_def exec_query_run andthen_def map_err_def split: fault.splits if_splits)

lemma recovery_bootstrap_Inr:
  assumes "recovery_bootstrap X new_id now code None d = (Inr cid, d')" and "recovery_codes d = []"
  obtains c where "d' = d\<lparr>recovery_codes := [c]\<rparr>" and "rc_id c = cid" and "rc_rotated_at c = None"
    and "rc_code_hash c = hash_code X code"
  using assms by (auto simp: recovery_bootstrap_def insert_recovery_code_def sql_ok_def sql_err_def split: if_splits)

text \<open>What an accepted run has done.\<close>

lemma provision_accepted:
  assumes "init_infrastructure X sk w = (Inr code, w')"
  obtains key ident w1 w2 c e where "recovery_codes (w_db w) = []" and "sk = Inr key" and "w_db w1 = w_db w"
    and "ensure_server_identity X key w1 = (Inr ident, w2)" and "rc_rotated_at c = None"
    and "rc_code_hash c = hash_code X code" and "recovery_codes (w_db w') = [c]"
    and "events (w_db w') = events (w_db w) @ [e]" and "e_event_type e = ''recovery_code_generated''"
    and "e_actor_user_id e = None" and "instance_rows (w_db w') = instance_rows (w_db w2)"
proof -
  let ?w1 = "w\<lparr>w_tick := Suc (w_tick w)\<rparr>"
  obtain key ident w2 where 1: "recovery_codes (w_db w) = []" "sk = Inr key"
      "ensure_server_identity X key ?w1 = (Inr ident, w2)"
    and tx: "transact X ProvisionDatabase (\<lambda>now.
       andthen (map_err ProvisionDatabase (exec X (\<lambda>n. recovery_bootstrap X (gen_uuid X n) now code None)))
         (\<lambda>code_id.
       andthen (map_err ProvisionAudit (append X None None ''recovery_code_generated''
         (JObj [(''by'', JStr ''provision''), (''code_id'', JStr (uuid_str X code_id))]))) (\<lambda>_.
       ret ()))) (w2\<lparr>w_tick := Suc (w_tick w2)\<rparr>) = (Inr (), w')"
    using assms unfolding init_infrastructure_def
    by (cases sk) (auto elim!: andthen_eq_InrE simp: exec_query_run map_err_eq_Inr split: if_splits)
  obtain rows where frame: "w_db w2 = (w_db w)\<lparr>instance_rows := rows\<rparr>"
    using ensure_identity_frame(1) [OF 1(3)] by auto
  from tx obtain cid d e w4 where b: "recovery_bootstrap X (gen_uuid X (Suc (Suc (w_tick w2)))) (pg_now X (Suc (w_tick w2))) code None (w_db w2) = (Inr cid, d)"
    and ap: "append X None None ''recovery_code_generated''
         (JObj [(''by'', JStr ''provision''), (''code_id'', JStr (uuid_str X cid))])
         (w2\<lparr>w_tick := Suc (Suc (Suc (w_tick w2))), w_db := d\<rparr>) = (Inr e, w4)" and w4: "w_db w' = w_db w4"
    by (auto elim!: transact_eq_InrE andthen_eq_InrE exec_eq_InrE simp: map_err_eq_Inr)
  obtain c where c: "d = (w_db w2)\<lparr>recovery_codes := [c]\<rparr>" "rc_rotated_at c = None" "rc_code_hash c = hash_code X code"
    using recovery_bootstrap_Inr [OF b] 1(1) frame by auto
  show thesis
    using that [OF 1(1,2) _ 1(3) c(2,3)] append_Inr [OF ap] c(1) w4 frame by simp
qed

text \<open>
  C27. \<open>provision\<close> happens once. When it answers with a recovery code, there was none before, the
  server identity is stored, exactly this code is active and verifies, and one event
  \<open>recovery_code_generated\<close> without an actor was logged. On an instance that has a code, this one
  included, it is refused whatever the secret key, and changes nothing.
\<close>

theorem provision_once:
  assumes run: "init_infrastructure X sk w = (r, w')" and row: "instance_rows (w_db w) = [row]"
  shows "(\<forall>code. r = Inr code \<longrightarrow> recovery_codes (w_db w) = []
      \<and> (\<exists>row'. instance_rows (w_db w') = [row'] \<and> i_identity_public row' \<noteq> None \<and> i_identity_priv_enc row' \<noteq> None)
      \<and> (\<exists>c e. recovery_codes (w_db w') = [c] \<and> recovery_verify X code (w_db w') = (Inr (Some (rc_id c)), w_db w')
           \<and> events (w_db w') = events (w_db w) @ [e] \<and> e_event_type e = ''recovery_code_generated''
           \<and> e_actor_user_id e = None)
      \<and> (\<forall>sk' v r' v'. w_db v = w_db w' \<and> init_infrastructure X sk' v = (r', v')
           \<longrightarrow> (\<exists>e. r' = Inl e) \<and> w_db v' = w_db v))
    \<and> (recovery_codes (w_db w) \<noteq> [] \<longrightarrow> (\<exists>e. r = Inl e) \<and> w_db w' = w_db w)"
proof (intro conjI impI allI, goal_cases)
  case (1 code)
  then show ?case using provision_refused [OF run] by auto
next
  case (2 code)
  then obtain row' where "instance_rows (w_db w') = [row']" "i_identity_public row' \<noteq> None"
    "i_identity_priv_enc row' \<noteq> None"
    using run row by (auto elim!: provision_accepted dest!: ensure_identity_frame(2))
  then show ?case by blast
next
  case (3 code)
  then obtain c e where "rc_rotated_at c = None" "rc_code_hash c = hash_code X code" "recovery_codes (w_db w') = [c]"
    "events (w_db w') = events (w_db w) @ [e]" "e_event_type e = ''recovery_code_generated''" "e_actor_user_id e = None"
    using run by (auto elim!: provision_accepted)
  then show ?case by (auto simp: recovery_verify_def query_def)
next
  case (4 code sk' v r' v')
  then have "recovery_codes (w_db v) \<noteq> []" using run by (auto elim!: provision_accepted)
  with 4 show ?case using provision_refused by blast
next
  case (5 code sk' v r' v')
  then have "recovery_codes (w_db v) \<noteq> []" using run by (auto elim!: provision_accepted)
  with 5 show ?case using provision_refused by blast
qed (use provision_refused [OF run] in auto)

theorem provision_once_witness:
  "\<exists>code w'. init_infrastructure demo_ext (Inr [1]) demo_world = (Inr code, w')
     \<and> (\<exists>c. recovery_codes (w_db w') = [c] \<and> recovery_verify demo_ext code (w_db w') = (Inr (Some (rc_id c)), w_db w'))
     \<and> w_db (snd (init_infrastructure demo_ext (Inr [2]) w')) = w_db w'"
proof -
  let ?w1 = "demo_world\<lparr>w_tick := Suc 0\<rparr>"
  have count: "map_err ProvisionDatabase (exec demo_ext (\<lambda>_. query (\<lambda>d. int (length (recovery_codes d))))) demo_world
      = (Inr 0, ?w1)"
    by (simp add: map_err_def exec_query_run)
  obtain ident w2 where ensure: "ensure_server_identity demo_ext [1] ?w1 = (Inr ident, w2)"
    by (simp add: ensure_server_identity_def stored_identity_def exec_query_run map_err_def andthen_def empty_db_def
        generate_identity_def Let_def seal_run exec_no_fault demo_ext_documented store_identity_def sql_ok_def draw_run)
  then have ensure': "map_err ServerIdentity (ensure_server_identity demo_ext [1]) ?w1 = (Inr ident, w2)"
    by (simp only: map_err_eq_Inr)
  obtain rows where w2: "w_db w2 = empty_db\<lparr>instance_rows := rows\<rparr>" using ensure_identity_frame(1) [OF ensure] by auto
  let ?code = "generate_code demo_ext (w_tick w2)" and ?w3 = "w2\<lparr>w_tick := Suc (w_tick w2)\<rparr>"
  let ?n = "Suc (Suc (w_tick w2))"
  obtain cid d where b: "recovery_bootstrap demo_ext (gen_uuid demo_ext ?n) (pg_now demo_ext (Suc (w_tick w2))) ?code None (w_db w2) = (Inr cid, d)"
    using w2 by (simp add: recovery_bootstrap_def insert_recovery_code_def sql_ok_def hash_code_def
        demo_ext_documented(1) [unfolded sha256_width_def] del: demo_ext_fields)
  have d: "events d = []" using recovery_bootstrap_Inr [OF b] w2 by fastforce
  let ?w4 = "w2\<lparr>w_tick := Suc ?n, w_db := d\<rparr>"
  obtain e w5 where ap: "append demo_ext None None ''recovery_code_generated''
      (JObj [(''by'', JStr ''provision''), (''code_id'', JStr (uuid_str demo_ext cid))]) ?w4 = (Inr e, w5)"
    using append_runs [OF demo_ext_documented(7), of ?w4] d by fastforce
  have ap': "map_err ProvisionAudit (append demo_ext None None ''recovery_code_generated''
      (JObj [(''by'', JStr ''provision''), (''code_id'', JStr (uuid_str demo_ext cid))])) ?w4 = (Inr e, w5)"
    using ap by (simp only: map_err_eq_Inr)
  have b': "map_err ProvisionDatabase (exec demo_ext (\<lambda>n. recovery_bootstrap demo_ext (gen_uuid demo_ext n)
      (pg_now demo_ext (Suc (w_tick w2))) ?code None)) (w2\<lparr>w_tick := ?n\<rparr>) = (Inr cid, ?w4)"
    using b by (simp add: map_err_def exec_no_fault demo_ext_documented del: demo_ext_fields)
  have tx: "transact demo_ext ProvisionDatabase (\<lambda>now.
       andthen (map_err ProvisionDatabase (exec demo_ext (\<lambda>n. recovery_bootstrap demo_ext (gen_uuid demo_ext n) now ?code None)))
         (\<lambda>code_id.
       andthen (map_err ProvisionAudit (append demo_ext None None ''recovery_code_generated''
         (JObj [(''by'', JStr ''provision''), (''code_id'', JStr (uuid_str demo_ext code_id))]))) (\<lambda>_.
       ret ()))) ?w3 = (Inr (), w5\<lparr>w_tick := Suc (w_tick w5)\<rparr>)"
    by (rule transact_no_fault [OF demo_ext_documented(7)]) (simp add: andthen_Inr b' ap' del: demo_ext_fields)
  have "\<exists>w'. init_infrastructure demo_ext (Inr [1]) demo_world = (Inr ?code, w')"
    unfolding init_infrastructure_def
    by (simp add: andthen_Inr count ensure' tx draw_run del: demo_ext_fields)
  then obtain code w' where run: "init_infrastructure demo_ext (Inr [1]) demo_world = (Inr code, w')" by blast
  obtain r v' where again: "init_infrastructure demo_ext (Inr [2]) w' = (r, v')" by fastforce
  have row: "instance_rows (w_db demo_world) = [\<lparr>i_instance_name = None, i_identity_public = None, i_identity_priv_enc = None\<rparr>]"
    by (simp add: empty_db_def)
  note once = provision_once [OF run row]
  have "w_db v' = w_db w'" using once again by blast
  moreover have "\<exists>c. recovery_codes (w_db w') = [c] \<and> recovery_verify demo_ext code (w_db w') = (Inr (Some (rc_id c)), w_db w')"
    using once by blast
  ultimately show ?thesis using run again by auto
qed

end
