(* ===== verification/Deployment.thy ===== *)
theory Deployment
imports Provisioning Services
begin

text \<open>
  An installation over its life: \<open>provision\<close>, starts of the server (\<open>server::serve\<close> up to the
  point where both listeners are bound), the requests it then serves, stops, and starts again.
  The components meet here: the configuration and key file of the host, the instance row and the
  accounts in the database, the identity that clients pin. Migrations and the binding of
  sockets are parameters.
\<close>

section \<open>A start of the server\<close>

datatype serve_error = ConnectingPool sql_error | Migrating sql_error | LoadingKey secret_key_error
  | ReadingName sql_error | LoadingIdentity identity_error | BindingHttp | BindingGrpc

record server_state =
  sv_secret_key :: bytes
  sv_trust_proxy :: bool
  sv_discovery :: discovery_state

definition on_world :: "('e, 'a) action \<Rightarrow> (host \<times> world, 'e, 'a) prog" where
  "on_world m hw = (case m (snd hw) of (r, w') \<Rightarrow> (r, (fst hw, w')))"

definition on_host :: "(host, 'e, 'a) prog \<Rightarrow> (host \<times> world, 'e, 'a) prog" where
  "on_host m hw = (case m (fst hw) of (r, h') \<Rightarrow> (r, (h', snd hw)))"

text \<open>\<open>RateLimiter::auth_default()\<close>: every start begins with an empty limiter.\<close>

definition fresh_limiter :: "ext \<Rightarrow> ('e, unit) action" where
  "fresh_limiter X w = (Inr (), w\<lparr>w_limiter := auth_default X\<rparr>)"

definition serve_startup ::
  "ext \<Rightarrow> unit stmt \<Rightarrow> (socket_addr \<Rightarrow> bool) \<Rightarrow> config \<Rightarrow> (host \<times> world, serve_error, server_state) prog" where
  "serve_startup X migrate binds c =
     andthen (on_world (map_err ConnectingPool (exec X (\<lambda>_. query (\<lambda>_. ()))))) (\<lambda>_.
     andthen (on_world (map_err Migrating (exec X (\<lambda>_. migrate)))) (\<lambda>_.
     andthen (on_world (draw (\<lambda>n. fill_bytes X n 32))) (\<lambda>fresh.
     andthen (on_host (map_err LoadingKey (load_secret_key fresh c))) (\<lambda>secret_key.
     andthen (on_world (map_err ReadingName (server_name X (cfg_instance_name c)))) (\<lambda>instance_name.
     andthen (on_world (map_err LoadingIdentity (ensure_server_identity X secret_key))) (\<lambda>server_identity.
     andthen (on_world (fresh_limiter X)) (\<lambda>_.
     andthen (when_ok (binds (cfg_listen_addr c)) BindingHttp) (\<lambda>_.
     andthen (when_ok (binds (cfg_grpc_listen_addr c)) BindingGrpc) (\<lambda>_.
     ret \<lparr>sv_secret_key = secret_key, sv_trust_proxy = cfg_trust_proxy c,
       sv_discovery = \<lparr>ds_instance_name = instance_name,
         ds_grpc_port = of_nat (sa_port (cfg_grpc_listen_addr c)), ds_server_identity = server_identity\<rparr>\<rparr>)))))))))"

text \<open>
  \<open>provision\<close> with its key: \<open>load_secret_key\<close> is called once no recovery code was found, so only
  then it may write the key file.
\<close>

definition provision_run :: "ext \<Rightarrow> config \<Rightarrow> (host \<times> world, provision_error, string) prog" where
  "provision_run X c =
     andthen (on_world (draw (\<lambda>n. fill_bytes X n 32))) (\<lambda>fresh (h, w).
       let (key, h') = load_secret_key fresh c h;
           looked_up = (pg_fault X (w_tick w) = NoFault \<and> recovery_codes (w_db w) = []);
           (r, w') = init_infrastructure X key w
       in (r, (if looked_up then h' else h, w')))"

text \<open>The whole of it: connect, migrate, and then the above.\<close>

definition provision_init ::
  "ext \<Rightarrow> unit stmt \<Rightarrow> config \<Rightarrow> (host \<times> world, provision_error, string) prog" where
  "provision_init X migrate c =
     andthen (on_world (map_err ProvisionDatabase (exec X (\<lambda>_. query (\<lambda>_. ()))))) (\<lambda>_.
     andthen (on_world (map_err ProvisionDatabase (exec X (\<lambda>_. migrate)))) (\<lambda>_.
     provision_run X c))"

section \<open>Public requests over HTTP\<close>

text \<open>
  The router of the HTTP listener for \<open>GET\<close>: a path and the parameter \<open>nonce\<close> of its query, empty
  when it is absent. A path without a route is refused by \<open>axum\<close>.
\<close>

datatype http_reply = HealthReply nat health_response | DiscoveryReply "http_status + discovery_response" | NoRoute

definition discovery_router :: "ext \<Rightarrow> discovery_state \<Rightarrow> string \<Rightarrow> string option \<Rightarrow> (http_status + discovery_response) option" where
  "discovery_router X state path nonce =
     (if path = ''/.well-known/sylva-discovery''
      then Some (discovery_handler X state (case nonce of None \<Rightarrow> [] | Some s \<Rightarrow> s)) else None)"

definition http_get :: "ext \<Rightarrow> server_state \<Rightarrow> string \<Rightarrow> string option \<Rightarrow> (unit, http_reply) action" where
  "http_get X v path nonce =
     (if path = ''/health'' then andthen (health X) (\<lambda>(status, body). ret (HealthReply status body))
      else case discovery_router X (sv_discovery v) path nonce of
             Some answer \<Rightarrow> ret (DiscoveryReply answer) | None \<Rightarrow> ret NoRoute)"

section \<open>The life of an installation\<close>

record deployment =
  dp_host :: host
  dp_world :: world
  dp_running :: "server_state option"

inductive deploy_step ::
  "ext \<Rightarrow> unit stmt \<Rightarrow> (socket_addr \<Rightarrow> bool) \<Rightarrow> config \<Rightarrow> deployment \<Rightarrow> deployment \<Rightarrow> bool"
  for X migrate binds c where
  start: "dp_running s = None \<Longrightarrow> serve_startup X migrate binds c (dp_host s, dp_world s) = (r, (h, w)) \<Longrightarrow>
     deploy_step X migrate binds c s
       \<lparr>dp_host = h, dp_world = w, dp_running = (case r of Inl _ \<Rightarrow> None | Inr v \<Rightarrow> Some v)\<rparr>"
| serve: "dp_running s = Some v \<Longrightarrow> rpc_step X (sv_trust_proxy v) (dp_world s) w \<Longrightarrow>
     deploy_step X migrate binds c s (s\<lparr>dp_world := w\<rparr>)"
| ask: "dp_running s = Some v \<Longrightarrow> http_get X v path nonce (dp_world s) = (reply, w) \<Longrightarrow>
     deploy_step X migrate binds c s (s\<lparr>dp_world := w\<rparr>)"
| stop: "dp_running s = Some v \<Longrightarrow> deploy_step X migrate binds c s (s\<lparr>dp_running := None\<rparr>)"
| provision: "dp_running s = None \<Longrightarrow> provision_init X migrate c (dp_host s, dp_world s) = (r, (h, w)) \<Longrightarrow>
     deploy_step X migrate binds c s (s\<lparr>dp_host := h, dp_world := w\<rparr>)"

section \<open>The instance row\<close>

text \<open>No request touches the instance row.\<close>

definition same_instance :: "database \<Rightarrow> database \<Rightarrow> bool" where
  "same_instance d d' \<longleftrightarrow> instance_rows d' = instance_rows d"

interpretation instance_row: db_relation same_instance
  by unfold_locales (simp_all add: same_instance_def rollback_def)

lemma append_same_instance: "obeys same_instance (append X actor app_id event_type event_data)"
proof -
  have "same_instance d (snd (nextval_seqno d))" "same_instance d (snd (insert_event e d))" for d e
    by (simp_all add: same_instance_def nextval_seqno_def insert_event_def sql_ok_def sql_err_def)
  then show ?thesis
    unfolding append_def
    by (intro instance_row.obeys_andthen instance_row.obeys_map_err instance_row.obeys_let instance_row.obeys_need
        instance_row.obeys_draw instance_row.obeys_exec; simp add: instance_row.R_refl)
qed

interpretation instance_rpc: rpc_storage same_instance X for X
  by unfold_locales
    (auto simp: append_same_instance same_instance_def write_defs Let_def sql_ok_def sql_err_def
      split: option.splits sum.splits prod.splits)

section \<open>What stays\<close>

definition key_settled :: "config \<Rightarrow> bytes \<Rightarrow> host \<Rightarrow> bool" where
  "key_settled c key h \<longleftrightarrow> (\<forall>fresh. load_secret_key fresh c h = (Inr key, h))"

definition identity_missing :: "instance_row \<Rightarrow> bool" where
  "identity_missing row \<longleftrightarrow> i_identity_public row = None \<or> i_identity_priv_enc row = None"

definition key_pair :: "ext \<Rightarrow> bytes \<Rightarrow> server_identity" where
  "key_pair X seed = \<lparr>si_seed = seed, si_public = ed25519_public X seed\<rparr>"

text \<open>The row carries the key pair of \<open>seed\<close>, sealed under \<open>key\<close>.\<close>

definition identity_sealed :: "ext \<Rightarrow> bytes \<Rightarrow> bytes \<Rightarrow> instance_row \<Rightarrow> bool" where
  "identity_sealed X key seed row \<longleftrightarrow> (\<exists>blob. i_identity_public row = Some (ed25519_public X seed)
     \<and> i_identity_priv_enc row = Some blob
     \<and> load_identity X key (ed25519_public X seed) blob = Inr (key_pair X seed))"

definition anchored :: "ext \<Rightarrow> config \<Rightarrow> bytes \<Rightarrow> bytes \<Rightarrow> host \<Rightarrow> database \<Rightarrow> bool" where
  "anchored X c key seed h d \<longleftrightarrow> key_settled c key h
     \<and> (\<exists>row. instance_rows d = [row] \<and> identity_sealed X key seed row)"

definition bare :: "database \<Rightarrow> bool" where
  "bare d \<longleftrightarrow> (\<exists>row. instance_rows d = [row] \<and> identity_missing row)"

definition names :: "database \<Rightarrow> string option list" where
  "names d = map i_instance_name (instance_rows d)"

text \<open>What a start gives: the key, the identity, the name of the row or the configuration, the port.\<close>

definition state_of :: "config \<Rightarrow> bytes \<Rightarrow> string option list \<Rightarrow> server_identity \<Rightarrow> server_state" where
  "state_of c key ns ident = \<lparr>sv_secret_key = key, sv_trust_proxy = cfg_trust_proxy c,
     sv_discovery = \<lparr>ds_instance_name = (case ns of Some name # _ \<Rightarrow> name | _ \<Rightarrow> cfg_instance_name c),
       ds_grpc_port = of_nat (sa_port (cfg_grpc_listen_addr c)), ds_server_identity = ident\<rparr>\<rparr>"

text \<open>One call of \<open>ensure_server_identity\<close> from a bare or an anchored installation.\<close>

lemma ensure_bare:
  assumes X: "aead_sound X" "ed25519_sound X" and run: "ensure_server_identity X key w = (r, w')"
    and "bare (w_db w)" and key: "key_settled c key h"
  shows "names (w_db w') = names (w_db w) \<and> (bare (w_db w') \<and> (\<exists>e. r = Inl e)
    \<or> (\<exists>seed. anchored X c key seed h (w_db w')
        \<and> (\<forall>ident. r = Inr ident \<longrightarrow> ident = key_pair X seed)))"
proof -
  obtain row where row: "instance_rows (w_db w) = [row]" and "identity_missing row"
    using assms(4) by (auto simp: bare_def)
  then have missing: "i_identity_public row = None \<or> i_identity_priv_enc row = None" by (simp add: identity_missing_def)
  from X run row missing show ?thesis
  proof (cases rule: missing_identity_answer)
    case kept
    then show ?thesis using assms(4) by simp
  next
    case (generated seed blob)
    then have "anchored X c key seed h (w_db w')"
      using key by (simp add: anchored_def identity_sealed_def key_pair_def)
    then show ?thesis using generated row by (auto simp: names_def key_pair_def)
  qed
qed

lemma ensure_anchored:
  assumes "ensure_server_identity X key w = (r, w')" and "anchored X c key seed h (w_db w)"
  shows "w_db w' = w_db w" and "r = Inr ident \<Longrightarrow> ident = key_pair X seed"
  using assms stored_identity_answer [OF assms(1)] by (auto simp: anchored_def identity_sealed_def)

section \<open>A start\<close>

lemma on_world_iff [simp]: "on_world m (h, w) = (r, (h', w')) \<longleftrightarrow> m w = (r, w') \<and> h' = h"
  by (auto simp: on_world_def split: prod.splits)

lemma on_host_iff [simp]: "on_host m (h, w) = (r, (h', w')) \<longleftrightarrow> m h = (r, h') \<and> w' = w"
  by (auto simp: on_host_def split: prod.splits)

lemma exec_same_db:
  assumes "exec X (\<lambda>_. st) w = (r, w')" and "\<And>d. snd (st d) = d"
  shows "w_db w' = w_db w"
  using assms by (auto elim!: exec_cases dest: arg_cong [of _ _ snd])

text \<open>Everything behind the key: the name, the identity, the limiter and the sockets.\<close>

definition after_key ::
  "ext \<Rightarrow> (socket_addr \<Rightarrow> bool) \<Rightarrow> config \<Rightarrow> bytes \<Rightarrow> (host \<times> world, serve_error, server_state) prog" where
  "after_key X binds c secret_key =
     andthen (on_world (map_err ReadingName (server_name X (cfg_instance_name c)))) (\<lambda>instance_name.
     andthen (on_world (map_err LoadingIdentity (ensure_server_identity X secret_key))) (\<lambda>server_identity.
     andthen (on_world (fresh_limiter X)) (\<lambda>_.
     andthen (when_ok (binds (cfg_listen_addr c)) BindingHttp) (\<lambda>_.
     andthen (when_ok (binds (cfg_grpc_listen_addr c)) BindingGrpc) (\<lambda>_.
     ret \<lparr>sv_secret_key = secret_key, sv_trust_proxy = cfg_trust_proxy c,
       sv_discovery = \<lparr>ds_instance_name = instance_name,
         ds_grpc_port = of_nat (sa_port (cfg_grpc_listen_addr c)), ds_server_identity = server_identity\<rparr>\<rparr>)))))"

lemma server_name_run:
  assumes "server_name X fallback w = (r, w')"
  shows "w_db w' = w_db w"
    and "r = Inr name \<Longrightarrow> name = (case names (w_db w) of Some stored # _ \<Rightarrow> stored | _ \<Rightarrow> fallback)"
  using assms
  by (auto simp: server_name_def exec_query_run names_def elim!: andthen_cases
      split: if_splits option.splits list.splits)

lemma after_key_cases:
  assumes "after_key X binds c key (h, w) = (r, (h', w'))"
  obtains (early) e where "r = Inl e" and "w_db w' = w_db w" and "h' = h"
  | (identity) w1 q w2 where "h' = h" and "w_db w1 = w_db w" and "ensure_server_identity X key w1 = (q, w2)"
      and "w_db w' = w_db w2"
      and "\<And>v. r = Inr v \<Longrightarrow> \<exists>ident. q = Inr ident \<and> v = state_of c key (names (w_db w)) ident"
  using assms unfolding after_key_def
proof (cases rule: andthen_cases)
  case (stop e)
  then show thesis using early server_name_run(1) by (auto elim!: map_err_cases)
next
  case (go name hw1)
  then obtain w1 where name: "server_name X (cfg_instance_name c) w = (Inr name, w1)" "hw1 = (h, w1)"
    by (cases hw1) (auto simp: map_err_eq_Inr)
  from go(2) show thesis
  proof (cases rule: andthen_cases)
    case (stop e)
    then show thesis
      using identity [OF _ server_name_run(1) [OF name(1)]] name(2) by (auto elim!: map_err_cases)
  next
    case (go ident hw2)
    then obtain w2 where ident: "ensure_server_identity X key w1 = (Inr ident, w2)" "hw2 = (h, w2)"
      using name(2) by (cases hw2) (auto simp: map_err_eq_Inr)
    show thesis
      using identity [OF _ server_name_run(1) [OF name(1)] ident(1)] go(2) ident(2) server_name_run(2) [OF name(1) refl]
      by (auto simp: fresh_limiter_def on_world_def state_of_def elim!: andthen_cases split: if_splits)
  qed
qed

lemma serve_startup_cases:
  assumes "serve_startup X migrate binds c (h, w) = (r, (h', w'))" and "\<And>d. snd (migrate d) = d"
  obtains (early) e where "r = Inl e" and "w_db w' = w_db w" and "h' = h"
  | (no_key) fresh e e' where "length fresh = 32" and "load_secret_key fresh c h = (Inl e, h')" and "r = Inl e'"
      and "w_db w' = w_db w"
  | (key) fresh key h1 w1 where "length fresh = 32" and "load_secret_key fresh c h = (Inr key, h1)"
      and "w_db w1 = w_db w" and "after_key X binds c key (h1, w1) = (r, (h', w'))"
proof -
  have split: "serve_startup X migrate binds c =
     andthen (on_world (map_err ConnectingPool (exec X (\<lambda>_. query (\<lambda>_. ()))))) (\<lambda>_.
     andthen (on_world (map_err Migrating (exec X (\<lambda>_. migrate)))) (\<lambda>_.
     andthen (on_world (draw (\<lambda>n. fill_bytes X n 32))) (\<lambda>fresh.
     andthen (on_host (map_err LoadingKey (load_secret_key fresh c))) (after_key X binds c))))"
    by (simp add: serve_startup_def after_key_def [abs_def])
  from assms(1) show thesis
    unfolding split
    apply (auto elim!: andthen_cases map_err_cases simp: map_err_eq_Inr
        dest!: exec_same_db [of X migrate, OF _ assms(2)] exec_same_db [of X "query (\<lambda>_. ())"] intro: early)
    subgoal by (rule early) simp_all
    subgoal by (erule no_key [OF length_fill_bytes]) simp_all
    subgoal premises p by (rule key [OF length_fill_bytes p(1) _ p(2)]) (simp add: p(3))
    done
qed

text \<open>
  The invariant of an installation: its database is bare or anchored, and a running server is
  what a start from there gives. Once anchored it never changes.
\<close>

definition deploy_inv :: "ext \<Rightarrow> config \<Rightarrow> deployment \<Rightarrow> bool" where
  "deploy_inv X c s \<longleftrightarrow>
     (bare (w_db (dp_world s)) \<and> dp_running s = None
      \<or> (\<exists>key seed. anchored X c key seed (dp_host s) (w_db (dp_world s))
          \<and> (\<forall>v. dp_running s = Some v \<longrightarrow> v = state_of c key (names (w_db (dp_world s))) (key_pair X seed))))"

lemma load_settled:
  assumes "length fresh = 32" and "load_secret_key fresh c h = (Inr key, h')"
  shows "key_settled c key h'"
  using load_secret_key_again(2) [OF assms] by (simp add: key_settled_def)

lemma start_bare:
  assumes "aead_sound X" "ed25519_sound X" and migrate: "\<And>d. snd (migrate d) = d"
    and run: "serve_startup X migrate binds c (h, w) = (r, (h', w'))" and bare: "bare (w_db w)"
  shows "names (w_db w') = names (w_db w) \<and> (bare (w_db w') \<and> (\<exists>e. r = Inl e)
    \<or> (\<exists>key seed. anchored X c key seed h' (w_db w') \<and> (\<forall>v. r = Inr v \<longrightarrow> v = state_of c key (names (w_db w')) (key_pair X seed))))"
  using run migrate
proof (cases rule: serve_startup_cases)
  case (key fresh key h1 w1)
  then have settled: "key_settled c key h1" by (blast intro: load_settled)
  from key(4) show ?thesis
  proof (cases rule: after_key_cases)
    case (identity w2 q w3)
    have "bare (w_db w2)" using identity(2) key(3) bare by simp
    note ensured = ensure_bare [OF assms(1,2) identity(3) this settled]
    have rows: "w_db w' = w_db w3" "names (w_db w2) = names (w_db w)" "names (w_db w1) = names (w_db w)" "h' = h1"
      using identity(1,2,4) key(3) by simp_all
    show ?thesis
    proof (cases q)
      case (Inl e)
      then have "\<exists>e. r = Inl e" using identity(5) by (cases r) auto
      then show ?thesis using ensured rows by auto
    next
      case (Inr ident)
      then show ?thesis using ensured rows identity(5) by fastforce
    qed
  qed (use key(3) bare in auto)
qed (use bare in auto)

lemma start_anchored:
  assumes migrate: "\<And>d. snd (migrate d) = d"
    and run: "serve_startup X migrate binds c (h, w) = (r, (h', w'))" and anch: "anchored X c key seed h (w_db w)"
  shows "h' = h \<and> w_db w' = w_db w \<and> (\<forall>v. r = Inr v \<longrightarrow> v = state_of c key (names (w_db w)) (key_pair X seed))"
  using run migrate
proof (cases rule: serve_startup_cases)
  case (no_key fresh e e')
  then show ?thesis using anch by (simp add: anchored_def key_settled_def)
next
  case (key fresh key' h1 w1)
  then have same: "key' = key" "h1 = h" using anch by (simp_all add: anchored_def key_settled_def)
  from key(4) show ?thesis
  proof (cases rule: after_key_cases)
    case (identity w2 q w3)
    have "anchored X c key seed h (w_db w2)" using identity(2) key(3) anch by simp
    note ensured = ensure_anchored [OF identity(3) [unfolded same(1)] this]
    have "w_db w' = w_db w" "h' = h" using ensured(1) identity(1,2,4) key(3) same(2) by simp_all
    moreover have "v = state_of c key (names (w_db w)) (key_pair X seed)" if "r = Inr v" for v
      using identity(5) [OF that] ensured(2) same(1) key(3) by auto
    ultimately show ?thesis by blast
  qed (use key(3) same in auto)
qed auto

section \<open>provision\<close>

text \<open>The transaction of \<open>init_infrastructure\<close>.\<close>

abbreviation mint_code :: "ext \<Rightarrow> string \<Rightarrow> (provision_error, unit) action" where
  "mint_code X code \<equiv> transact X ProvisionDatabase (\<lambda>now.
     andthen (map_err ProvisionDatabase (exec X (\<lambda>n. recovery_bootstrap X (gen_uuid X n) now code None))) (\<lambda>code_id.
     andthen (map_err ProvisionAudit (append X None None ''recovery_code_generated''
       (JObj [(''by'', JStr ''provision''), (''code_id'', JStr (uuid_str X code_id))]))) (\<lambda>_.
     ret ())))"

lemma mint_code_same_instance: "obeys same_instance (mint_code X code)"
proof -
  have "same_instance d (snd (recovery_bootstrap X n now code None d))" for n now d
    by (simp add: same_instance_def recovery_bootstrap_def insert_recovery_code_def sql_ok_def sql_err_def)
  then show ?thesis
    by (intro instance_row.obeys_transact instance_row.obeys_andthen instance_row.obeys_map_err instance_row.obeys_ret
        instance_row.obeys_exec append_same_instance)
qed

lemma provision_rows:
  assumes "init_infrastructure X sk w = (r, w')"
  obtains (before) "w_db w' = w_db w"
  | (ensured) key w1 q w2 where "sk = Inr key" and "w_db w1 = w_db w" and "ensure_server_identity X key w1 = (q, w2)"
      and "instance_rows (w_db w') = instance_rows (w_db w2)"
      and "pg_fault X (w_tick w) = NoFault" and "recovery_codes (w_db w) = []"
  using assms unfolding init_infrastructure_def
proof (cases rule: andthen_cases)
  case (stop e)
  then show thesis using before by (auto simp: exec_query_run elim!: map_err_cases)
next
  case (go codes w1)
  then have w1: "w_db w1 = w_db w" "pg_fault X (w_tick w) = NoFault" "codes = int (length (recovery_codes (w_db w)))"
    by (auto simp: exec_query_run map_err_eq_Inr split: if_splits)
  show thesis
  proof (cases "recovery_codes (w_db w) = [] \<and> (\<exists>key. sk = Inr key)")
    case False
    then show thesis using before go(2) w1 by (cases sk) (auto elim!: andthen_cases split: if_splits)
  next
    case True
    then obtain key where key: "sk = Inr key" "recovery_codes (w_db w) = []" by blast
    obtain q w2 where ensure: "ensure_server_identity X key w1 = (q, w2)" by fastforce
    have "instance_rows (w_db w') = instance_rows (w_db w2)"
    proof (cases q)
      case (Inl e)
      then show ?thesis using go(2) key ensure w1(3) by (simp add: andthen_def map_err_def)
    next
      case (Inr ident)
      then obtain code where tx: "andthen (mint_code X code) (\<lambda>_. ret code) (w2\<lparr>w_tick := Suc (w_tick w2)\<rparr>) = (r, w')"
        using go(2) key ensure w1(3) by (simp add: andthen_Inr map_err_eq_Inr draw_run)
      have "obeys same_instance (andthen (mint_code X code) (\<lambda>_. ret code))"
        by (intro instance_row.obeys_andthen mint_code_same_instance instance_row.obeys_ret)
      from obeysD [OF this tx] show ?thesis by (simp add: same_instance_def)
    qed
    then show thesis using ensured [OF key(1) w1(1) ensure _ w1(2) key(2)] by blast
  qed
qed

lemma provision_init_cases:
  assumes "provision_init X migrate c (h, w) = (r, (h', w'))" and "\<And>d. snd (migrate d) = d"
  obtains (early) e where "r = Inl e" and "h' = h" and "w_db w' = w_db w"
  | (run) w1 where "provision_run X c (h, w1) = (r, (h', w'))" and "w_db w1 = w_db w"
  using assms(1) unfolding provision_init_def
proof (cases rule: andthen_cases)
  case (stop e)
  then show thesis
    using early exec_same_db [of X "query (\<lambda>_. ())"] by (auto simp: on_world_def elim!: map_err_cases split: prod.splits)
next
  case (go u hw1)
  then obtain w1 where 1: "hw1 = (h, w1)" "w_db w1 = w_db w"
    using exec_same_db [of X "query (\<lambda>_. ())"] by (auto simp: on_world_def map_err_eq_Inr split: prod.splits)
  from go(2) show thesis
  proof (cases rule: andthen_cases)
    case (stop e)
    then show thesis using early 1 exec_same_db [of X migrate, OF _ assms(2)]
      by (auto simp: on_world_def elim!: map_err_cases split: prod.splits)
  next
    case (go u' hw2)
    then show thesis using run 1 exec_same_db [of X migrate, OF _ assms(2)]
      by (auto simp: on_world_def map_err_eq_Inr split: prod.splits)
  qed
qed

lemma provision_bare:
  assumes "aead_sound X" "ed25519_sound X" and run: "provision_run X c (h, w) = (r, (h', w'))" and bare: "bare (w_db w)"
  shows "names (w_db w') = names (w_db w) \<and> (bare (w_db w') \<or> (\<exists>key seed. anchored X c key seed h' (w_db w')))"
proof -
  let ?fresh = "fill_bytes X (w_tick w) 32" and ?w = "w\<lparr>w_tick := Suc (w_tick w)\<rparr>"
  obtain k h1 where load: "load_secret_key ?fresh c h = (k, h1)" by fastforce
  have init: "init_infrastructure X k ?w = (r, w')"
    and h': "h' = (if pg_fault X (w_tick ?w) = NoFault \<and> recovery_codes (w_db ?w) = [] then h1 else h)"
    using run load by (auto simp: provision_run_def andthen_def on_world_def Let_def split: prod.splits)
  from init show ?thesis
  proof (cases rule: provision_rows)
    case (ensured key w1 q w2)
    have settled: "key_settled c key h'" using load_settled [OF length_fill_bytes load [unfolded ensured(1)]] h' ensured(5,6) by simp
    have "bare (w_db w1)" using ensured(2) bare by simp
    from ensure_bare [OF assms(1,2) ensured(3) this settled]
    have "names (w_db w2) = names (w_db w1) \<and> (bare (w_db w2) \<or> (\<exists>seed. anchored X c key seed h' (w_db w2)))" by blast
    then show ?thesis using ensured(2,4) by (auto simp: names_def bare_def anchored_def)
  qed (use bare in simp)
qed

lemma provision_anchored:
  assumes run: "provision_run X c (h, w) = (r, (h', w'))" and anch: "anchored X c key seed h (w_db w)"
  shows "h' = h \<and> instance_rows (w_db w') = instance_rows (w_db w)"
proof -
  let ?fresh = "fill_bytes X (w_tick w) 32" and ?w = "w\<lparr>w_tick := Suc (w_tick w)\<rparr>"
  have load: "load_secret_key ?fresh c h = (Inr key, h)" using anch by (simp add: anchored_def key_settled_def)
  have init: "init_infrastructure X (Inr key) ?w = (r, w')" and h': "h' = h"
    using run load by (auto simp: provision_run_def andthen_def on_world_def Let_def split: prod.splits if_splits)
  from init show ?thesis
  proof (cases rule: provision_rows)
    case (ensured key' w1 q w2)
    then have "anchored X c key seed h (w_db w1)" "key' = key" using anch by simp_all
    with ensured(2-4) h' ensure_anchored(1) show ?thesis by fastforce
  qed (use h' in simp)
qed

section \<open>For life\<close>

lemma anchored_rows:
  "instance_rows d' = instance_rows d \<Longrightarrow> anchored X c key seed h d' = anchored X c key seed h d"
  "instance_rows d' = instance_rows d \<Longrightarrow> names d' = names d"
  "instance_rows d' = instance_rows d \<Longrightarrow> bare d' = bare d"
  by (simp_all add: anchored_def names_def bare_def)

lemma rpc_rows: "rpc_step X tp w w' \<Longrightarrow> instance_rows (w_db w') = instance_rows (w_db w)"
  using instance_rpc.rpc_steps_R [OF r_into_rtranclp] by (simp add: same_instance_def)

text \<open>The public endpoints read.\<close>

lemma http_rows: "http_get X v path nonce w = (reply, w') \<Longrightarrow> instance_rows (w_db w') = instance_rows (w_db w)"
proof -
  assume run: "http_get X v path nonce w = (reply, w')"
  have "obeys same_instance (http_get X v path nonce)"
    unfolding http_get_def health_def user_count_def audit_count_def session_count_active_def count_pending_def
    by (intro obeys_rules)
  from obeysD [OF this run] show ?thesis by (simp add: same_instance_def)
qed

lemma anchored_step:
  assumes migrate: "\<And>d. snd (migrate d) = d" and step: "deploy_step X migrate binds c s s'"
    and anch: "anchored X c key seed (dp_host s) (w_db (dp_world s))"
  shows "anchored X c key seed (dp_host s') (w_db (dp_world s')) \<and> names (w_db (dp_world s')) = names (w_db (dp_world s))
    \<and> (dp_running s = None \<longrightarrow> (\<forall>v. dp_running s' = Some v \<longrightarrow> v = state_of c key (names (w_db (dp_world s))) (key_pair X seed)))
    \<and> (dp_running s \<noteq> None \<longrightarrow> dp_running s' = dp_running s \<or> dp_running s' = None)"
  using step
proof cases
  case (start r h w)
  with start_anchored [OF migrate start(3) anch] anch show ?thesis by (auto split: sum.splits)
next
  case (serve v w)
  with anch show ?thesis using anchored_rows [OF rpc_rows [OF serve(3)]] by simp
next
  case (ask v path nonce reply w)
  with anch show ?thesis using anchored_rows [OF http_rows [OF ask(3)]] by simp
next
  case (provision r h w)
  then have "h = dp_host s" and rows: "instance_rows (w_db w) = instance_rows (w_db (dp_world s))"
    using anch by (auto elim!: provision_init_cases [OF _ migrate] dest!: provision_anchored)
  with provision anch anchored_rows [OF rows] show ?thesis by simp
qed (use anch in simp)

lemma deploy_step_inv:
  assumes X: "aead_sound X" "ed25519_sound X" and migrate: "\<And>d. snd (migrate d) = d"
    and step: "deploy_step X migrate binds c s s'" and inv: "deploy_inv X c s"
  shows "deploy_inv X c s'"
proof (cases "bare (w_db (dp_world s)) \<and> dp_running s = None")
  case True
  from step show ?thesis
  proof cases
    case (start r h w)
    with start_bare [OF X migrate start(3)] True show ?thesis by (auto simp: deploy_inv_def split: sum.splits)
  next
    case (provision r h w)
    from provision(3) migrate show ?thesis
    proof (cases rule: provision_init_cases)
      case (run w1)
      with provision_bare [OF X run(1)] provision True show ?thesis by (auto simp: deploy_inv_def)
    qed (use provision True in \<open>simp add: deploy_inv_def\<close>)
  qed (use True in simp_all)
next
  case False
  then obtain key seed where anch: "anchored X c key seed (dp_host s) (w_db (dp_world s))"
    and run: "\<And>v. dp_running s = Some v \<Longrightarrow> v = state_of c key (names (w_db (dp_world s))) (key_pair X seed)"
    using inv by (auto simp: deploy_inv_def)
  note next_anch = anchored_step [OF migrate step anch]
  then have "v = state_of c key (names (w_db (dp_world s'))) (key_pair X seed)" if "dp_running s' = Some v" for v
    using run that by (cases "dp_running s") auto
  with next_anch show ?thesis unfolding deploy_inv_def by blast
qed

lemma deploy_steps_inv:
  assumes "aead_sound X" "ed25519_sound X" and "\<And>d. snd (migrate d) = d"
    and "(deploy_step X migrate binds c)\<^sup>*\<^sup>* s s'" and "deploy_inv X c s"
  shows "deploy_inv X c s'"
  using assms(4,5) by (induction rule: rtranclp_induct) (auto intro: deploy_step_inv [OF assms(1-3)])

lemma anchored_steps:
  assumes "\<And>d. snd (migrate d) = d" and "(deploy_step X migrate binds c)\<^sup>*\<^sup>* s s'"
    and "anchored X c key seed (dp_host s) (w_db (dp_world s))"
  shows "anchored X c key seed (dp_host s') (w_db (dp_world s')) \<and> names (w_db (dp_world s')) = names (w_db (dp_world s))"
  using assms(2,3)
proof (induction rule: rtranclp_induct)
  case (step y z)
  from anchored_step [OF assms(1) step.hyps(2)] step.IH [OF step.prems] show ?case by auto
qed simp

lemma anchored_unique:
  assumes "anchored X c key seed h d" and "anchored X c key' seed' h d"
  shows "key' = key" and "key_pair X seed' = key_pair X seed"
  using assms by (auto simp: anchored_def key_settled_def identity_sealed_def)

text \<open>
  C16. The identity clients pin is for life: take an installation whose instance row carries no
  identity yet, and let its operator provision it, start and stop the server in any order, with
  failures of the database, the key file and the sockets, while the server answers any requests
  from anyone, over gRPC and over HTTP. Whenever the server runs it runs with the same secret key, identity, name and
  port as the first time; and every discovery answer to a nonce of at most 256 bytes carries
  the public key that was pinned first, and verifies under it.
\<close>

theorem pinned_identity_for_life:
  assumes "aead_sound X" and "ed25519_sound X" and "\<And>d. snd (migrate d) = d"
    and "bare (w_db (dp_world s))" and "dp_running s = None"
    and "(deploy_step X migrate binds c)\<^sup>*\<^sup>* s s1" and "dp_running s1 = Some v1"
    and "(deploy_step X migrate binds c)\<^sup>*\<^sup>* s1 s2" and "dp_running s2 = Some v2"
  shows "v2 = v1
    \<and> (\<forall>nonce. length nonce \<le> 256 \<longrightarrow> (\<exists>resp sig. let st = sv_discovery v1; pk = si_public (ds_server_identity st) in
         discovery_handler X (sv_discovery v2) nonce = Inr resp \<and> dr_nonce resp = nonce
         \<and> dr_server_identity_public resp = hex_encode pk \<and> dr_signature resp = hex_encode sig
         \<and> ed25519_verify X pk (discovery_bytes nonce pk (ds_grpc_port st) (ds_instance_name st)) sig))"
proof -
  have inv: "deploy_inv X c s1"
    using deploy_steps_inv [OF assms(1-3,6)] assms(4,5) by (simp add: deploy_inv_def)
  then obtain key seed where anch: "anchored X c key seed (dp_host s1) (w_db (dp_world s1))"
    and v1: "v1 = state_of c key (names (w_db (dp_world s1))) (key_pair X seed)"
    using assms(7) by (auto simp: deploy_inv_def)
  have later: "anchored X c key seed (dp_host s2) (w_db (dp_world s2))" "names (w_db (dp_world s2)) = names (w_db (dp_world s1))"
    using anchored_steps [OF assms(3,8) anch] by simp_all
  from deploy_steps_inv [OF assms(1-3,8) inv] obtain key' seed' where
    anch': "anchored X c key' seed' (dp_host s2) (w_db (dp_world s2))"
    and v2: "v2 = state_of c key' (names (w_db (dp_world s2))) (key_pair X seed')"
    using assms(9) by (auto simp: deploy_inv_def)
  have "v2 = v1" using v1 v2 later(2) anchored_unique [OF later(1) anch'] by simp
  moreover have "ed25519_verify X (ed25519_public X seed) m (ed25519_sign X seed m)" for m
    using assms(2) by (simp add: ed25519_sound_def)
  ultimately show ?thesis
    using v1 by (auto simp: discovery_handler_def MAX_NONCE_LEN_def Let_def state_of_def key_pair_def)
qed

lemma startup_runs:
  assumes "no_faults X" and "\<And>d. migrate d = (Inr (), d)" and "\<And>a. binds a"
    and "\<And>fresh. length fresh = 32 \<Longrightarrow> \<exists>key h'. load_secret_key fresh c h = (Inr key, h')"
    and "\<And>key v. w_db v = w_db w \<Longrightarrow> \<exists>h' fresh. load_secret_key fresh c h = (Inr key, h') \<Longrightarrow>
      \<exists>ident v'. ensure_server_identity X key v = (Inr ident, v')"
  shows "\<exists>v h' w'. serve_startup X migrate binds c (h, w) = (Inr v, (h', w'))"
proof -
  let ?w4 = "w\<lparr>w_tick := Suc (Suc (Suc (Suc (w_tick w))))\<rparr>"
  obtain key h' where load: "load_secret_key (fill_bytes X (Suc (Suc (w_tick w))) 32) c h = (Inr key, h')"
    using assms(4) length_fill_bytes by blast
  obtain ident w5 where ensure: "ensure_server_identity X key ?w4 = (Inr ident, w5)" using assms(5) [of ?w4 key] load by auto
  show ?thesis
    unfolding serve_startup_def
    by (simp add: andthen_def map_err_def on_world_def on_host_def exec_no_fault assms(1-3) query_def draw_def load
        server_name_def ensure fresh_limiter_def when_ok_def ret_def)
qed

lemma demo_starts:
  "\<exists>v h w. serve_startup demo_ext (sql_ok ()) (\<lambda>_. True) demo_config (empty_host, demo_world) = (Inr v, (h, w))"
proof -
  have "\<exists>ident v'. ensure_server_identity demo_ext key v = (Inr ident, v')" if "w_db v = empty_db" for key v
    using that by (simp add: ensure_server_identity_def stored_identity_def exec_query_run map_err_def andthen_def empty_db_def
        generate_identity_def Let_def seal_run exec_no_fault demo_ext_documented store_identity_def sql_ok_def draw_run
        del: fill_bytes_def)
  then show ?thesis
    using startup_runs [OF demo_ext_documented(7), of "sql_ok ()" "\<lambda>_. True" demo_config empty_host demo_world]
    by (fastforce simp: sql_ok_def load_secret_key_def write_secret_key_def empty_host_def)
qed

theorem pinned_identity_for_life_witness:
  "\<exists>s1 s2 v. (deploy_step demo_ext (sql_ok ()) (\<lambda>_. True) demo_config)\<^sup>*\<^sup>*
       \<lparr>dp_host = empty_host, dp_world = demo_world, dp_running = None\<rparr> s1 \<and> dp_running s1 = Some v
     \<and> (deploy_step demo_ext (sql_ok ()) (\<lambda>_. True) demo_config)\<^sup>*\<^sup>* (s1\<lparr>dp_running := None\<rparr>) s2 \<and> dp_running s2 = Some v"
proof -
  let ?step = "deploy_step demo_ext (sql_ok ()) (\<lambda>_. True) demo_config"
  let ?s = "\<lparr>dp_host = empty_host, dp_world = demo_world, dp_running = None\<rparr> :: deployment"
  have bare: "bare (w_db demo_world)" by (simp add: bare_def identity_missing_def empty_db_def)
  obtain v1 h w where 1: "serve_startup demo_ext (sql_ok ()) (\<lambda>_. True) demo_config (empty_host, demo_world) = (Inr v1, (h, w))"
    using demo_starts by blast
  let ?s1 = "\<lparr>dp_host = h, dp_world = w, dp_running = Some v1\<rparr> :: deployment"
  have step1: "?step\<^sup>*\<^sup>* ?s ?s1" using deploy_step.start [of ?s] 1 by fastforce
  have migrate: "snd (sql_ok () d) = d" for d :: database by simp
  from start_bare [OF demo_ext_documented(4,5) migrate 1 bare] obtain key seed where
    anch: "anchored demo_ext demo_config key seed h (w_db w)" by auto
  have "\<exists>ident v'. ensure_server_identity demo_ext key v = (Inr ident, v')" if "w_db v = w_db w" for v
    using anch that stored_identity_kept(2) by (fastforce simp: anchored_def identity_sealed_def)
  moreover have "load_secret_key fresh demo_config h = (Inr key, h)" for fresh
    using anch by (simp add: anchored_def key_settled_def)
  ultimately have "\<exists>v h' w'. serve_startup demo_ext (sql_ok ()) (\<lambda>_. True) demo_config (h, w) = (Inr v, (h', w'))"
    by (intro startup_runs [OF demo_ext_documented(7)]) (auto simp: sql_ok_def)
  then obtain v2 h2 w2 where 2: "serve_startup demo_ext (sql_ok ()) (\<lambda>_. True) demo_config (h, w) = (Inr v2, (h2, w2))"
    by blast
  let ?s2 = "\<lparr>dp_host = h2, dp_world = w2, dp_running = Some v2\<rparr> :: deployment"
  have stop: "?step ?s1 (?s1\<lparr>dp_running := None\<rparr>)" by (rule deploy_step.stop) simp
  have start: "?step (?s1\<lparr>dp_running := None\<rparr>) ?s2"
    using deploy_step.start [of "?s1\<lparr>dp_running := None\<rparr>"] 2 by fastforce
  have step2: "?step\<^sup>*\<^sup>* ?s1 ?s2" using stop start by simp
  have "v2 = v1"
    using pinned_identity_for_life [OF demo_ext_documented(4,5) migrate _ _ step1 _ step2, of v1 v2] bare by simp
  with step1 start show ?thesis by (intro exI [of _ ?s1] exI [of _ ?s2] exI [of _ v1]) auto
qed

end
