(* ===== verification/Tool_Effects.thy ===== *)
theory Tool_Effects
imports Actions Server_Config
begin

text \<open>
  How the command line tools act on their machine. A tool is a program over the trace of what it
  has done; the machine is the record \<open>outside\<close>, which answers each call from that trace: whether
  a path exists, what a file or a directory holds, whether an operation succeeds, how a
  program ends and what it prints. Between two effects of a tool its machine stands still.
\<close>

section \<open>Effects\<close>

datatype effect =
    CreateDirAll string
  | RemoveDirAll string
  | RemoveFile string
  | RenamePath string string
  | WriteFile string string
  | RunProgram string "string list" string   \<comment> \<open>program, arguments, standard input\<close>

type_synonym trace = "(effect \<times> bool) list"

text \<open>A program that ended answers whether its status is a success, and its standard output.\<close>

datatype program_end = NotSpawned | PipeBroken | Exited bool string

text \<open>An entry of \<open>read_dir\<close>: reading it can fail; its name, and whether it is a file.\<close>

type_synonym dir_entry = "(string \<times> bool option) option"

record outside =
  o_exists :: "trace \<Rightarrow> string \<Rightarrow> bool"
  o_is_dir :: "trace \<Rightarrow> string \<Rightarrow> bool"
  o_read :: "trace \<Rightarrow> string \<Rightarrow> string option"
  o_entries :: "trace \<Rightarrow> string \<Rightarrow> dir_entry list option"
  o_succeeds :: "trace \<Rightarrow> effect \<Rightarrow> bool"
  o_program :: "trace \<Rightarrow> string \<Rightarrow> string list \<Rightarrow> string \<Rightarrow> program_end"

datatype tool_error =
    Failed effect
  | ListingFailed string
  | ReadingFailed string
  | NotSpawnedError string
  | PipeError string
  | BadStatus string
  | NotFound string
  | NotSetUp
  | NoHashLine
  | NotAHash string
  | HashMismatch string
  | PostgresRunning nat
  | NoInput

type_synonym 'a tool = "(trace, tool_error, 'a) prog"

definition ask :: "(trace \<Rightarrow> 'a) \<Rightarrow> 'a tool" where
  "ask f h = (Inr (f h), h)"

definition perform :: "outside \<Rightarrow> effect \<Rightarrow> unit tool" where
  "perform E eff h =
     (if o_succeeds E h eff then (Inr (), h @ [(eff, True)]) else (Inl (Failed eff), h @ [(eff, False)]))"

definition run_program :: "outside \<Rightarrow> string \<Rightarrow> string list \<Rightarrow> string \<Rightarrow> (bool \<times> string) tool" where
  "run_program E program args stdin h =
     (let eff = RunProgram program args stdin in
      case o_program E h program args stdin of
        NotSpawned \<Rightarrow> (Inl (NotSpawnedError program), h @ [(eff, False)])
      | PipeBroken \<Rightarrow> (Inl (PipeError program), h @ [(eff, False)])
      | Exited success stdout \<Rightarrow> (Inr (success, stdout), h @ [(eff, success)]))"

text \<open>\<open>Command::status\<close> and the check of \<open>success()\<close>.\<close>

definition run_checked :: "outside \<Rightarrow> string \<Rightarrow> string list \<Rightarrow> string \<Rightarrow> unit tool" where
  "run_checked E program args stdin =
     andthen (run_program E program args stdin) (\<lambda>(success, _). when_ok success (BadStatus program))"

text \<open>A loop whose body can fail.\<close>

fun each :: "('a \<Rightarrow> ('s, 'e, unit) prog) \<Rightarrow> 'a list \<Rightarrow> ('s, 'e, unit) prog" where
  "each f [] = ret ()"
| "each f (x # xs) = andthen (f x) (\<lambda>_. each f xs)"

text \<open>A value whose \<open>drop\<close> has an effect, on every way out; its own failure is ignored.\<close>

definition with_drop :: "outside \<Rightarrow> effect \<Rightarrow> 'a tool \<Rightarrow> 'a tool" where
  "with_drop E eff m h = (case m h of (r, h') \<Rightarrow> (r, snd (perform E eff h')))"

section \<open>Text\<close>

text \<open>\<open>str::lines\<close>.\<close>

definition strip_cr :: "string \<Rightarrow> string" where
  "strip_cr l = (if l \<noteq> [] \<and> last l = CHR 0x0D then butlast l else l)"

fun lines_from :: "string \<Rightarrow> string \<Rightarrow> string list" where
  "lines_from cur [] = (if cur = [] then [] else [cur])"
| "lines_from cur (c # cs) =
     (if c = CHR 0x0A then strip_cr cur # lines_from [] cs else lines_from (cur @ [c]) cs)"

definition lines :: "string \<Rightarrow> string list" where
  "lines s = lines_from [] s"

definition unlines :: "string list \<Rightarrow> string" where
  "unlines ls = concat (map (\<lambda>l. l @ [CHR 0x0A]) ls)"

definition starts_with :: "string \<Rightarrow> string \<Rightarrow> bool" where
  "starts_with p s \<longleftrightarrow> take (length p) s = p"

definition ends_with :: "string \<Rightarrow> string \<Rightarrow> bool" where
  "ends_with sfx s \<longleftrightarrow> length sfx \<le> length s \<and> drop (length s - length sfx) s = sfx"

definition contains :: "string \<Rightarrow> string \<Rightarrow> bool" where
  "contains needle s \<longleftrightarrow> list_ex (\<lambda>i. starts_with needle (drop i s)) [0..<Suc (length s)]"

text \<open>Without its characters with the property \<open>White_Space\<close>.\<close>

function without_white :: "string \<Rightarrow> string" where
  "without_white s =
     (case find (\<lambda>w. begins_with w s) white_space of
        Some w \<Rightarrow> without_white (drop (length w) s)
      | None \<Rightarrow> (case s of [] \<Rightarrow> [] | c # cs \<Rightarrow> c # without_white cs))"
  by pat_completeness auto
termination
proof (relation "measure length", simp)
  fix s w :: string
  assume "find (\<lambda>w. begins_with w s) white_space = Some w"
  then have w: "w \<noteq> []" "take (length w) s = w" by (auto simp: find_Some_iff begins_with_def)
  then have "s \<noteq> []" by auto
  with w(1) show "(drop (length w) s, s) \<in> measure length" by simp
qed simp

declare without_white.simps [simp del]

section \<open>Traces only grow\<close>

definition grows :: "'a tool \<Rightarrow> bool" where
  "grows m \<longleftrightarrow> (\<forall>h. \<exists>t. snd (m h) = h @ t)"

named_theorems grows_rules

lemma growsD: "grows m \<Longrightarrow> m h = (r, h') \<Longrightarrow> \<exists>t. h' = h @ t"
  unfolding grows_def by (metis snd_conv)

lemma grows_basic [grows_rules]:
  "grows (ret a)" "grows (throw e)" "grows (ask f)" "grows (perform E eff)" "grows (run_program E p args stdin)"
  "grows (need x e)" "grows (when_ok b e)" "grows (from_sum r)"
  by (auto simp: grows_def ask_def perform_def run_program_def Let_def split: program_end.splits option.splits)

lemma grows_andthen [grows_rules]:
  assumes "grows m" and "\<And>a. grows (f a)"
  shows "grows (andthen m f)"
  unfolding grows_def
proof
  fix h
  obtain r h1 where m: "m h = (r, h1)" by fastforce
  then obtain t where t: "h1 = h @ t" using growsD [OF assms(1)] by blast
  show "\<exists>t. snd (andthen m f h) = h @ t"
  proof (cases r)
    case (Inr a)
    obtain r' h2 where f: "f a h1 = (r', h2)" by fastforce
    then obtain t' where "h2 = h1 @ t'" using growsD [OF assms(2)] by blast
    then show ?thesis using m f t Inr by (simp add: andthen_def)
  qed (use m t in \<open>simp add: andthen_def\<close>)
qed

lemma grows_each [grows_rules]:
  assumes "\<And>x. grows (f x)"
  shows "grows (each f xs)"
  using assms by (induction xs) (simp_all add: grows_basic grows_andthen)

lemma grows_with_drop [grows_rules]:
  assumes "grows m"
  shows "grows (with_drop E eff m)"
  using assms unfolding grows_def with_drop_def perform_def by (auto split: prod.splits) (metis snd_conv append_assoc)+

lemma grows_split [grows_rules]:
  "(\<And>a b. p = (a, b) \<Longrightarrow> grows (g a b)) \<Longrightarrow> grows (case p of (a, b) \<Rightarrow> g a b)"
  "(b \<Longrightarrow> grows m) \<Longrightarrow> (\<not> b \<Longrightarrow> grows n) \<Longrightarrow> grows (if b then m else n)"
  "(x = None \<Longrightarrow> grows m) \<Longrightarrow> (\<And>a. x = Some a \<Longrightarrow> grows (k a)) \<Longrightarrow> grows (case x of None \<Rightarrow> m | Some a \<Rightarrow> k a)"
  by (auto split: prod.splits option.splits)

lemma grows_run_checked [grows_rules]: "grows (run_checked E p args stdin)"
  unfolding run_checked_def by (intro grows_rules)

end
