(* ===== verification/Operator_Tools.thy ===== *)
theory Operator_Tools
imports Tool_Effects
begin

text \<open>
  The tools \<open>bootstrap\<close>, which installs PostgreSQL from a pinned archive, and \<open>clean\<close>, which
  resets the database, as programs over the trace of their effects. \<open>workspace\<close> is the workspace root
  and \<open>temp\<close> the scratch directory of the process; console output is left out.
\<close>

section \<open>SQL in single-user mode\<close>

definition quote_ident :: "string \<Rightarrow> string" where
  "quote_ident s = CHR 0x22 # concat (map (\<lambda>ch. if ch = CHR 0x22 then [CHR 0x22, ch] else [ch]) s) @ [CHR 0x22]"

definition run_single_user_sql :: "outside \<Rightarrow> string \<Rightarrow> string \<Rightarrow> string \<Rightarrow> string list \<Rightarrow> unit tool" where
  "run_single_user_sql E postgres_exe data_dir database statements =
     run_checked E postgres_exe [''--single'', ''-D'', data_dir, database] (unlines statements)"

definition postgres_exe :: "string \<Rightarrow> string" where
  "postgres_exe pg_dir = path_join (path_join pg_dir ''bin'') ''postgres.exe''"

definition create_database_sql :: "string \<Rightarrow> string" where
  "create_database_sql db_name = ''CREATE DATABASE '' @ quote_ident db_name @ '';''"

definition schema_statement :: "string \<Rightarrow> string" where
  "schema_statement schema_name = ''CREATE SCHEMA '' @ quote_ident schema_name @ '';''"

section \<open>bootstrap\<close>

definition POSTGRES_DOWNLOAD_URL :: string where
  "POSTGRES_DOWNLOAD_URL = ''https://sbp.enterprisedb.com/getfile.jsp?fileid=1260146''"

definition EXPECTED_SHA256 :: string where
  "EXPECTED_SHA256 = ''d5e16a9317216731c0e564ab63fca7c049fd7e2f727a28628cb649207748129c''"

definition DEFAULT_PORT :: nat where "DEFAULT_PORT = 15432"
definition DEFAULT_SUPERUSER :: string where "DEFAULT_SUPERUSER = ''sylva''"
definition DEFAULT_DATABASE :: string where "DEFAULT_DATABASE = ''sylva''"
definition META_SCHEMA :: string where "META_SCHEMA = ''sylva_meta''"

definition REMOVE_SUBDIRS :: "string list" where
  "REMOVE_SUBDIRS = [''doc'', ''include'', ''symbols'', ''pgAdmin 4'', ''StackBuilder'', ''installer'',
     ''share/tsearch_data'', ''share/locale'', ''share/doc'', ''share/man'', ''lib/pgxs'', ''lib/pkgconfig'']"

definition download :: "outside \<Rightarrow> string \<Rightarrow> string \<Rightarrow> unit tool" where
  "download E url dest =
     run_checked E ''curl.exe'' [''-L'', ''--fail'', ''--progress-bar'', ''-o'', dest, url] []"

definition is_ascii_hexdigit :: "char \<Rightarrow> bool" where
  "is_ascii_hexdigit c \<longleftrightarrow> is_ascii_digit c \<or> (CHR ''a'' \<le> c \<and> c \<le> CHR ''f'') \<or> (CHR ''A'' \<le> c \<and> c \<le> CHR ''F'')"

text \<open>What \<open>compute_sha256\<close> makes of the output of \<open>certutil\<close>.\<close>

definition sha256_of_output :: "string \<Rightarrow> tool_error + string" where
  "sha256_of_output stdout =
     (case find (\<lambda>l. l \<noteq> [] \<and> \<not> starts_with ''SHA256'' l \<and> \<not> starts_with ''CertUtil'' l) (map trim (lines stdout)) of
        None \<Rightarrow> Inl NoHashLine
      | Some hash_line \<Rightarrow>
          (let normalized = lower (without_white hash_line) in
           if length normalized \<noteq> 64 \<or> \<not> list_all is_ascii_hexdigit normalized
           then Inl (NotAHash normalized) else Inr normalized))"

definition compute_sha256 :: "outside \<Rightarrow> string \<Rightarrow> string tool" where
  "compute_sha256 E path =
     andthen (run_program E ''certutil.exe'' [''-hashfile'', path, ''SHA256''] []) (\<lambda>(success, stdout).
     andthen (when_ok success (BadStatus ''certutil.exe'')) (\<lambda>_.
     from_sum (sha256_of_output stdout)))"

definition extract_zip :: "outside \<Rightarrow> string \<Rightarrow> string \<Rightarrow> unit tool" where
  "extract_zip E zip_path dest = run_checked E ''tar.exe'' [''-xf'', zip_path, ''-C'', dest] []"

text \<open>Which files of the PostgreSQL distribution \<open>trim_distribution\<close> removes.\<close>

definition KEEP_EXECUTABLES :: "string list" where
  "KEEP_EXECUTABLES = [''postgres.exe'', ''initdb.exe'', ''pg_ctl.exe'']"

definition REMOVE_LIB_SUFFIXES :: "string list" where
  "REMOVE_LIB_SUFFIXES = [''.a'', ''.lib'', ''.pdb'']"

definition drop_from_bin :: "string \<Rightarrow> bool" where
  "drop_from_bin name =
     (if ends_with ''.exe'' (lower name) then \<not> list_ex (\<lambda>keep. lower keep = lower name) KEEP_EXECUTABLES
      else if ends_with ''.dll'' (lower name) then starts_with ''wx'' (lower name) else False)"

definition drop_from_lib :: "string \<Rightarrow> bool" where
  "drop_from_lib name =
     (list_ex (\<lambda>sfx. ends_with sfx (lower name)) REMOVE_LIB_SUFFIXES
      \<or> ends_with ''.dll'' (lower name) \<and> starts_with ''wx'' (lower name))"

definition remove_subdir :: "outside \<Rightarrow> string \<Rightarrow> string \<Rightarrow> unit tool" where
  "remove_subdir E pg_dir relative =
     (let path = path_join pg_dir relative in
      andthen (ask (\<lambda>h. o_exists E h path)) (\<lambda>there.
      if there then perform E (RemoveDirAll path) else ret ()))"

definition trim_bin_entry :: "outside \<Rightarrow> string \<Rightarrow> dir_entry \<Rightarrow> unit tool" where
  "trim_bin_entry E bin entry =
     andthen (need entry (ListingFailed bin)) (\<lambda>(name, _).
     if drop_from_bin name then perform E (RemoveFile (path_join bin name)) else ret ())"

definition trim_lib_entry :: "outside \<Rightarrow> string \<Rightarrow> dir_entry \<Rightarrow> unit tool" where
  "trim_lib_entry E lib entry =
     andthen (need entry (ListingFailed lib)) (\<lambda>(name, is_file).
     andthen (need is_file (ListingFailed lib)) (\<lambda>is_file.
     if \<not> is_file then ret ()
     else if drop_from_lib name then perform E (RemoveFile (path_join lib name)) else ret ()))"

definition trim_dir :: "outside \<Rightarrow> (outside \<Rightarrow> string \<Rightarrow> dir_entry \<Rightarrow> unit tool) \<Rightarrow> string \<Rightarrow> unit tool" where
  "trim_dir E trim_entry dir =
     andthen (ask (\<lambda>h. o_is_dir E h dir)) (\<lambda>there.
     if \<not> there then ret ()
     else andthen (ask (\<lambda>h. o_entries E h dir)) (\<lambda>entries.
          andthen (need entries (ListingFailed dir)) (\<lambda>entries. each (trim_entry E dir) entries)))"

definition trim_distribution :: "outside \<Rightarrow> string \<Rightarrow> unit tool" where
  "trim_distribution E pg_dir =
     andthen (each (remove_subdir E pg_dir) REMOVE_SUBDIRS) (\<lambda>_.
     andthen (trim_dir E trim_bin_entry (path_join pg_dir ''bin'')) (\<lambda>_.
     trim_dir E trim_lib_entry (path_join pg_dir ''lib'')))"

definition initdb :: "outside \<Rightarrow> string \<Rightarrow> string \<Rightarrow> unit tool" where
  "initdb E pg_dir data_dir =
     (let initdb_exe = path_join (path_join pg_dir ''bin'') ''initdb.exe'' in
      andthen (ask (\<lambda>h. o_exists E h initdb_exe)) (\<lambda>there.
      andthen (when_ok there (NotFound initdb_exe)) (\<lambda>_.
      run_checked E initdb_exe [''-D'', data_dir, ''--username='' @ DEFAULT_SUPERUSER, ''--auth-host=trust'',
        ''--auth-local=trust'', ''--encoding=UTF8'', ''--locale=C'', ''--no-instructions''] [])))"

definition box_rule :: "nat \<Rightarrow> string" where
  "box_rule n = concat (replicate n [CHR 0xE2, CHR 0x94, CHR 0x80])"

definition quoted :: "string \<Rightarrow> string" where
  "quoted s = CHR 0x27 # s @ [CHR 0x27]"

definition pg_overrides :: string where
  "pg_overrides = unlines [[],
     ''# '' @ box_rule 2 @ '' server bundled-Postgres overrides '' @ box_rule 26,
     ''port = '' @ dec DEFAULT_PORT,
     ''listen_addresses = '' @ quoted ''127.0.0.1'',
     ''unix_socket_directories = '' @ quoted [],
     ''max_connections = 400'',
     ''shared_buffers = 128MB'',
     ''dynamic_shared_memory_type = windows'',
     ''log_destination = '' @ quoted ''stderr'',
     ''logging_collector = off'',
     ''log_min_messages = warning'',
     ''log_min_error_statement = error'']"

definition pg_hba :: string where
  "pg_hba = unlines [
     ''# server bundled-Postgres authentication'',
     ''# Loopback-only; trust auth is safe because the listener is bound to'',
     ''# 127.0.0.1 with no Unix socket exposed to other local users.'',
     ''host all all 127.0.0.1/32 trust'',
     ''host all all ::1/128       trust'']"

definition configure_postgres :: "outside \<Rightarrow> string \<Rightarrow> unit tool" where
  "configure_postgres E data_dir =
     (let conf_path = path_join data_dir ''postgresql.conf''; hba_path = path_join data_dir ''pg_hba.conf'' in
      andthen (ask (\<lambda>h. o_read E h conf_path)) (\<lambda>contents.
      andthen (need contents (ReadingFailed conf_path)) (\<lambda>existing.
      andthen (perform E (WriteFile conf_path (existing @ pg_overrides))) (\<lambda>_.
      perform E (WriteFile hba_path pg_hba)))))"

definition create_database :: "outside \<Rightarrow> string \<Rightarrow> string \<Rightarrow> string \<Rightarrow> unit tool" where
  "create_database E pg_dir data_dir db_name =
     run_single_user_sql E (postgres_exe pg_dir) data_dir ''postgres'' [create_database_sql db_name]"

definition create_meta_schema :: "outside \<Rightarrow> string \<Rightarrow> string \<Rightarrow> string \<Rightarrow> string \<Rightarrow> unit tool" where
  "create_meta_schema E pg_dir data_dir db_name schema_name =
     run_single_user_sql E (postgres_exe pg_dir) data_dir db_name [schema_statement schema_name]"

text \<open>\<open>run\<close> of \<open>bootstrap\<close>: the steps on the verified archive, the steps in the scratch directory, all.\<close>

definition prepare_cluster :: "outside \<Rightarrow> string \<Rightarrow> string \<Rightarrow> string \<Rightarrow> string \<Rightarrow> unit tool" where
  "prepare_cluster E pg_dir cluster temp zip_path =
     (let extract_dir = path_join temp ''extracted''; extracted_pgsql = path_join extract_dir ''pgsql'' in
      andthen (perform E (CreateDirAll extract_dir)) (\<lambda>_.
      andthen (extract_zip E zip_path extract_dir) (\<lambda>_.
      andthen (ask (\<lambda>h. o_exists E h extracted_pgsql)) (\<lambda>there.
      andthen (when_ok there (NotFound extracted_pgsql)) (\<lambda>_.
      andthen (perform E (RenamePath extracted_pgsql pg_dir)) (\<lambda>_.
      andthen (trim_distribution E pg_dir) (\<lambda>_.
      andthen (initdb E pg_dir cluster) (\<lambda>_.
      configure_postgres E cluster))))))))"

definition install :: "outside \<Rightarrow> string \<Rightarrow> string \<Rightarrow> string \<Rightarrow> string \<Rightarrow> unit tool" where
  "install E pg_dir cluster temp zip_path =
     andthen (prepare_cluster E pg_dir cluster temp zip_path) (\<lambda>_.
     andthen (create_database E pg_dir cluster DEFAULT_DATABASE) (\<lambda>_.
     create_meta_schema E pg_dir cluster DEFAULT_DATABASE META_SCHEMA))"

definition fetch_and_install :: "outside \<Rightarrow> string \<Rightarrow> string \<Rightarrow> string \<Rightarrow> unit tool" where
  "fetch_and_install E pg_dir cluster temp =
     (let zip_path = path_join temp ''postgres.zip'' in
      andthen (download E POSTGRES_DOWNLOAD_URL zip_path) (\<lambda>_.
      andthen (compute_sha256 E zip_path) (\<lambda>hash.
      andthen (when_ok (EXPECTED_SHA256 = [] \<or> lower hash = lower EXPECTED_SHA256) (HashMismatch hash)) (\<lambda>_.
      install E pg_dir cluster temp zip_path))))"

definition setup_run :: "outside \<Rightarrow> string \<Rightarrow> string \<Rightarrow> unit tool" where
  "setup_run E workspace temp =
     (let data_dir = path_join workspace ''data''; pg_dir = path_join data_dir ''postgres'';
          cluster = path_join data_dir ''postgres-data'' in
      andthen (ask (\<lambda>h. o_exists E h pg_dir \<and> o_exists E h cluster)) (\<lambda>set_up.
      if set_up then ret ()
      else andthen (perform E (CreateDirAll data_dir)) (\<lambda>_.
           andthen (perform E (CreateDirAll temp)) (\<lambda>_.
           with_drop E (RemoveDirAll temp) (fetch_and_install E pg_dir cluster temp)))))"

section \<open>clean\<close>

definition read_postmaster_pid :: "string option \<Rightarrow> nat option" where
  "read_postmaster_pid contents =
     (case contents of None \<Rightarrow> None
      | Some s \<Rightarrow> (case lines s of [] \<Rightarrow> None | l # _ \<Rightarrow> parse_unsigned (2 ^ 32) (trim l)))"

text \<open>\<open>false\<close> on any failure of \<open>tasklist\<close>.\<close>

definition pid_is_running :: "outside \<Rightarrow> nat \<Rightarrow> trace \<Rightarrow> bool \<times> trace" where
  "pid_is_running E pid h =
     (case run_program E ''tasklist.exe'' [''/FI'', ''PID eq '' @ dec pid, ''/NH'', ''/FO'', ''CSV''] [] h of
        (Inr (True, stdout), h') \<Rightarrow> (trim stdout \<noteq> [] \<and> \<not> contains ''INFO:'' stdout, h')
      | (_, h') \<Rightarrow> (False, h'))"

text \<open>
  The lock file: a running server refuses, a stale or unreadable lock is removed. \<open>clean\<close> and
  \<open>provision\<close> (\<open>refuse_if_postgres_running\<close>) have the same code.
\<close>

definition lock_check :: "outside \<Rightarrow> string \<Rightarrow> unit tool" where
  "lock_check E pid_file =
     andthen (ask (\<lambda>h. o_exists E h pid_file)) (\<lambda>there.
     if \<not> there then ret ()
     else andthen (ask (\<lambda>h. read_postmaster_pid (o_read E h pid_file))) (\<lambda>found.
       case found of
         Some pid \<Rightarrow>
           (\<lambda>h. case pid_is_running E pid h of
              (running, h') \<Rightarrow> if running then (Inl (PostgresRunning pid), h') else perform E (RemoveFile pid_file) h')
       | None \<Rightarrow> perform E (RemoveFile pid_file)))"

definition reset_statements :: "string \<Rightarrow> string list" where
  "reset_statements db_name =
     [''DROP DATABASE IF EXISTS '' @ quote_ident db_name @ '';'', create_database_sql db_name]"

definition reset_database :: "outside \<Rightarrow> string \<Rightarrow> string \<Rightarrow> string \<Rightarrow> unit tool" where
  "reset_database E pg_dir data_dir db_name =
     andthen (ask (\<lambda>h. o_exists E h (postgres_exe pg_dir))) (\<lambda>there.
     andthen (when_ok there (NotFound (postgres_exe pg_dir))) (\<lambda>_.
     andthen (run_single_user_sql E (postgres_exe pg_dir) data_dir ''postgres'' (reset_statements db_name)) (\<lambda>_.
     run_single_user_sql E (postgres_exe pg_dir) data_dir db_name [schema_statement META_SCHEMA])))"

text \<open>\<open>args\<close> are the arguments, \<open>input\<close> the line read from the console, if it can be read.\<close>

definition clean_run :: "outside \<Rightarrow> string \<Rightarrow> string list \<Rightarrow> string option \<Rightarrow> unit tool" where
  "clean_run E workspace args input =
     (let data_dir = path_join workspace ''data''; pg_dir = path_join data_dir ''postgres'';
          cluster = path_join data_dir ''postgres-data'' in
      andthen (ask (\<lambda>h. o_exists E h pg_dir \<and> o_exists E h cluster)) (\<lambda>set_up.
      andthen (when_ok set_up NotSetUp) (\<lambda>_.
      let auto_yes = list_ex (\<lambda>a. a = ''--yes'' \<or> a = ''-y'') args in
      andthen (lock_check E (path_join cluster ''postmaster.pid'')) (\<lambda>_.
      if auto_yes then reset_database E pg_dir cluster DEFAULT_DATABASE
      else andthen (need input NoInput) (\<lambda>line.
           if trim line \<noteq> ''yes'' then ret ()
           else reset_database E pg_dir cluster DEFAULT_DATABASE)))))"

text \<open>
  \<open>directory_size\<close> of \<open>bootstrap\<close>, on the tree that \<open>read_dir\<close> and \<open>metadata\<close> reveal: \<open>None\<close> is a
  directory that cannot be read, or an entry without metadata. The sum saturates at \<open>u64::MAX\<close>.
\<close>

datatype dir_tree = FileOf nat | DirOf "dir_tree list option" | NoMetadata

definition U64_MAX :: nat where "U64_MAX = 2 ^ 64 - 1"

definition saturating_add :: "nat \<Rightarrow> nat \<Rightarrow> nat" where
  "saturating_add a b = min U64_MAX (a + b)"

fun directory_size :: "dir_tree list option \<Rightarrow> nat option" and
    add_sizes :: "nat \<Rightarrow> dir_tree list \<Rightarrow> nat option" where
  "directory_size None = None"
| "directory_size (Some entries) = add_sizes 0 entries"
| "add_sizes acc [] = Some acc"
| "add_sizes acc (FileOf n # entries) = add_sizes (saturating_add acc n) entries"
| "add_sizes acc (DirOf sub # entries) =
     (case directory_size sub of None \<Rightarrow> None | Some n \<Rightarrow> add_sizes (saturating_add acc n) entries)"
| "add_sizes acc (NoMetadata # entries) = None"

section \<open>Quoted identifiers\<close>

text \<open>How SQL reads a quoted identifier: a doubled quote stands for one, a single one ends it.\<close>

fun read_quoted :: "string \<Rightarrow> string \<Rightarrow> (string \<times> string) option" where
  "read_quoted acc (c # rest) =
     (if c \<noteq> CHR 0x22 then read_quoted (acc @ [c]) rest
      else (case rest of d # rest' \<Rightarrow> if d = CHR 0x22 then read_quoted (acc @ [d]) rest' else Some (acc, rest)
            | [] \<Rightarrow> Some (acc, [])))"
| "read_quoted acc [] = None"

text \<open>
  A quoted identifier cannot break out of its statement: whatever the name, SQL reads exactly
  the name back from what \<open>quote_ident\<close> wrote and goes on behind it, unless another quote follows.
\<close>

theorem quote_ident_reads_back:
  assumes "rest = [] \<or> hd rest \<noteq> CHR 0x22"
  shows "\<exists>body. quote_ident s = CHR 0x22 # body \<and> read_quoted [] (body @ rest) = Some (s, rest)"
proof -
  let ?esc = "\<lambda>s. concat (map (\<lambda>ch. if ch = CHR 0x22 then [CHR 0x22, ch] else [ch]) s)"
  have "read_quoted acc (?esc s @ CHR 0x22 # rest) = Some (acc @ s, rest)" for acc
    using assms by (induction s arbitrary: acc) (auto split: list.splits)
  then show ?thesis by (simp add: quote_ident_def)
qed

theorem quote_ident_reads_back_witness:
  "\<exists>body. quote_ident [CHR ''a'', CHR 0x22, CHR '';''] = CHR 0x22 # body
     \<and> read_quoted [] (body @ '';'') = Some ([CHR ''a'', CHR 0x22, CHR '';''], '';'')"
  by (rule quote_ident_reads_back) simp


section \<open>The size of a directory\<close>

text \<open>The sizes of all files below, in order; nothing if anything below cannot be read.\<close>

fun file_sizes :: "dir_tree list option \<Rightarrow> nat list option" and
    entry_sizes :: "dir_tree list \<Rightarrow> nat list option" where
  "file_sizes None = None"
| "file_sizes (Some entries) = entry_sizes entries"
| "entry_sizes [] = Some []"
| "entry_sizes (FileOf n # entries) = map_option (Cons n) (entry_sizes entries)"
| "entry_sizes (DirOf sub # entries) =
     (case (file_sizes sub, entry_sizes entries) of (Some ms, Some ns) \<Rightarrow> Some (ms @ ns) | _ \<Rightarrow> None)"
| "entry_sizes (NoMetadata # entries) = None"

lemma saturating_add_min: "saturating_add (min U64_MAX a) b = min U64_MAX (a + b)"
  "saturating_add (min U64_MAX a) (min U64_MAX b) = min U64_MAX (a + b)"
  "min U64_MAX (a + min U64_MAX b) = min U64_MAX (a + b)"
  by (auto simp: saturating_add_def min_def)

text \<open>
  C40. The saturating recursion of \<open>directory_size\<close> computes what it should: it fails exactly when
  some directory or entry below cannot be read, and otherwise is the sum of the sizes of all
  files below, capped at the largest 64-bit number.
\<close>

theorem directory_size_is_sum:
  "directory_size tree = map_option (\<lambda>ns. min U64_MAX (sum_list ns)) (file_sizes tree)"
proof -
  have "directory_size tree = map_option (\<lambda>ns. min U64_MAX (sum_list ns)) (file_sizes tree)"
    and "acc = min U64_MAX a \<Longrightarrow>
      add_sizes acc entries = map_option (\<lambda>ns. min U64_MAX (a + sum_list ns)) (entry_sizes entries)" for acc a entries
  proof (induction tree and acc entries arbitrary: and a rule: directory_size_add_sizes.induct)
    case (2 entries)
    show ?case using 2 [of 0] by simp
  next
    case (4 acc n entries)
    show ?case using 4(1) [of "a + n"] 4(2) by (simp add: saturating_add_min option.map_comp comp_def add.assoc)
  next
    case (5 acc sub entries)
    show ?case
    proof (cases "file_sizes sub")
      case (Some ms)
      then have "directory_size sub = Some (min U64_MAX (sum_list ms))" using 5(1) by simp
      with 5(2) [OF this, of "a + sum_list ms"] 5(3) Some show ?thesis
        by (simp add: saturating_add_min option.map_comp comp_def add.assoc split: option.splits)
    qed (use 5(1) in simp)
  qed simp_all
  then show ?thesis by blast
qed

section \<open>Only the pinned archive\<close>

lemma run_checked_Inr: "run_checked E p args stdin h = (Inr u, h') \<Longrightarrow> h' = h @ [(RunProgram p args stdin, True)]"
  by (auto simp: run_checked_def run_program_def Let_def elim!: andthen_eq_InrE split: program_end.splits if_splits)

lemma run_checked_Inl: "run_checked E p args stdin h = (Inl e, h') \<Longrightarrow> \<exists>b. h' = h @ [(RunProgram p args stdin, b)]"
  by (auto simp: run_checked_def run_program_def Let_def elim!: andthen_cases split: program_end.splits if_splits)

lemma compute_sha256_cases:
  assumes "compute_sha256 E path h = (r, h')"
  shows "\<exists>b. h' = h @ [(RunProgram ''certutil.exe'' [''-hashfile'', path, ''SHA256''] [], b)]"
    and "r = Inr hash \<Longrightarrow> \<exists>stdout. o_program E h ''certutil.exe'' [''-hashfile'', path, ''SHA256''] [] = Exited True stdout
      \<and> sha256_of_output stdout = Inr hash"
  using assms
  by (auto simp: compute_sha256_def run_program_def Let_def elim!: andthen_cases split: program_end.splits if_splits)

lemma sha256_of_output_lower: "sha256_of_output stdout = Inr hash \<Longrightarrow> lower hash = hash"
  by (auto simp: sha256_of_output_def Let_def split: option.splits if_splits)

lemma expected_lower: "lower EXPECTED_SHA256 = EXPECTED_SHA256" "EXPECTED_SHA256 \<noteq> []"
  unfolding EXPECTED_SHA256_def by code_simp+

lemma tool_grows:
  "grows (run_single_user_sql E exe d db sts)" "grows (trim_distribution E pg_dir)" "grows (initdb E pg_dir cluster)"
  "grows (configure_postgres E cluster)" "grows (prepare_cluster E pg_dir cluster temp zip_path)" "grows (install E pg_dir cluster temp zip_path)"
proof -
  show sql: "grows (run_single_user_sql E exe d db sts)" for exe d db sts
    unfolding run_single_user_sql_def by (intro grows_rules)
  show trim: "grows (trim_distribution E pg_dir)"
    unfolding trim_distribution_def trim_dir_def trim_bin_entry_def trim_lib_entry_def remove_subdir_def Let_def
    by (intro grows_rules)
  show init: "grows (initdb E pg_dir cluster)" and conf: "grows (configure_postgres E cluster)"
    unfolding initdb_def configure_postgres_def Let_def by (intro grows_rules)+
  show prep: "grows (prepare_cluster E pg_dir cluster temp zip_path)"
    unfolding prepare_cluster_def extract_zip_def Let_def by (intro grows_rules trim init conf)
  show "grows (install E pg_dir cluster temp zip_path)"
    unfolding install_def create_database_def create_meta_schema_def by (intro grows_rules sql prep)
qed

text \<open>What may happen before the archive is known to be the pinned one.\<close>

definition preparatory :: "string \<Rightarrow> string \<Rightarrow> effect \<Rightarrow> bool" where
  "preparatory workspace temp eff \<longleftrightarrow>
     eff \<in> {CreateDirAll (path_join workspace ''data''), CreateDirAll temp, RemoveDirAll temp,
       RunProgram ''curl.exe'' [''-L'', ''--fail'', ''--progress-bar'', ''-o'', path_join temp ''postgres.zip'', POSTGRES_DOWNLOAD_URL] [],
       RunProgram ''certutil.exe'' [''-hashfile'', path_join temp ''postgres.zip'', ''SHA256''] []}"

definition archive_pinned :: "outside \<Rightarrow> trace \<Rightarrow> string \<Rightarrow> bool" where
  "archive_pinned E h path \<longleftrightarrow> (\<exists>stdout. o_program E h ''certutil.exe'' [''-hashfile'', path, ''SHA256''] [] = Exited True stdout
     \<and> sha256_of_output stdout = Inr EXPECTED_SHA256)"

text \<open>The marks of a run: where it installs, when there is nothing to do, whether its scratch directory could be made.\<close>

definition pg_dir_of :: "string \<Rightarrow> string" where
  "pg_dir_of workspace = path_join (path_join workspace ''data'') ''postgres''"

definition cluster_of :: "string \<Rightarrow> string" where
  "cluster_of workspace = path_join (path_join workspace ''data'') ''postgres-data''"

definition already_set_up :: "outside \<Rightarrow> string \<Rightarrow> bool" where
  "already_set_up E workspace \<longleftrightarrow> o_exists E [] (pg_dir_of workspace) \<and> o_exists E [] (cluster_of workspace)"

definition scratch_made :: "outside \<Rightarrow> string \<Rightarrow> string \<Rightarrow> bool" where
  "scratch_made E workspace temp \<longleftrightarrow> o_succeeds E [] (CreateDirAll (path_join workspace ''data''))
     \<and> o_succeeds E [(CreateDirAll (path_join workspace ''data''), True)] (CreateDirAll temp)"

definition certutil_run :: "string \<Rightarrow> effect \<times> bool" where
  "certutil_run temp = (RunProgram ''certutil.exe'' [''-hashfile'', path_join temp ''postgres.zip'', ''SHA256''] [], True)"

definition database_created :: "string \<Rightarrow> string \<Rightarrow> effect" where
  "database_created pg_dir cluster =
     RunProgram (postgres_exe pg_dir) [''--single'', ''-D'', cluster, ''postgres''] (unlines [create_database_sql DEFAULT_DATABASE])"

definition schema_created :: "string \<Rightarrow> string \<Rightarrow> effect" where
  "schema_created pg_dir cluster =
     RunProgram (postgres_exe pg_dir) [''--single'', ''-D'', cluster, DEFAULT_DATABASE] (unlines [schema_statement META_SCHEMA])"

lemma setup_run_again:
  "o_exists E h (pg_dir_of workspace) \<Longrightarrow> o_exists E h (cluster_of workspace) \<Longrightarrow> setup_run E workspace temp h = (Inr (), h)"
  by (simp add: setup_run_def Let_def andthen_def ask_def pg_dir_of_def cluster_of_def)

lemma setup_run_steps:
  assumes "\<not> already_set_up E workspace" and "scratch_made E workspace temp"
  shows "setup_run E workspace temp [] = with_drop E (RemoveDirAll temp)
      (fetch_and_install E (pg_dir_of workspace) (cluster_of workspace) temp)
      [(CreateDirAll (path_join workspace ''data''), True), (CreateDirAll temp, True)]"
  using assms
  by (auto simp: setup_run_def Let_def andthen_def ask_def perform_def already_set_up_def scratch_made_def pg_dir_of_def cluster_of_def)

lemma setup_run_cases:
  assumes "setup_run E workspace temp [] = (r, h)" and "\<not> already_set_up E workspace"
  obtains (dirs) "r \<noteq> Inr ()" and "\<forall>(eff, b) \<in> set h. preparatory workspace temp eff" and "\<not> scratch_made E workspace temp"
  | (steps) h' b where "fetch_and_install E (pg_dir_of workspace) (cluster_of workspace) temp
        [(CreateDirAll (path_join workspace ''data''), True), (CreateDirAll temp, True)] = (r, h')"
      and "h = h' @ [(RemoveDirAll temp, b)]"
  using assms
  by (auto simp: setup_run_def Let_def andthen_def ask_def perform_def with_drop_def preparatory_def
      already_set_up_def scratch_made_def pg_dir_of_def cluster_of_def split: if_splits prod.splits)

lemma fetch_and_install_cases:
  assumes "fetch_and_install E pg_dir cluster temp h = (r, h')"
  obtains (early) e t where "r = Inl e" and "h' = h @ t" and "\<forall>(eff, b) \<in> set t. preparatory workspace temp eff"
  | (pinned) t where "\<forall>(eff, b) \<in> set t. preparatory workspace temp eff"
      and "archive_pinned E (h @ t) (path_join temp ''postgres.zip'')"
      and "install E pg_dir cluster temp (path_join temp ''postgres.zip'')
        (h @ t @ [certutil_run temp]) = (r, h')"
  using assms unfolding fetch_and_install_def Let_def
proof (cases rule: andthen_cases)
  case (stop e)
  then show thesis
    using early run_checked_Inl unfolding download_def by (fastforce simp: preparatory_def)
next
  case (go u h1)
  let ?curl = "(RunProgram ''curl.exe'' [''-L'', ''--fail'', ''--progress-bar'', ''-o'', path_join temp ''postgres.zip'',
      POSTGRES_DOWNLOAD_URL] [], True)"
  from go have h1: "h1 = h @ [?curl]" by (auto simp: download_def dest: run_checked_Inr)
  have curl: "\<forall>(eff, b) \<in> set [?curl]. preparatory workspace temp eff" by (simp add: preparatory_def)
  from go(2) show thesis
  proof (cases rule: andthen_cases)
    case (stop e)
    with compute_sha256_cases(1) [OF stop(1)] h1 show thesis using early by (auto simp: preparatory_def)
  next
    case (go hash h2)
    note digest = compute_sha256_cases(2) [OF go(1) refl]
    then have h2: "h2 = h1 @ [certutil_run temp]" using go(1)
      by (auto simp: certutil_run_def compute_sha256_def run_program_def andthen_def)
    show thesis
    proof (cases "EXPECTED_SHA256 = [] \<or> lower hash = lower EXPECTED_SHA256")
      case True
      then have "archive_pinned E h1 (path_join temp ''postgres.zip'')"
        using digest sha256_of_output_lower expected_lower by (auto simp: archive_pinned_def)
      moreover have "install E pg_dir cluster temp (path_join temp ''postgres.zip'') h2 = (r, h')"
        using True go(2) by (auto simp: andthen_def)
      ultimately show thesis using pinned [OF curl] h1 h2 by simp
    next
      case False
      with go(2) have "r = Inl (HashMismatch hash)" "h' = h2" by (auto simp: andthen_def)
      then show thesis using early h1 h2 by (auto simp: preparatory_def certutil_run_def)
    qed
  qed
qed

lemma install_Inr:
  assumes "install E pg_dir cluster temp zip_path h = (Inr (), h')"
  shows "(database_created pg_dir cluster, True) \<in> set h'" and "(schema_created pg_dir cluster, True) \<in> set h'"
proof -
  have "(database_created pg_dir cluster, True) \<in> set h' \<and> (schema_created pg_dir cluster, True) \<in> set h'"
    using assms
    unfolding install_def create_database_def create_meta_schema_def run_single_user_sql_def database_created_def schema_created_def
    by (auto elim!: andthen_eq_InrE dest!: run_checked_Inr)
  then show "(database_created pg_dir cluster, True) \<in> set h'" and "(schema_created pg_dir cluster, True) \<in> set h'" by blast+
qed

text \<open>
  C28. \<open>bootstrap\<close> lets nothing of the download run unless it is the pinned archive: whatever the
  machine answers, the run does nothing but create its directories, download, hash and clean
  up, or it does nothing else until \<open>certutil\<close> has printed the pinned SHA-256 for the downloaded
  file. On a machine that is set up it does nothing; otherwise it removes its scratch directory
  last whenever it could make one, and when it reports success, PostgreSQL ran the statements that create
  the database and the meta schema, both successfully.
\<close>

theorem setup_installs_pinned_archive:
  assumes "setup_run E workspace temp [] = (r, h)"
  shows "((\<forall>(eff, b) \<in> set h. preparatory workspace temp eff)
      \<or> (\<exists>hist rest. h = hist @ rest \<and> (\<forall>(eff, b) \<in> set hist. preparatory workspace temp eff)
           \<and> archive_pinned E hist (path_join temp ''postgres.zip'')))
    \<and> (already_set_up E workspace \<longrightarrow> r = Inr () \<and> h = [])
    \<and> (\<not> already_set_up E workspace \<and> scratch_made E workspace temp \<longrightarrow> fst (last h) = RemoveDirAll temp)
    \<and> (\<not> already_set_up E workspace \<and> r = Inr () \<longrightarrow>
        (database_created (pg_dir_of workspace) (cluster_of workspace), True) \<in> set h
        \<and> (schema_created (pg_dir_of workspace) (cluster_of workspace), True) \<in> set h)"
proof (cases "already_set_up E workspace")
  case True
  then show ?thesis using assms
    by (simp add: setup_run_def already_set_up_def pg_dir_of_def cluster_of_def Let_def andthen_def ask_def)
next
  case False
  let ?h = "[(CreateDirAll (path_join workspace ''data''), True), (CreateDirAll temp, True)]"
  have dirs: "\<forall>(eff, b) \<in> set ?h. preparatory workspace temp eff" by (simp add: preparatory_def)
  consider (dirs) "r \<noteq> Inr ()" "\<forall>(eff, b) \<in> set h. preparatory workspace temp eff" "\<not> scratch_made E workspace temp"
    | (steps) h' b where "fetch_and_install E (pg_dir_of workspace) (cluster_of workspace) temp ?h = (r, h')"
        "h = h' @ [(RemoveDirAll temp, b)]"
    using assms False by (rule setup_run_cases)
  then show ?thesis
  proof cases
    case steps
    from steps(1) show ?thesis
    proof (cases rule: fetch_and_install_cases [where workspace = workspace])
      case (early e t)
      then show ?thesis using steps(2) False dirs by (auto simp: preparatory_def)
    next
      case (pinned t)
      obtain t' where "h' = (?h @ t @ [certutil_run temp]) @ t'" using growsD [OF tool_grows(6) pinned(3)] by blast
      then have "h = (?h @ t) @ certutil_run temp # t' @ [(RemoveDirAll temp, b)]" using steps(2) by simp
      moreover have "\<forall>(eff, b) \<in> set (?h @ t). preparatory workspace temp eff" using dirs pinned(1) by auto
      moreover have "r = Inr () \<Longrightarrow> (database_created (pg_dir_of workspace) (cluster_of workspace), True) \<in> set h
          \<and> (schema_created (pg_dir_of workspace) (cluster_of workspace), True) \<in> set h"
        using install_Inr pinned(3) steps(2) by auto
      moreover have "fst (last h) = RemoveDirAll temp" using steps(2) by simp
      ultimately show ?thesis using pinned(2) False by blast
    qed
  qed (use False in auto)
qed

text \<open>
  A machine for closed examples: everything works, the directories appear with their steps, and
  \<open>sql_works\<close> says whether \<open>postgres --single\<close> succeeds.
\<close>

definition demo_machine :: "bool \<Rightarrow> outside" where
  "demo_machine sql_works = \<lparr>
     o_exists = \<lambda>h p.
       if p = pg_dir_of ''w'' then list_ex (\<lambda>(eff, b). case eff of RenamePath _ to \<Rightarrow> b | _ \<Rightarrow> False) h
       else if p = cluster_of ''w''
       then list_ex (\<lambda>(eff, b). case eff of RunProgram exe _ _ \<Rightarrow> b \<and> ends_with ''initdb.exe'' exe | _ \<Rightarrow> False) h
       else ends_with ''initdb.exe'' p \<or> ends_with ''pgsql'' p,
     o_is_dir = \<lambda>_ _. False, o_read = \<lambda>_ _. Some [], o_entries = \<lambda>_ _. None, o_succeeds = \<lambda>_ _. True,
     o_program = \<lambda>_ exe _ _.
       if ends_with ''certutil.exe'' exe then Exited True EXPECTED_SHA256
       else Exited (ends_with ''postgres.exe'' exe \<longrightarrow> sql_works) [] \<rparr>"

lemma pinned_output: "sha256_of_output EXPECTED_SHA256 = Inr EXPECTED_SHA256"
proof -
  have "lines EXPECTED_SHA256 = [EXPECTED_SHA256]" "trim EXPECTED_SHA256 = EXPECTED_SHA256"
    "without_white EXPECTED_SHA256 = EXPECTED_SHA256" "list_all is_ascii_hexdigit EXPECTED_SHA256"
    "length EXPECTED_SHA256 = 64" "\<not> starts_with ''SHA256'' EXPECTED_SHA256" "\<not> starts_with ''CertUtil'' EXPECTED_SHA256"
    by code_simp+
  then show ?thesis using expected_lower by (simp add: sha256_of_output_def)
qed

lemma demo_paths: "pg_dir_of ''w'' = ''w/data/postgres''" "cluster_of ''w'' = ''w/data/postgres-data''"
  by code_simp+

lemmas demo_steps = demo_machine_def andthen_def ask_def perform_def run_checked_def run_program_def Let_def ends_with_def
  demo_paths path_join_def

lemma demo_compute: "compute_sha256 (demo_machine b) path h = (Inr EXPECTED_SHA256,
    h @ [(RunProgram ''certutil.exe'' [''-hashfile'', path, ''SHA256''] [], True)])"
  by (simp add: compute_sha256_def pinned_output demo_steps)

lemma demo_download: "download (demo_machine b) url path h = (Inr (),
    h @ [(RunProgram ''curl.exe'' [''-L'', ''--fail'', ''--progress-bar'', ''-o'', path, url] [], True)])"
  by (simp add: download_def demo_steps)

lemma demo_trim: "trim_distribution (demo_machine b) (pg_dir_of ''w'') h = (Inr (), h)"
  by (simp add: trim_distribution_def trim_dir_def remove_subdir_def REMOVE_SUBDIRS_def demo_steps)

lemma demo_prepare:
  "\<exists>t. prepare_cluster (demo_machine b) (pg_dir_of ''w'') (cluster_of ''w'') ''t'' zip_path h = (Inr (), h @ t)
     \<and> o_exists (demo_machine b) (h @ t @ t') (pg_dir_of ''w'') \<and> o_exists (demo_machine b) (h @ t @ t') (cluster_of ''w'')
     \<and> (database_created (pg_dir_of ''w'') (cluster_of ''w''), True) \<notin> set t"
proof -
  define exe where "exe = path_join (path_join (pg_dir_of ''w'') ''bin'') ''initdb.exe''"
  have init: "\<exists>args. initdb (demo_machine b) (pg_dir_of ''w'') (cluster_of ''w'') h = (Inr (), h @ [(RunProgram exe args [], True)])" for h
    by (simp add: initdb_def exe_def demo_steps)
  have conf: "\<exists>x y. configure_postgres (demo_machine b) (cluster_of ''w'') h = (Inr (), h @ [(WriteFile x pg_overrides, True), (WriteFile y pg_hba, True)])" for h
    by (simp add: configure_postgres_def demo_steps)
  have exe: "ends_with ''initdb.exe'' exe" "postgres_exe (pg_dir_of ''w'') \<noteq> ''tar.exe''" "postgres_exe (pg_dir_of ''w'') \<noteq> exe"
    by (simp_all add: exe_def demo_steps postgres_exe_def)
  define h1 where "h1 = h @ [(CreateDirAll (path_join ''t'' ''extracted''), True),
    (RunProgram ''tar.exe'' [''-xf'', zip_path, ''-C'', path_join ''t'' ''extracted''] [], True),
    (RenamePath (path_join (path_join ''t'' ''extracted'') ''pgsql'') (pg_dir_of ''w''), True)]"
  obtain args where init: "initdb (demo_machine b) (pg_dir_of ''w'') (cluster_of ''w'') h1 = (Inr (), h1 @ [(RunProgram exe args [], True)])"
    using init by blast
  obtain x y where conf: "configure_postgres (demo_machine b) (cluster_of ''w'') (h1 @ [(RunProgram exe args [], True)])
      = (Inr (), (h1 @ [(RunProgram exe args [], True)]) @ [(WriteFile x pg_overrides, True), (WriteFile y pg_hba, True)])"
    using conf by blast
  have moved: "prepare_cluster (demo_machine b) (pg_dir_of ''w'') (cluster_of ''w'') ''t'' zip_path h
      = andthen (trim_distribution (demo_machine b) (pg_dir_of ''w'')) (\<lambda>_.
        andthen (initdb (demo_machine b) (pg_dir_of ''w'') (cluster_of ''w'')) (\<lambda>_. configure_postgres (demo_machine b) (cluster_of ''w''))) h1"
    by (simp add: prepare_cluster_def extract_zip_def demo_steps h1_def)
  show ?thesis
    unfolding moved using exe
    by (simp add: andthen_def demo_trim init conf, simp add: h1_def database_created_def demo_machine_def demo_paths)
qed

lemma demo_sql: "run_single_user_sql (demo_machine b) (postgres_exe (pg_dir_of ''w'')) cluster db sts h
    = (if b then Inr () else Inl (BadStatus (postgres_exe (pg_dir_of ''w''))),
       h @ [(RunProgram (postgres_exe (pg_dir_of ''w'')) [''--single'', ''-D'', cluster, db] (unlines sts), b)])"
  by (simp add: run_single_user_sql_def demo_steps postgres_exe_def)

lemma demo_setup:
  "\<exists>h. setup_run (demo_machine b) ''w'' ''t'' [] = (if b then Inr () else Inl (BadStatus (postgres_exe (pg_dir_of ''w''))), h)
     \<and> o_exists (demo_machine b) h (pg_dir_of ''w'') \<and> o_exists (demo_machine b) h (cluster_of ''w'')
     \<and> (\<not> b \<longrightarrow> (database_created (pg_dir_of ''w'') (cluster_of ''w''), True) \<notin> set h)"
proof -
  let ?E = "demo_machine b" and ?pg = "pg_dir_of ''w''" and ?cl = "cluster_of ''w''" and ?zip = "path_join ''t'' ''postgres.zip''"
  define h0 where "h0 = [(CreateDirAll (path_join ''w'' ''data''), True), (CreateDirAll ''t'', True),
    (RunProgram ''curl.exe'' [''-L'', ''--fail'', ''--progress-bar'', ''-o'', ?zip, POSTGRES_DOWNLOAD_URL] [], True),
    (RunProgram ''certutil.exe'' [''-hashfile'', ?zip, ''SHA256''] [], True)]"
  define sql where "sql = (if b then [(database_created ?pg ?cl, True), (schema_created ?pg ?cl, True)] else [(database_created ?pg ?cl, False)])"
  obtain t where prep: "prepare_cluster ?E ?pg ?cl ''t'' ?zip h0 = (Inr (), h0 @ t)"
    and there: "o_exists ?E (h0 @ t @ sql @ [(RemoveDirAll ''t'', True)]) ?pg" "o_exists ?E (h0 @ t @ sql @ [(RemoveDirAll ''t'', True)]) ?cl"
    and no_db: "(database_created ?pg ?cl, True) \<notin> set t"
    using demo_prepare [of b ?zip h0 "sql @ [(RemoveDirAll ''t'', True)]"] by blast
  have install: "install ?E ?pg ?cl ''t'' ?zip h0 = (if b then Inr () else Inl (BadStatus (postgres_exe ?pg)), h0 @ t @ sql)"
    by (simp add: install_def andthen_def prep create_database_def create_meta_schema_def demo_sql database_created_def schema_created_def sql_def)
  have "\<not> already_set_up ?E ''w''" "scratch_made ?E ''w'' ''t''"
    by (simp_all add: already_set_up_def scratch_made_def demo_machine_def)
  then have run: "setup_run ?E ''w'' ''t'' [] = with_drop ?E (RemoveDirAll ''t'') (fetch_and_install ?E ?pg ?cl ''t'') (take 2 h0)"
    unfolding h0_def by (simp add: setup_run_steps)
  have fetch: "fetch_and_install ?E ?pg ?cl ''t'' (take 2 h0) = install ?E ?pg ?cl ''t'' ?zip h0"
    by (simp add: fetch_and_install_def Let_def demo_download demo_compute andthen_def h0_def)
  have "setup_run ?E ''w'' ''t'' [] = (if b then Inr () else Inl (BadStatus (postgres_exe ?pg)), h0 @ t @ sql @ [(RemoveDirAll ''t'', True)])"
    by (simp add: run with_drop_def fetch install perform_def) (simp add: demo_machine_def)
  then show ?thesis using there no_db by (auto simp: h0_def sql_def database_created_def postgres_exe_def path_join_def demo_paths)
qed

theorem setup_installs_pinned_archive_witness:
  "\<exists>h. setup_run (demo_machine True) ''w'' ''t'' [] = (Inr (), h)
     \<and> (schema_created (pg_dir_of ''w'') (cluster_of ''w''), True) \<in> set h"
proof -
  obtain h where run: "setup_run (demo_machine True) ''w'' ''t'' [] = (Inr (), h)" using demo_setup [of True] by auto
  have "\<not> already_set_up (demo_machine True) ''w''" by (simp add: already_set_up_def demo_machine_def)
  with setup_installs_pinned_archive [OF run] run show ?thesis by blast
qed

text \<open>
  A setup that fails once its cluster exists is taken for complete: when creating the
  database fails, the run reports the failure, but the next run finds both directories, does
  nothing and reports success, though the database was never created.
\<close>

theorem interrupted_setup_passes:
  "\<exists>h. setup_run (demo_machine False) ''w'' ''t'' [] = (Inl (BadStatus (postgres_exe (pg_dir_of ''w''))), h)
     \<and> (database_created (pg_dir_of ''w'') (cluster_of ''w''), True) \<notin> set h
     \<and> setup_run (demo_machine False) ''w'' ''t'' h = (Inr (), h)"
  using demo_setup [of False] setup_run_again by simp blast

section \<open>Resetting the database\<close>

definition pid_file_of :: "string \<Rightarrow> string" where
  "pid_file_of workspace = path_join (cluster_of workspace) ''postmaster.pid''"

text \<open>The process of the lock file is in the list of \<open>tasklist\<close>.\<close>

definition server_alive :: "outside \<Rightarrow> string \<Rightarrow> nat \<Rightarrow> bool" where
  "server_alive E workspace pid \<longleftrightarrow>
     o_exists E [] (pid_file_of workspace) \<and> read_postmaster_pid (o_read E [] (pid_file_of workspace)) = Some pid
     \<and> fst (pid_is_running E pid [])"

definition confirmed :: "string list \<Rightarrow> string option \<Rightarrow> bool" where
  "confirmed args input \<longleftrightarrow> ''--yes'' \<in> set args \<or> ''-y'' \<in> set args \<or> (\<exists>line. input = Some line \<and> trim line = ''yes'')"

definition lock_effect :: "string \<Rightarrow> effect \<Rightarrow> bool" where
  "lock_effect workspace eff \<longleftrightarrow> eff = RemoveFile (pid_file_of workspace)
     \<or> (\<exists>pid. eff = RunProgram ''tasklist.exe'' [''/FI'', ''PID eq '' @ dec pid, ''/NH'', ''/FO'', ''CSV''] [])"

definition reset_run :: "string \<Rightarrow> string \<Rightarrow> effect" where
  "reset_run pg_dir cluster = RunProgram (postgres_exe pg_dir) [''--single'', ''-D'', cluster, ''postgres'']
     (unlines (reset_statements DEFAULT_DATABASE))"

lemma pid_is_running_trace:
  "pid_is_running E pid h = (b, h') \<Longrightarrow> fst (pid_is_running E pid h) = b \<and>
     (\<exists>ok. h' = h @ [(RunProgram ''tasklist.exe'' [''/FI'', ''PID eq '' @ dec pid, ''/NH'', ''/FO'', ''CSV''] [], ok)])"
  by (auto simp: pid_is_running_def run_program_def Let_def split: program_end.splits bool.splits)

lemma lock_check_cases:
  assumes "lock_check E (pid_file_of workspace) [] = (r, h)"
  shows "\<forall>(eff, b) \<in> set h. lock_effect workspace eff"
    and "r = Inr () \<Longrightarrow> \<not> server_alive E workspace pid"
    and "server_alive E workspace pid \<Longrightarrow> r = Inl (PostgresRunning pid) \<and> (\<forall>(eff, b) \<in> set h. eff \<noteq> RemoveFile (pid_file_of workspace))"
  using assms
  by (auto simp: lock_check_def andthen_def ask_def perform_def server_alive_def lock_effect_def
      split: if_splits option.splits prod.splits dest!: pid_is_running_trace)

lemma reset_database_Inr:
  assumes "reset_database E pg_dir cluster DEFAULT_DATABASE h = (Inr (), h')"
  shows "h' = h @ [(reset_run pg_dir cluster, True), (schema_created pg_dir cluster, True)]"
  using assms
  by (auto simp: reset_database_def run_single_user_sql_def reset_run_def schema_created_def ask_def
      elim!: andthen_eq_InrE dest!: run_checked_Inr split: if_splits)

text \<open>
  C29. \<open>clean\<close> destroys data only when it may: beyond asking for the server's process and removing
  a stale lock it does nothing, unless PostgreSQL is set up, no server runs on the cluster and
  the operator confirmed, by flag or by typing \<open>yes\<close>. A running server is refused with its process
  id and keeps its lock; a confirmed run that reports success ends with the reset of the database and
  the creation of the meta schema, both successful.
\<close>

theorem clean_needs_consent:
  assumes "clean_run E workspace args input [] = (r, h)"
  shows "((\<forall>(eff, b) \<in> set h. lock_effect workspace eff)
      \<or> already_set_up E workspace \<and> (\<forall>pid. \<not> server_alive E workspace pid) \<and> confirmed args input)
    \<and> (\<not> already_set_up E workspace \<longrightarrow> r = Inl NotSetUp \<and> h = [])
    \<and> (already_set_up E workspace \<and> server_alive E workspace pid \<longrightarrow>
        r = Inl (PostgresRunning pid) \<and> (\<forall>(eff, b) \<in> set h. eff \<noteq> RemoveFile (pid_file_of workspace)))
    \<and> (r = Inr () \<and> confirmed args input \<longrightarrow>
        (\<exists>t. h = t @ [(reset_run (pg_dir_of workspace) (cluster_of workspace), True),
                      (schema_created (pg_dir_of workspace) (cluster_of workspace), True)]))"
proof (cases "already_set_up E workspace")
  case False
  then show ?thesis using assms
    by (auto simp: clean_run_def already_set_up_def pg_dir_of_def cluster_of_def Let_def andthen_def ask_def split: if_splits)
next
  case True
  obtain r1 h1 where lock: "lock_check E (pid_file_of workspace) [] = (r1, h1)" by fastforce
  note locked = lock_check_cases [OF lock]
  have run: "clean_run E workspace args input [] =
      (case r1 of Inl e \<Rightarrow> (Inl e, h1)
       | Inr _ \<Rightarrow> if confirmed args input then reset_database E (pg_dir_of workspace) (cluster_of workspace) DEFAULT_DATABASE h1
                else (if input = None then Inl NoInput else Inr (), h1))"
    using True lock
    by (auto simp: clean_run_def already_set_up_def pg_dir_of_def cluster_of_def pid_file_of_def Let_def andthen_def ask_def
        confirmed_def list_ex_iff split: sum.splits option.splits)
  show ?thesis
  proof (cases "r1 = Inr () \<and> confirmed args input")
    case confirmed: True
    have "r = Inr () \<Longrightarrow> h = h1 @ [(reset_run (pg_dir_of workspace) (cluster_of workspace), True),
        (schema_created (pg_dir_of workspace) (cluster_of workspace), True)]"
      using run assms confirmed by (intro reset_database_Inr) simp
    then show ?thesis using True confirmed locked(2,3) by auto
  next
    case False
    then have "h = h1" and "r = Inr () \<Longrightarrow> \<not> confirmed args input" and "server_alive E workspace pid \<Longrightarrow> r = r1"
      using run assms locked(2) by (auto split: sum.splits)
    then show ?thesis using True locked by blast
  qed
qed

text \<open>A machine that is set up and has an unreadable lock.\<close>

definition stale_machine :: outside where
  "stale_machine = (demo_machine True)\<lparr>o_exists := \<lambda>_ _. True, o_read := \<lambda>_ _. None\<rparr>"

theorem clean_needs_consent_witness:
  "\<exists>h. clean_run stale_machine ''w'' [''--yes''] None [] = (Inr (), h)
     \<and> (\<exists>t. h = t @ [(reset_run (pg_dir_of ''w'') (cluster_of ''w''), True), (schema_created (pg_dir_of ''w'') (cluster_of ''w''), True)])"
proof -
  have exe: "run_single_user_sql stale_machine (postgres_exe (pg_dir_of ''w'')) d db sts h
      = (Inr (), h @ [(RunProgram (postgres_exe (pg_dir_of ''w'')) [''--single'', ''-D'', d, db] (unlines sts), True)])" for d db sts h
    by (simp add: stale_machine_def run_single_user_sql_def demo_steps postgres_exe_def)
  have lock: "lock_check stale_machine p [] = (Inr (), [(RemoveFile p, True)])" for p
    by (simp add: stale_machine_def lock_check_def read_postmaster_pid_def demo_steps)
  have reset: "\<exists>h'. reset_database stale_machine (pg_dir_of ''w'') d db h = (Inr (), h')" for d db h
    by (simp add: reset_database_def andthen_def ask_def exe) (simp add: stale_machine_def)
  have "o_exists stale_machine h p" for h p by (simp add: stale_machine_def)
  then have "clean_run stale_machine ''w'' [''--yes''] None [] = reset_database stale_machine (pg_dir_of ''w'') (cluster_of ''w'')
      DEFAULT_DATABASE [(RemoveFile (path_join (cluster_of ''w'') ''postmaster.pid''), True)]"
    by (simp add: clean_run_def andthen_def ask_def Let_def lock pg_dir_of_def cluster_of_def)
  then obtain h where run: "clean_run stale_machine ''w'' [''--yes''] None [] = (Inr (), h)" using reset by fastforce
  show ?thesis using clean_needs_consent [OF run] run by (simp add: confirmed_def)
qed

end
