(* ===== verification/Process_Supervision.thy ===== *)
theory Process_Supervision
imports Operator_Tools Sql_Ready
begin

text \<open>
  The PostgreSQL child process of the server (\<open>server::postgres\<close>), the job object that ties it to the
  server process, and the two programs that supervise it: \<open>run_async\<close> of the server and \<open>run\<close> of
  \<open>provision\<close>. What the programs do is a list of events; the record \<open>server_machine\<close> answers how
  each call to the operating system ends. Times are in milliseconds and timers fire on time.
\<close>

section \<open>Events and the machine\<close>

datatype proc_event =
    JobCreated | JobConfigured | JobAssigned | HandleClosed
  | LogTruncated string
  | Spawned string "string list"
  | KillSent
  | ChildDropped
  | PgCtlStop string "string list"
  | Reaped
  | KilledAndReaped
  | Served

datatype child_poll = PollError | ChildExited string | StillRunning
datatype child_end = ExitedInTime | WaitError | NotInTime

record server_machine =
  sm_job_creates :: bool
  sm_job_configures :: bool
  sm_job_assigns :: bool
  sm_exists :: "string \<Rightarrow> bool"
  sm_log_opens :: bool
  sm_spawns :: bool
  sm_poll :: "nat \<Rightarrow> child_poll"
  sm_connects :: "nat \<Rightarrow> bool"
  sm_connect_time :: "nat \<Rightarrow> nat"
  sm_log :: "string option"
  sm_pg_ctl :: "bool option"   \<comment> \<open>its status, if it could be invoked\<close>
  sm_child_end :: child_end

type_synonym ('e, 'a) sup = "(proc_event list, 'e, 'a) prog"

definition emit :: "proc_event \<Rightarrow> ('e, unit) sup" where
  "emit ev h = (Inr (), h @ [ev])"

section \<open>The job object\<close>

datatype job_error = CreateJobObject | SetInformationJobObject | AssignProcessToJobObject

definition assign_current_process_for_kill_on_close :: "server_machine \<Rightarrow> (job_error, unit) sup" where
  "assign_current_process_for_kill_on_close M =
     andthen (when_ok (sm_job_creates M) CreateJobObject) (\<lambda>_.
     andthen (emit JobCreated) (\<lambda>_.
     if \<not> sm_job_configures M then andthen (emit HandleClosed) (\<lambda>_. throw SetInformationJobObject)
     else andthen (emit JobConfigured) (\<lambda>_.
     if \<not> sm_job_assigns M then andthen (emit HandleClosed) (\<lambda>_. throw AssignProcessToJobObject)
     else emit JobAssigned)))"

section \<open>The log of the child\<close>

text \<open>The tail of the PostgreSQL log that goes into error messages, cut at a character of UTF-8.\<close>

definition is_char_boundary :: "string \<Rightarrow> nat \<Rightarrow> bool" where
  "is_char_boundary s i \<longleftrightarrow> i = 0 \<or> i = length s \<or> i < length s \<and> \<not> (CHR 0x80 \<le> s ! i \<and> s ! i \<le> CHR 0xBF)"

definition read_log_tail :: "string option \<Rightarrow> nat \<Rightarrow> string" where
  "read_log_tail file max_bytes =
     (case file of None \<Rightarrow> []
      | Some contents \<Rightarrow>
          if length contents \<le> max_bytes then contents
          else let raw_start = length contents - max_bytes;
                   safe_start = (case find (is_char_boundary contents) [raw_start..<Suc (length contents)] of
                       Some i \<Rightarrow> i | None \<Rightarrow> length contents)
               in ''...(truncated)'' @ [CHR 0x0A] @ drop safe_start contents)"

definition tail_or_placeholder :: "string \<Rightarrow> string" where
  "tail_or_placeholder tail = (if tail = [] then ''(empty log)'' else tail)"

section \<open>Start and stop\<close>

definition READY_POLL_INTERVAL :: nat where "READY_POLL_INTERVAL = 500"
definition READY_TIMEOUT :: nat where "READY_TIMEOUT = 30000"
definition LOG_TAIL_BYTES :: nat where "LOG_TAIL_BYTES = 2048"

datatype listening = Ready | Polling | EarlyExit string string | TimedOut

text \<open>
  The loop \<open>wait_until_ready\<close> under \<open>timeout(READY_TIMEOUT, _)\<close>; \<open>elapsed\<close> is the time since the
  spawn, \<open>i\<close> numbers the attempts. The timeout strikes where the loop waits: in a connect or a sleep.
\<close>

function wait_listening :: "server_machine \<Rightarrow> nat \<Rightarrow> nat \<Rightarrow> listening" where
  "wait_listening M elapsed i =
     (case sm_poll M i of
        PollError \<Rightarrow> Polling
      | ChildExited status \<Rightarrow> EarlyExit status (tail_or_placeholder (read_log_tail (sm_log M) LOG_TAIL_BYTES))
      | StillRunning \<Rightarrow>
          (let connected = elapsed + sm_connect_time M i in
           if READY_TIMEOUT < connected then TimedOut
           else if sm_connects M i then Ready
           else if READY_TIMEOUT < connected + READY_POLL_INTERVAL then TimedOut
           else wait_listening M (connected + READY_POLL_INTERVAL) (Suc i)))"
  by pat_completeness auto
termination
  by (relation "measure (\<lambda>(M, elapsed, i). Suc READY_TIMEOUT - elapsed)") (auto simp: READY_POLL_INTERVAL_def)

declare wait_listening.simps [simp del]

datatype start_error =
    NoPostgresExe string
  | NoDataDir string
  | OpeningLog string
  | Spawning string
  | CheckingChild
  | ExitedBeforeReady string string string   \<comment> \<open>status, path and tail of the log\<close>
  | NotAccepting nat string string   \<comment> \<open>port, path and tail of the log\<close>

definition stderr_log :: "string \<Rightarrow> string" where
  "stderr_log data_dir = path_join data_dir ''postgres.stderr.log''"

text \<open>An error after the spawn kills the child, and dropping it kills it again.\<close>

definition kill_and_fail :: "start_error \<Rightarrow> (start_error, unit) sup" where
  "kill_and_fail e = andthen (emit KillSent) (\<lambda>_. andthen (emit ChildDropped) (\<lambda>_. throw e))"

definition pg_start :: "server_machine \<Rightarrow> string \<Rightarrow> string \<Rightarrow> nat \<Rightarrow> (start_error, unit) sup" where
  "pg_start M pg_bin data_dir port =
     andthen (when_ok (sm_exists M (postgres_exe pg_bin)) (NoPostgresExe (postgres_exe pg_bin))) (\<lambda>_.
     andthen (when_ok (sm_exists M data_dir) (NoDataDir data_dir)) (\<lambda>_.
     andthen (when_ok (sm_log_opens M) (OpeningLog (stderr_log data_dir))) (\<lambda>_.
     andthen (emit (LogTruncated (stderr_log data_dir))) (\<lambda>_.
     andthen (when_ok (sm_spawns M) (Spawning (postgres_exe pg_bin))) (\<lambda>_.
     andthen (emit (Spawned (postgres_exe pg_bin) [''-D'', data_dir])) (\<lambda>_.
     case wait_listening M 0 0 of
       Ready \<Rightarrow> ret ()
     | Polling \<Rightarrow> kill_and_fail CheckingChild
     | EarlyExit status tail \<Rightarrow> kill_and_fail (ExitedBeforeReady status (stderr_log data_dir) tail)
     | TimedOut \<Rightarrow> kill_and_fail (NotAccepting port (stderr_log data_dir)
         (tail_or_placeholder (read_log_tail (sm_log M) LOG_TAIL_BYTES)))))))))"

text \<open>\<open>stop\<close> answers \<open>Ok\<close> whatever happens; a child that could not be waited for is dropped.\<close>

definition pg_ctl_exe :: "string \<Rightarrow> string" where
  "pg_ctl_exe pg_bin = path_join (path_join pg_bin ''bin'') ''pg_ctl.exe''"

definition pg_stop :: "server_machine \<Rightarrow> string \<Rightarrow> string \<Rightarrow> ('e, unit) sup" where
  "pg_stop M pg_bin data_dir =
     andthen (if sm_exists M (pg_ctl_exe pg_bin)
       then (case sm_pg_ctl M of
           Some success \<Rightarrow> emit (PgCtlStop (pg_ctl_exe pg_bin) [''stop'', ''-m'', ''fast'', ''-w'', ''-t'', ''10'', ''-D'', data_dir])
         | None \<Rightarrow> ret ())
       else ret ()) (\<lambda>_.
     case sm_child_end M of
       ExitedInTime \<Rightarrow> emit Reaped
     | WaitError \<Rightarrow> emit ChildDropped
     | NotInTime \<Rightarrow> emit KilledAndReaped)"

section \<open>The server process\<close>

datatype 'e run_error = LoadingConfig config_error | InitTelemetry | StartingPostgres start_error
  | SqlNeverReady "connect_error \<times> connect_error option" | Serving 'e

text \<open>
  \<open>run_async\<close>: \<open>config\<close> is the answer of \<open>Config::from_env\<close>, \<open>telemetry\<close> whether the subscriber was
  installed, \<open>sql_ready\<close> the answer of \<open>db::wait_until_ready\<close> and \<open>served\<close> the outcome of \<open>serve\<close>. A
  failing job object is logged only.
\<close>

definition run_async ::
  "server_machine \<Rightarrow> (string \<Rightarrow> nat option) \<Rightarrow> config_error + config \<Rightarrow> bool
     \<Rightarrow> (connect_error \<times> connect_error option) + unit \<Rightarrow> 'e + unit \<Rightarrow> ('e run_error, unit) sup" where
  "run_async M pg_port config telemetry sql_ready served =
     andthen (from_sum (map_sum LoadingConfig id config)) (\<lambda>c.
     andthen (when_ok telemetry InitTelemetry) (\<lambda>_.
     andthen (attempt (assign_current_process_for_kill_on_close M)) (\<lambda>_.
     andthen (map_err StartingPostgres (pg_start M (pg_bin_dir c) (pg_data_dir c) (postgres_port pg_port c))) (\<lambda>_.
     case sql_ready of
       Inl e \<Rightarrow> andthen (emit ChildDropped) (\<lambda>_. throw (SqlNeverReady e))
     | Inr _ \<Rightarrow>
         andthen (emit Served) (\<lambda>_.
         andthen (pg_stop M (pg_bin_dir c) (pg_data_dir c)) (\<lambda>_.
         from_sum (map_sum Serving id served)))))))"

text \<open>
  \<open>run\<close> of \<open>provision\<close>, once the arguments asked for no help: its lock check works on the trace of
  its tools, \<open>initialized\<close> is the outcome of \<open>init_infrastructure\<close>.
\<close>

datatype 'e provision_run_error = ProvisionConfig config_error | LockCheck tool_error
  | ProvisionStart start_error | Initializing 'e

definition on_trace :: "(trace, 'e, 'a) prog \<Rightarrow> (trace \<times> proc_event list, 'e, 'a) prog" where
  "on_trace m th = (case m (fst th) of (r, t) \<Rightarrow> (r, (t, snd th)))"

definition on_events :: "('e, 'a) sup \<Rightarrow> (trace \<times> proc_event list, 'e, 'a) prog" where
  "on_events m th = (case m (snd th) of (r, h) \<Rightarrow> (r, (fst th, h)))"

definition provision_main ::
  "outside \<Rightarrow> server_machine \<Rightarrow> (string \<Rightarrow> nat option) \<Rightarrow> string list \<Rightarrow> config_error + config \<Rightarrow> 'e + 'a
     \<Rightarrow> (trace \<times> proc_event list, 'e provision_run_error, unit) prog" where
  "provision_main E M pg_port args config initialized =
     (if list_ex (\<lambda>a. a = ''--help'' \<or> a = ''-h'') (tl args) then ret ()
      else andthen (from_sum (map_sum ProvisionConfig id config)) (\<lambda>c.
           andthen (on_trace (map_err LockCheck (lock_check E (path_join (pg_data_dir c) ''postmaster.pid'')))) (\<lambda>_.
           andthen (on_events (map_err ProvisionStart (pg_start M (pg_bin_dir c) (pg_data_dir c) (postgres_port pg_port c)))) (\<lambda>_.
           andthen (on_events (emit Served)) (\<lambda>_.
           andthen (on_events (pg_stop M (pg_bin_dir c) (pg_data_dir c))) (\<lambda>_.
           from_sum (map_sum Initializing (\<lambda>_. ()) initialized)))))))"

text \<open>The log tail is at most the requested number of bytes, from a character boundary.\<close>

lemma read_log_tail_bounded:
  assumes "n < length contents"
  shows "\<exists>i. length contents - n \<le> i \<and> i \<le> length contents \<and> is_char_boundary contents i
    \<and> read_log_tail (Some contents) n = ''...(truncated)'' @ [CHR 0x0A] @ drop i contents
    \<and> length (drop i contents) \<le> n"
proof -
  let ?is = "[length contents - n..<Suc (length contents)]"
  have "is_char_boundary contents (length contents)" "length contents \<in> set ?is" by (auto simp: is_char_boundary_def)
  then have "find (is_char_boundary contents) ?is \<noteq> None" by (auto simp: find_None_iff)
  then obtain i where i: "find (is_char_boundary contents) ?is = Some i" by auto
  then have "is_char_boundary contents i" "i \<in> set ?is"
    by (metis find_Some_iff nth_mem)+
  then have "length contents - n \<le> i" "i \<le> length contents" "is_char_boundary contents i" by auto
  then show ?thesis using i assms by (intro exI [of _ i]) (auto simp: read_log_tail_def Let_def)
qed

section \<open>How long a start waits\<close>

text \<open>When attempt \<open>i\<close> begins, and when the loop goes on behind it.\<close>

definition attempt_at :: "server_machine \<Rightarrow> nat \<Rightarrow> nat" where
  "attempt_at M i = (\<Sum>j<i. sm_connect_time M j + READY_POLL_INTERVAL)"

definition polls_on :: "server_machine \<Rightarrow> nat \<Rightarrow> bool" where
  "polls_on M i \<longleftrightarrow> sm_poll M i = StillRunning \<and> \<not> sm_connects M i \<and> attempt_at M (Suc i) \<le> READY_TIMEOUT"

definition accepts :: "server_machine \<Rightarrow> nat \<Rightarrow> bool" where
  "accepts M i \<longleftrightarrow> sm_poll M i = StillRunning \<and> sm_connects M i \<and> attempt_at M i + sm_connect_time M i \<le> READY_TIMEOUT"

definition outcome_at :: "server_machine \<Rightarrow> nat \<Rightarrow> listening" where
  "outcome_at M i = (case sm_poll M i of
      PollError \<Rightarrow> Polling
    | ChildExited status \<Rightarrow> EarlyExit status (tail_or_placeholder (read_log_tail (sm_log M) LOG_TAIL_BYTES))
    | StillRunning \<Rightarrow> if accepts M i then Ready else TimedOut)"

lemma attempt_at_Suc: "attempt_at M (Suc i) = attempt_at M i + sm_connect_time M i + READY_POLL_INTERVAL"
  by (simp add: attempt_at_def)

lemma attempt_at_bound: "500 * i \<le> attempt_at M i"
  by (induction i) (simp_all add: attempt_at_Suc READY_POLL_INTERVAL_def)

lemma wait_listening_step:
  "wait_listening M (attempt_at M i) i =
     (if polls_on M i then wait_listening M (attempt_at M (Suc i)) (Suc i) else outcome_at M i)"
  by (subst wait_listening.simps)
    (auto simp: polls_on_def outcome_at_def accepts_def attempt_at_Suc Let_def split: child_poll.splits)

lemma wait_listening_run:
  assumes "\<And>j. i \<le> j \<Longrightarrow> j < n \<Longrightarrow> polls_on M j" and "\<not> polls_on M n" and "i \<le> n"
  shows "wait_listening M (attempt_at M i) i = outcome_at M n"
  using assms(1,3)
proof (induction "n - i" arbitrary: i)
  case 0
  then show ?case using assms(2) by (subst wait_listening_step) auto
next
  case (Suc k)
  then have "polls_on M i" "i < n" by simp_all
  then show ?case using Suc by (subst wait_listening_step) auto
qed

text \<open>
  A start of PostgreSQL waits at most 61 polls, and no longer than its timeout: the outcome is
  decided at some attempt \<open>n \<le> 60\<close>, before which the child was alive, refused every connection and
  half a minute had not passed. The start succeeds exactly when some attempt is accepted in time
  while the child has been alive at every poll and every earlier connection was refused.
\<close>

theorem start_waits_bounded:
  "(\<exists>n \<le> 60. (\<forall>j < n. polls_on M j) \<and> \<not> polls_on M n \<and> wait_listening M 0 0 = outcome_at M n)
    \<and> (wait_listening M 0 0 = Ready \<longleftrightarrow> (\<exists>n. accepts M n \<and> (\<forall>j < n. polls_on M j)))"
proof -
  have "\<not> polls_on M 60" using attempt_at_bound [of 61 M] by (simp add: polls_on_def READY_TIMEOUT_def)
  then obtain n where n: "\<not> polls_on M n" "\<And>j. j < n \<Longrightarrow> polls_on M j"
    using exists_least_iff [of "\<lambda>i. \<not> polls_on M i"] by auto
  have "n \<le> 60" using n(2) [of 60] \<open>\<not> polls_on M 60\<close> not_le by blast
  moreover have run: "wait_listening M 0 0 = outcome_at M n"
    using wait_listening_run [of 0 n M] n by (simp add: attempt_at_def)
  moreover have "m = n" if "accepts M m" "\<forall>j < m. polls_on M j" for m
    using that n by (metis accepts_def linorder_neqE_nat polls_on_def)
  moreover have "outcome_at M n = Ready \<longleftrightarrow> accepts M n" by (auto simp: outcome_at_def accepts_def split: child_poll.splits)
  ultimately show ?thesis using n by metis
qed

theorem start_waits_bounded_witness:
  "wait_listening \<lparr>sm_job_creates = True, sm_job_configures = True, sm_job_assigns = True, sm_exists = \<lambda>_. True,
     sm_log_opens = True, sm_spawns = True, sm_poll = \<lambda>_. StillRunning, sm_connects = \<lambda>i. i = 1, sm_connect_time = \<lambda>_. 20,
     sm_log = None, sm_pg_ctl = Some True, sm_child_end = ExitedInTime\<rparr> 0 0 = Ready"
  (is "wait_listening ?M 0 0 = Ready")
proof -
  have "accepts ?M 1" "\<forall>j < 1. polls_on ?M j"
    by (auto simp: accepts_def polls_on_def attempt_at_def READY_TIMEOUT_def READY_POLL_INTERVAL_def)
  then show ?thesis using start_waits_bounded [of ?M] by blast
qed

section \<open>No child is left behind\<close>

datatype child_state = NotStarted | Up | Ended

fun child_step :: "proc_event \<Rightarrow> child_state \<Rightarrow> child_state" where
  "child_step (Spawned _ _) _ = Up"
| "child_step KillSent _ = Ended"
| "child_step ChildDropped _ = Ended"
| "child_step Reaped _ = Ended"
| "child_step KilledAndReaped _ = Ended"
| "child_step _ s = s"

definition child_after :: "proc_event list \<Rightarrow> child_state" where
  "child_after h = fold child_step h NotStarted"

definition spawns :: "proc_event list \<Rightarrow> nat" where
  "spawns h = length (filter (\<lambda>ev. case ev of Spawned _ _ \<Rightarrow> True | _ \<Rightarrow> False) h)"

definition can_start :: "server_machine \<Rightarrow> config \<Rightarrow> bool" where
  "can_start M c \<longleftrightarrow> sm_exists M (postgres_exe (pg_bin_dir c)) \<and> sm_exists M (pg_data_dir c) \<and> sm_log_opens M
     \<and> sm_spawns M \<and> wait_listening M 0 0 = Ready"

text \<open>What \<open>stop\<close> does.\<close>

definition stop_events :: "server_machine \<Rightarrow> string \<Rightarrow> string \<Rightarrow> proc_event list" where
  "stop_events M pg_bin data_dir =
     (if sm_exists M (pg_ctl_exe pg_bin) \<and> sm_pg_ctl M \<noteq> None
      then [PgCtlStop (pg_ctl_exe pg_bin) [''stop'', ''-m'', ''fast'', ''-w'', ''-t'', ''10'', ''-D'', data_dir]] else [])
     @ [case sm_child_end M of ExitedInTime \<Rightarrow> Reaped | WaitError \<Rightarrow> ChildDropped | NotInTime \<Rightarrow> KilledAndReaped]"

lemma child_after_simps [simp]: "child_after [] = NotStarted" "child_after (h @ [ev]) = child_step ev (child_after h)"
  by (simp_all add: child_after_def)

lemma spawns_simps [simp]:
  "spawns [] = 0"
  "spawns (h @ h') = spawns h + spawns h'"
  "spawns (ev # h) = (case ev of Spawned _ _ \<Rightarrow> 1 | _ \<Rightarrow> 0) + spawns h"
  by (simp_all add: spawns_def split: proc_event.split)

lemma pg_stop_run: "pg_stop M pg_bin data_dir h = (Inr (), h @ stop_events M pg_bin data_dir)"
  by (auto simp: pg_stop_def stop_events_def andthen_def emit_def ret_def split: option.splits child_end.splits)

lemma stop_ends_child: "child_after (h @ stop_events M pg_bin data_dir) = Ended" "spawns (stop_events M pg_bin data_dir) = 0"
  by (auto simp: stop_events_def child_after_def split: child_end.splits)

lemma pg_start_run:
  assumes "pg_start M (pg_bin_dir c) (pg_data_dir c) port h = (r, h')"
  shows "can_start M c \<longleftrightarrow> r = Inr ()"
    and "r = Inr () \<Longrightarrow> h' = h @ [LogTruncated (stderr_log (pg_data_dir c)), Spawned (postgres_exe (pg_bin_dir c)) [''-D'', pg_data_dir c]]"
    and "r = Inl e \<Longrightarrow> child_after h = NotStarted \<Longrightarrow> child_after h' \<noteq> Up"
    and "spawns h' \<le> spawns h + 1" and "Served \<in> set h' \<longleftrightarrow> Served \<in> set h"
  using assms
  by (auto simp: pg_start_def can_start_def andthen_def kill_and_fail_def emit_def throw_def child_after_def
      split: if_splits listening.splits)

lemma assign_job_run:
  assumes "assign_current_process_for_kill_on_close M h = (r, h')"
  shows "child_after h' = child_after h" and "spawns h' = spawns h" and "Served \<in> set h' \<longleftrightarrow> Served \<in> set h"
    and "\<exists>t. h' = h @ t \<and> (r = Inr () \<longleftrightarrow> t = [JobCreated, JobConfigured, JobAssigned])
      \<and> (JobCreated \<in> set t \<and> r \<noteq> Inr () \<longrightarrow> last t = HandleClosed)"
  using assms
  by (auto simp: assign_current_process_for_kill_on_close_def andthen_def emit_def throw_def child_after_def split: if_splits)

text \<open>
  The server process leaves no PostgreSQL behind: however its calls to the system end, it spawns
  at most one and when it returns that child was never started, has exited, or was killed. It
  serves exactly when the configuration is valid, logging is set up, PostgreSQL accepts
  connections and the SQL layer answers; then its result is that of serving, and the last thing
  it does is to stop PostgreSQL. When the SQL layer never answers, the child is dropped, which kills it,
  and \<open>pg_ctl\<close> is not asked.
\<close>

theorem server_leaves_no_child:
  assumes "run_async M pg_port cfg telemetry sql_ready served [] = (r, h)"
  shows "child_after h \<noteq> Up \<and> spawns h \<le> 1
    \<and> (Served \<in> set h \<longleftrightarrow> (\<exists>c. cfg = Inr c \<and> telemetry \<and> can_start M c \<and> sql_ready = Inr ()))
    \<and> (\<forall>c. Served \<in> set h \<and> cfg = Inr c \<longrightarrow> r = map_sum Serving id served
        \<and> (\<exists>t. h = t @ Served # stop_events M (pg_bin_dir c) (pg_data_dir c)))
    \<and> (\<forall>c e. cfg = Inr c \<and> telemetry \<and> can_start M c \<and> sql_ready = Inl e \<longrightarrow>
        r = Inl (SqlNeverReady e) \<and> last h = ChildDropped \<and> (\<forall>exe args. PgCtlStop exe args \<notin> set h))
    \<and> (Served \<notin> set h \<longrightarrow> (\<exists>e. r = Inl e))"
proof (cases "\<exists>c. cfg = Inr c \<and> telemetry")
  case False
  then have "h = [] \<and> Served \<notin> set h \<and> (\<exists>e. r = Inl e)"
    using assms by (cases cfg) (auto simp: run_async_def andthen_def)
  then show ?thesis using False by auto
next
  case True
  then obtain c where c: "cfg = Inr c" telemetry by blast
  obtain rj hj where job: "assign_current_process_for_kill_on_close M [] = (rj, hj)" by fastforce
  note job_run = assign_job_run [OF job, simplified]
  obtain rs hs where start: "pg_start M (pg_bin_dir c) (pg_data_dir c) (postgres_port pg_port c) hj = (rs, hs)" by fastforce
  note started = pg_start_run [OF start]
  have run: "run_async M pg_port cfg telemetry sql_ready served [] =
      (case rs of Inl e \<Rightarrow> (Inl (StartingPostgres e), hs)
       | Inr _ \<Rightarrow> (case sql_ready of Inl e \<Rightarrow> (Inl (SqlNeverReady e), hs @ [ChildDropped])
           | Inr _ \<Rightarrow> (map_sum Serving id served, hs @ Served # stop_events M (pg_bin_dir c) (pg_data_dir c))))"
    using c by (cases served) (auto simp: run_async_def andthen_def attempt_def job start map_err_def emit_def pg_stop_run throw_def split: sum.splits)
  have no_ctl: "PgCtlStop exe args \<notin> set hj" for exe args
    using job by (auto simp: assign_current_process_for_kill_on_close_def andthen_def emit_def throw_def split: if_splits)
  show ?thesis
  proof (cases rs)
    case (Inl e)
    then show ?thesis using run assms c started(1,3,4,5) job_run by auto
  next
    case (Inr u)
    then have hs: "hs = hj @ [LogTruncated (stderr_log (pg_data_dir c)), Spawned (postgres_exe (pg_bin_dir c)) [''-D'', pg_data_dir c]]"
      and can: "can_start M c" using started(1,2) by simp_all
    show ?thesis
    proof (cases sql_ready)
      case (Inl e)
      then have r: "r = Inl (SqlNeverReady e)" "h = hs @ [ChildDropped]" using run assms Inr by simp_all
      then have "child_after h = Ended" by (simp only: child_after_simps child_step.simps)
      then show ?thesis using r c hs can job_run(2,3) no_ctl Inl by auto
    next
      case (Inr u')
      then have r: "r = map_sum Serving id served" "h = hs @ Served # stop_events M (pg_bin_dir c) (pg_data_dir c)"
        using run assms \<open>rs = Inr u\<close> by simp_all
      have "child_after h = Ended" using stop_ends_child(1) [of "hs @ [Served]"] r(2) by simp
      moreover have "spawns h \<le> 1" using r(2) hs job_run(2) stop_ends_child(2) by simp
      ultimately show ?thesis using r c can Inr by auto
    qed
  qed
qed

text \<open>A machine on which everything works but \<open>pg_ctl\<close>, and PostgreSQL does not exit in time.\<close>

definition demo_server :: server_machine where
  "demo_server = \<lparr>sm_job_creates = True, sm_job_configures = False, sm_job_assigns = True, sm_exists = \<lambda>_. True,
     sm_log_opens = True, sm_spawns = True, sm_poll = \<lambda>_. StillRunning, sm_connects = \<lambda>_. True, sm_connect_time = \<lambda>_. 1,
     sm_log = None, sm_pg_ctl = None, sm_child_end = NotInTime\<rparr>"

theorem server_leaves_no_child_witness:
  "\<exists>h. run_async demo_server (\<lambda>_. None) (Inr demo_config) True (Inr ()) (Inr () :: string + unit) [] = (Inr (), h)
     \<and> child_after h \<noteq> Up \<and> (\<exists>t. h = t @ [Served, KilledAndReaped])"
proof -
  have can: "can_start demo_server demo_config"
    by (simp add: can_start_def demo_server_def wait_listening.simps READY_TIMEOUT_def)
  obtain r h where run: "run_async demo_server (\<lambda>_. None) (Inr demo_config) True (Inr ()) (Inr () :: string + unit) [] = (r, h)"
    by fastforce
  have "Served \<in> set h" using server_leaves_no_child [OF run] can by simp
  then have "r = Inr ()" "\<exists>t. h = t @ Served # stop_events demo_server (pg_bin_dir demo_config) (pg_data_dir demo_config)"
    using server_leaves_no_child [OF run] by simp_all
  then show ?thesis using run server_leaves_no_child [OF run] by (simp add: stop_events_def demo_server_def)
qed

text \<open>The same for \<open>provision\<close>, which in addition starts nothing on a cluster whose lock is held.\<close>

lemma provision_leaves_no_child:
  assumes "provision_main E M pg_port args cfg initialized (th, []) = (r, (th', h))"
  shows "child_after h \<noteq> Up \<and> spawns h \<le> 1"
    and "cfg = Inr c \<Longrightarrow> lock_check E (path_join (pg_data_dir c) ''postmaster.pid'') th = (Inl e, t) \<Longrightarrow> h = []"
proof -
  have "h = [] \<or> (\<exists>c rs hs. pg_start M (pg_bin_dir c) (pg_data_dir c) (postgres_port pg_port c) [] = (rs, hs)
      \<and> (h = hs \<and> rs \<noteq> Inr () \<or> h = (hs @ [Served]) @ stop_events M (pg_bin_dir c) (pg_data_dir c)))"
    using assms
    by (auto simp: provision_main_def andthen_def map_err_def on_trace_def on_events_def pg_stop_run emit_def
        split: if_splits sum.splits prod.splits) (metis sum.distinct(1))+
  then show "child_after h \<noteq> Up \<and> spawns h \<le> 1"
  proof (elim disjE exE conjE)
    fix c rs hs
    assume start: "pg_start M (pg_bin_dir c) (pg_data_dir c) (postgres_port pg_port c) [] = (rs, hs)"
    note started = pg_start_run [OF start]
    show ?thesis if "h = hs" "rs \<noteq> Inr ()" using that started(3,4) by (cases rs) auto
    show ?thesis if "h = (hs @ [Served]) @ stop_events M (pg_bin_dir c) (pg_data_dir c)"
      unfolding that stop_ends_child(1) using started(4) by (simp add: stop_ends_child(2))
  qed simp
  show "h = []" if "cfg = Inr c" "lock_check E (path_join (pg_data_dir c) ''postmaster.pid'') th = (Inl e, t)"
    using assms that
    by (auto simp: provision_main_def andthen_def map_err_def on_trace_def split: if_splits)
qed

end
