(* ===== verification/Shutdown.thy ===== *)
theory Shutdown
imports Prelude
begin

text \<open>
  The end of \<open>server::serve\<close>, once both listeners are bound: the HTTP server on the main task, the
  gRPC server and the task that waits for \<open>shutdown::signal\<close> beside it, and the watch channel that
  fans the signal out. Tasks interleave freely, so this is a step relation. Requests in flight
  end; a receiver of the watch sees a change that was sent before it waits.
\<close>

section \<open>The state and its steps\<close>

datatype server_phase = Serving | Draining | Stopped bool   \<comment> \<open>whether it ended without an error\<close>

text \<open>The order in which a server goes through its phases; a failure counts before an orderly stop.\<close>

fun phase_rank :: "server_phase \<Rightarrow> nat" where
  "phase_rank Serving = 0"
| "phase_rank Draining = 1"
| "phase_rank (Stopped ok) = (if ok then 3 else 2)"

lemma phase_rank_inj: "phase_rank p = phase_rank q \<Longrightarrow> p = q"
  by (cases p; cases q; simp split: if_splits)

instantiation server_phase :: linorder
begin

definition less_eq_server_phase :: "server_phase \<Rightarrow> server_phase \<Rightarrow> bool" where
  "less_eq_server_phase p q \<longleftrightarrow> phase_rank p \<le> phase_rank q"

definition less_server_phase :: "server_phase \<Rightarrow> server_phase \<Rightarrow> bool" where
  "less_server_phase p q \<longleftrightarrow> phase_rank p < phase_rank q"

instance
  by standard (auto simp: less_eq_server_phase_def less_server_phase_def dest: phase_rank_inj)

end

datatype main_phase = AwaitHttp | AwaitGrpc bool | PoolClosed bool   \<comment> \<open>the outcome of the HTTP server\<close>

record serving =
  sd_signalled :: bool
  sd_watch :: bool
  sd_http :: server_phase
  sd_grpc :: server_phase
  sd_main :: main_phase

definition serving_start :: serving where
  "serving_start = \<lparr>sd_signalled = False, sd_watch = False, sd_http = Serving, sd_grpc = Serving, sd_main = AwaitHttp\<rparr>"

text \<open>
  When \<open>shutdown::signal\<close> returns: at Ctrl-C, at SIGTERM on Unix (\<open>terminate\<close> is \<open>None\<close> elsewhere), and at
  once when a handler cannot be installed.
\<close>

datatype listener = NotInstalled | Installed bool   \<comment> \<open>whether the signal has arrived\<close>

fun arm_done :: "listener \<Rightarrow> bool" where
  "arm_done NotInstalled \<longleftrightarrow> True"
| "arm_done (Installed arrived) \<longleftrightarrow> arrived"

definition signal_returns :: "listener \<Rightarrow> listener option \<Rightarrow> bool" where
  "signal_returns ctrl_c terminate \<longleftrightarrow> arm_done ctrl_c \<or> (case terminate of None \<Rightarrow> False | Some t \<Rightarrow> arm_done t)"

text \<open>
  When \<open>signal\<close> returns, the bridge task sends. The servers
  drain when they see the watch; each may also fail by itself. The main task sends once more
  when the HTTP server has ended, joins the gRPC task, whose outcome is only logged, and closes the pool.
\<close>

inductive serve_step :: "serving \<Rightarrow> serving \<Rightarrow> bool" where
  signal: "\<not> sd_signalled s \<Longrightarrow> signal_returns ctrl_c terminate \<Longrightarrow> serve_step s (s\<lparr>sd_signalled := True, sd_watch := True\<rparr>)"
| http_drain: "sd_http s = Serving \<Longrightarrow> sd_watch s \<Longrightarrow> serve_step s (s\<lparr>sd_http := Draining\<rparr>)"
| http_stop: "sd_http s = Draining \<Longrightarrow> serve_step s (s\<lparr>sd_http := Stopped True\<rparr>)"
| http_fail: "sd_http s = Serving \<or> sd_http s = Draining \<Longrightarrow> serve_step s (s\<lparr>sd_http := Stopped False\<rparr>)"
| grpc_drain: "sd_grpc s = Serving \<Longrightarrow> sd_watch s \<Longrightarrow> serve_step s (s\<lparr>sd_grpc := Draining\<rparr>)"
| grpc_stop: "sd_grpc s = Draining \<Longrightarrow> serve_step s (s\<lparr>sd_grpc := Stopped True\<rparr>)"
| grpc_fail: "sd_grpc s = Serving \<or> sd_grpc s = Draining \<Longrightarrow> serve_step s (s\<lparr>sd_grpc := Stopped False\<rparr>)"
| main_send: "sd_main s = AwaitHttp \<Longrightarrow> sd_http s = Stopped ok \<Longrightarrow>
     serve_step s (s\<lparr>sd_watch := True, sd_main := AwaitGrpc ok\<rparr>)"
| main_close: "sd_main s = AwaitGrpc ok \<Longrightarrow> sd_grpc s = Stopped grpc_ok \<Longrightarrow> serve_step s (s\<lparr>sd_main := PoolClosed ok\<rparr>)"

inductive_cases serve_stepE: "serve_step s s'"

abbreviation serves_to :: "serving \<Rightarrow> serving \<Rightarrow> bool" where
  "serves_to \<equiv> serve_step\<^sup>*\<^sup>*"

section \<open>Order and end\<close>

fun phase_steps :: "server_phase \<Rightarrow> nat" where
  "phase_steps Serving = 2"
| "phase_steps Draining = 1"
| "phase_steps (Stopped _) = 0"

fun main_steps :: "main_phase \<Rightarrow> nat" where
  "main_steps AwaitHttp = 2"
| "main_steps (AwaitGrpc _) = 1"
| "main_steps (PoolClosed _) = 0"

definition steps_left :: "serving \<Rightarrow> nat" where
  "steps_left s = (if sd_signalled s then 0 else 1) + phase_steps (sd_http s) + phase_steps (sd_grpc s) + main_steps (sd_main s)"

lemma step_decreases: "serve_step s s' \<Longrightarrow> steps_left s' < steps_left s"
  by (auto simp: steps_left_def elim!: serve_stepE)

lemma steps_bounded: "(serve_step ^^ n) s s' \<Longrightarrow> n + steps_left s' \<le> steps_left s"
proof (induction n arbitrary: s')
  case (Suc n)
  then obtain t where "(serve_step ^^ n) s t" "serve_step t s'" by auto
  then show ?case using Suc.IH [of t] step_decreases [of t s'] by linarith
qed simp

lemma phases_forward: "serves_to s s' \<Longrightarrow> sd_http s \<le> sd_http s' \<and> sd_grpc s \<le> sd_grpc s'"
proof (induction rule: rtranclp_induct)
  case (step t s')
  then have "sd_http t \<le> sd_http s' \<and> sd_grpc t \<le> sd_grpc s'"
    by (auto simp: less_eq_server_phase_def elim!: serve_stepE)
  with step.IH show ?case using order_trans by blast
qed simp

definition orderly :: "serving \<Rightarrow> bool" where
  "orderly s \<longleftrightarrow> (sd_signalled s \<longrightarrow> sd_watch s)
     \<and> (\<forall>ok. sd_main s = AwaitGrpc ok \<longrightarrow> sd_http s = Stopped ok \<and> sd_watch s)
     \<and> (\<forall>ok. sd_main s = PoolClosed ok \<longrightarrow> sd_http s = Stopped ok \<and> sd_watch s \<and> (\<exists>grpc_ok. sd_grpc s = Stopped grpc_ok))"

lemma orderly_reachable: "serves_to serving_start s \<Longrightarrow> orderly s"
proof (induction rule: rtranclp_induct)
  case (step s s')
  from step.hyps(2) step.IH show ?case by cases (auto simp: orderly_def)
qed (simp add: orderly_def serving_start_def)

lemma stuck_closed:
  assumes "orderly s" and "\<And>s'. \<not> serve_step s s'"
  shows "\<exists>ok. sd_main s = PoolClosed ok"
proof -
  have "signal_returns (Installed True) None" by (simp add: signal_returns_def)
  then have "sd_signalled s" using assms(2) serve_step.signal by blast
  then have "sd_watch s" using assms(1) by (simp add: orderly_def)
  then obtain ok grpc_ok where "sd_http s = Stopped ok" "sd_grpc s = Stopped grpc_ok"
    using assms(2) serve_step.http_drain serve_step.http_stop serve_step.grpc_drain serve_step.grpc_stop
    by (metis server_phase.exhaust)
  then show ?thesis using assms(2) serve_step.main_send serve_step.main_close by (metis main_phase.exhaust)
qed


lemma stop_run:
  "serves_to serving_start \<lparr>sd_signalled = True, sd_watch = True, sd_http = Stopped True, sd_grpc = Stopped True, sd_main = PoolClosed True\<rparr>"
proof -
  let ?s = "\<lambda>h g m. \<lparr>sd_signalled = True, sd_watch = True, sd_http = h, sd_grpc = g, sd_main = m\<rparr>"
  have "serve_step serving_start (?s Serving Serving AwaitHttp)"
    using serve_step.signal [of serving_start "Installed True" None] by (simp add: serving_start_def signal_returns_def)
  moreover have "serve_step (?s Serving Serving AwaitHttp) (?s Draining Serving AwaitHttp)"
    using serve_step.http_drain [of "?s Serving Serving AwaitHttp"] by simp
  moreover have "serve_step (?s Draining Serving AwaitHttp) (?s (Stopped True) Serving AwaitHttp)"
    using serve_step.http_stop [of "?s Draining Serving AwaitHttp"] by simp
  moreover have "serve_step (?s (Stopped True) Serving AwaitHttp) (?s (Stopped True) Draining AwaitHttp)"
    using serve_step.grpc_drain [of "?s (Stopped True) Serving AwaitHttp"] by simp
  moreover have "serve_step (?s (Stopped True) Draining AwaitHttp) (?s (Stopped True) (Stopped True) AwaitHttp)"
    using serve_step.grpc_stop [of "?s (Stopped True) Draining AwaitHttp"] by simp
  moreover have "serve_step (?s (Stopped True) (Stopped True) AwaitHttp) (?s (Stopped True) (Stopped True) (AwaitGrpc True))"
    using serve_step.main_send [of "?s (Stopped True) (Stopped True) AwaitHttp" True] by simp
  moreover have "serve_step (?s (Stopped True) (Stopped True) (AwaitGrpc True)) (?s (Stopped True) (Stopped True) (PoolClosed True))"
    using serve_step.main_close [of "?s (Stopped True) (Stopped True) (AwaitGrpc True)" True True] by simp
  ultimately show ?thesis by (meson converse_rtranclp_into_rtranclp rtranclp.rtrancl_refl)
qed


text \<open>
  A gRPC server that fails by itself is noticed only when the server shuts down: until a signal
  comes or the HTTP server fails, nothing happens, and discovery goes on advertising its port.
\<close>

lemma grpc_failure_unnoticed:
  defines "s \<equiv> serving_start\<lparr>sd_grpc := Stopped False\<rparr>"
  shows "serves_to serving_start s"
    and "serve_step s s' \<Longrightarrow> s' = s\<lparr>sd_signalled := True, sd_watch := True\<rparr> \<or> s' = s\<lparr>sd_http := Stopped False\<rparr>"
proof -
  show "serves_to serving_start s"
    unfolding s_def by (intro r_into_rtranclp serve_step.grpc_fail) (simp add: serving_start_def)
  show "s' = s\<lparr>sd_signalled := True, sd_watch := True\<rparr> \<or> s' = s\<lparr>sd_http := Stopped False\<rparr>" if "serve_step s s'"
    using that by cases (auto simp: s_def serving_start_def)
qed

end
