(* ===== verification/Server_Process.thy ===== *)
theory Server_Process
imports Deployment Process_Supervision Shutdown
begin

text \<open>
  The whole server process: \<open>main\<close>, \<open>run_async\<close> and \<open>serve\<close> put together from the parts that model
  the configuration, the supervision of PostgreSQL, the wait for SQL, the start of the services, the
  requests over both listeners and the shutdown. A run of the process is a relation between the
  host and database it finds and those it leaves; what an installation goes through is stated in
  \<open>Deployment\<close>, and a run is shown to be a start, requests and a stop of it.
\<close>

section \<open>Logging\<close>

datatype telemetry_error = InvalidLogFilter string | SubscriberNotInstalled

text \<open>\<open>filter_parses\<close> and \<open>try_init\<close> stand for the tracing crates.\<close>

definition telemetry_init :: "(string \<Rightarrow> bool) \<Rightarrow> (log_format \<Rightarrow> bool) \<Rightarrow> config \<Rightarrow> telemetry_error + unit" where
  "telemetry_init filter_parses try_init c =
     (if \<not> filter_parses (cfg_log_filter c) then Inl (InvalidLogFilter (cfg_log_filter c))
      else if \<not> try_init (cfg_log_format c) then Inl SubscriberNotInstalled else Inr ())"

section \<open>Serving\<close>

text \<open>
  From both listeners on, the tasks of \<open>serve\<close> and the requests interleave. A server answers until it has
  stopped; while it drains these are requests in flight.
\<close>

definition has_stopped :: "server_phase \<Rightarrow> bool" where
  "has_stopped p \<longleftrightarrow> (\<exists>ok. p = Stopped ok)"

inductive serving_step :: "ext \<Rightarrow> server_state \<Rightarrow> serving \<times> world \<Rightarrow> serving \<times> world \<Rightarrow> bool" for X v where
  task: "serve_step s s' \<Longrightarrow> serving_step X v (s, w) (s', w)"
| rpc: "\<not> has_stopped (sd_grpc s) \<Longrightarrow> rpc_step X (sv_trust_proxy v) w w' \<Longrightarrow> serving_step X v (s, w) (s, w')"
| http: "\<not> has_stopped (sd_http s) \<Longrightarrow> http_get X v path nonce w = (reply, w') \<Longrightarrow> serving_step X v (s, w) (s, w')"

inductive_cases serving_stepE: "serving_step X v sw sw'"

abbreviation serving_steps :: "ext \<Rightarrow> server_state \<Rightarrow> serving \<times> world \<Rightarrow> serving \<times> world \<Rightarrow> bool" where
  "serving_steps X v \<equiv> (serving_step X v)\<^sup>*\<^sup>*"

datatype serve_end_error = StartupFailed serve_error | HttpServerError

text \<open>\<open>serve\<close> returns when its startup fails, or when its main task has closed the pool.\<close>

inductive serve ::
  "ext \<Rightarrow> unit stmt \<Rightarrow> (socket_addr \<Rightarrow> bool) \<Rightarrow> config \<Rightarrow> host \<times> world \<Rightarrow> serve_end_error + unit \<Rightarrow> host \<times> world \<Rightarrow> bool"
  for X migrate binds c where
  no_startup: "serve_startup X migrate binds c hw = (Inl e, hw') \<Longrightarrow>
     serve X migrate binds c hw (Inl (StartupFailed e)) hw'"
| served: "serve_startup X migrate binds c hw = (Inr v, (h, w)) \<Longrightarrow>
     serving_steps X v (serving_start, w) (s, w') \<Longrightarrow> sd_main s = PoolClosed ok \<Longrightarrow>
     serve X migrate binds c hw (if ok then Inr () else Inl HttpServerError) (h, w')"

section \<open>The process\<close>

text \<open>
  What a run of the process depends on besides the host and the database: whether the Tokio runtime can be
  built, the operating system, the environment, the tracing crates, \<open>sqlx\<close>.
\<close>

record surroundings =
  su_runtime :: bool
  su_machine :: server_machine
  su_pg_port :: "string \<Rightarrow> nat option"
  su_config :: "config_error + config"
  su_filter_parses :: "string \<Rightarrow> bool"
  su_try_init :: "log_format \<Rightarrow> bool"
  su_attempt :: "nat \<Rightarrow> connect_error + unit"
  su_extra :: "nat \<Rightarrow> nat"
  su_migrate :: "unit stmt"
  su_binds :: "socket_addr \<Rightarrow> bool"

definition logging_ready :: "surroundings \<Rightarrow> bool" where
  "logging_ready S = (case su_config S of Inl _ \<Rightarrow> False
     | Inr c \<Rightarrow> telemetry_init (su_filter_parses S) (su_try_init S) c = Inr ())"

datatype process_error = RuntimeNotBuilt | RunFailed "serve_end_error run_error"

definition process ::
  "surroundings \<Rightarrow> (connect_error \<times> connect_error option) + unit \<Rightarrow> serve_end_error + unit
     \<Rightarrow> (process_error + unit) \<times> proc_event list" where
  "process S sql_ready outcome =
     (if su_runtime S then map_prod (map_sum RunFailed id) id
        (run_async (su_machine S) (su_pg_port S) (su_config S) (logging_ready S) sql_ready outcome [])
      else (Inl RuntimeNotBuilt, []))"

text \<open>\<open>serve\<close> is called where \<open>run_async\<close> records \<open>Served\<close>; without that call nothing is touched.\<close>

inductive server_run ::
  "ext \<Rightarrow> surroundings \<Rightarrow> host \<times> world \<Rightarrow> process_error + unit \<Rightarrow> proc_event list \<Rightarrow> host \<times> world \<Rightarrow> bool"
  for X S where
  unserved: "wait_until_ready (su_attempt S) (su_extra S) start = Some sql_ready \<Longrightarrow>
     process S sql_ready outcome = (r, evs) \<Longrightarrow> Served \<notin> set evs \<Longrightarrow> server_run X S hw r evs hw"
| served: "wait_until_ready (su_attempt S) (su_extra S) start = Some sql_ready \<Longrightarrow>
     su_config S = Inr c \<Longrightarrow> serve X (su_migrate S) (su_binds S) c hw outcome hw' \<Longrightarrow>
     process S sql_ready outcome = (r, evs) \<Longrightarrow> Served \<in> set evs \<Longrightarrow> server_run X S hw r evs hw'"

lemma process_ends:
  assumes "process S sql_ready outcome = (r, evs)"
  shows "child_after evs \<noteq> Up" and "spawns evs \<le> 1" and "Served \<notin> set evs \<Longrightarrow> \<exists>e. r = Inl e"
    and "Served \<in> set evs \<longleftrightarrow> su_runtime S
      \<and> (\<exists>c. su_config S = Inr c \<and> logging_ready S \<and> can_start (su_machine S) c \<and> sql_ready = Inr ())"
    and "Served \<in> set evs \<Longrightarrow> su_config S = Inr c \<Longrightarrow> r = map_sum (RunFailed \<circ> run_error.Serving) id outcome
      \<and> (\<exists>t. evs = t @ Served # stop_events (su_machine S) (pg_bin_dir c) (pg_data_dir c))"
proof -
  obtain q h where run: "run_async (su_machine S) (su_pg_port S) (su_config S) (logging_ready S) sql_ready outcome [] = (q, h)"
    by fastforce
  note ends = server_leaves_no_child [OF run]
  have r: "if su_runtime S then r = map_sum RunFailed id q \<and> evs = h else r = Inl RuntimeNotBuilt \<and> evs = []"
    using assms run by (auto simp: process_def)
  from ends r show "child_after evs \<noteq> Up" "spawns evs \<le> 1" by (auto split: if_splits)
  from ends r show "Served \<notin> set evs \<Longrightarrow> \<exists>e. r = Inl e" by (auto split: if_splits)
  from ends r show "Served \<in> set evs \<longleftrightarrow> su_runtime S
      \<and> (\<exists>c. su_config S = Inr c \<and> logging_ready S \<and> can_start (su_machine S) c \<and> sql_ready = Inr ())"
    by (auto split: if_splits)
  from ends r show "Served \<in> set evs \<Longrightarrow> su_config S = Inr c \<Longrightarrow> r = map_sum (RunFailed \<circ> run_error.Serving) id outcome
      \<and> (\<exists>t. evs = t @ Served # stop_events (su_machine S) (pg_bin_dir c) (pg_data_dir c))"
    by (cases outcome) (auto split: if_splits)
qed

text \<open>The exit status of \<open>main\<close>, which returns the result of \<open>run\<close>.\<close>

definition exit_status :: "'e + unit \<Rightarrow> nat" where
  "exit_status r = (case r of Inl _ \<Rightarrow> 1 | Inr _ \<Rightarrow> 0)"

section \<open>A run in the life of an installation\<close>

abbreviation stopped_at :: "host \<times> world \<Rightarrow> deployment" where
  "stopped_at hw \<equiv> \<lparr>dp_host = fst hw, dp_world = snd hw, dp_running = None\<rparr>"

abbreviation running_at :: "server_state \<Rightarrow> host \<Rightarrow> world \<Rightarrow> deployment" where
  "running_at v h w \<equiv> \<lparr>dp_host = h, dp_world = w, dp_running = Some v\<rparr>"

lemma serving_tasks:
  "serving_steps X v sw sw' \<Longrightarrow> serves_to (fst sw) (fst sw')"
  by (induction rule: rtranclp_induct) (auto elim!: serving_stepE)

text \<open>Requests, whatever the tasks do in between, are steps of the installation.\<close>

lemma serving_deploys:
  assumes "serving_steps X v sw sw'"
  shows "(deploy_step X migrate binds c)\<^sup>*\<^sup>* (running_at v h (snd sw)) (running_at v h (snd sw'))"
  using assms
proof (induction rule: rtranclp_induct)
  case (step y z)
  have "deploy_step X migrate binds c (running_at v h (snd y)) (running_at v h (snd z))" if "snd z \<noteq> snd y"
    using step.hyps(2) that deploy_step.serve [of "running_at v h (snd y)" v X "snd z"]
      deploy_step.ask [of "running_at v h (snd y)" v X]
    by (auto elim!: serving_stepE)
  with step.IH show ?case by (cases "snd z = snd y") (auto intro: rtranclp.rtrancl_into_rtrancl)
qed simp

lemma startup_deploys:
  assumes "serve_startup X migrate binds c hw = (Inr v, (h, w))"
  shows "deploy_step X migrate binds c (stopped_at hw) (running_at v h w)"
  using deploy_step.start [of "stopped_at hw" X migrate binds c "Inr v" h w] assms by simp

lemma serve_deploys:
  assumes "serve X migrate binds c hw outcome hw'"
  shows "(deploy_step X migrate binds c)\<^sup>*\<^sup>* (stopped_at hw) (stopped_at hw')"
  using assms
proof cases
  case (no_startup e)
  then show ?thesis
    using deploy_step.start [of "stopped_at hw" X migrate binds c "Inl e" "fst hw'" "snd hw'"] by auto
next
  case (served v h w s w' ok)
  have "deploy_step X migrate binds c (running_at v h w') (stopped_at hw')"
    using deploy_step.stop [of "running_at v h w'" v] served by simp
  with startup_deploys [OF served(3)] serving_deploys [OF served(4), of migrate binds c h] show ?thesis
    by (auto intro: rtranclp_trans converse_rtranclp_into_rtranclp)
qed

text \<open>After the pool is closed nobody is answered any more.\<close>

lemma closed_is_final:
  assumes "serving_steps X v (serving_start, w) (s, w')" and "sd_main s = PoolClosed ok"
  shows "sd_http s = Stopped ok" and "has_stopped (sd_grpc s)"
    and "serving_step X v (s, w') (s', w'') \<Longrightarrow> w'' = w'"
proof -
  have "orderly s" using serving_tasks [OF assms(1)] orderly_reachable by simp
  with assms(2) show http: "sd_http s = Stopped ok" and grpc: "has_stopped (sd_grpc s)"
    by (auto simp: orderly_def has_stopped_def)
  assume "serving_step X v (s, w') (s', w'')"
  with http grpc show "w'' = w'" by (auto elim!: serving_stepE simp: has_stopped_def)
qed

section \<open>The property\<close>


definition demo_surroundings :: surroundings where
  "demo_surroundings = \<lparr>su_runtime = True, su_machine = demo_server, su_pg_port = \<lambda>_. None, su_config = Inr demo_config,
     su_filter_parses = \<lambda>_. True, su_try_init = \<lambda>_. True, su_attempt = \<lambda>_. Inr (), su_extra = \<lambda>_. 0,
     su_migrate = sql_ok (), su_binds = \<lambda>_. True\<rparr>"

lemma serving_alone: "serves_to s s' \<Longrightarrow> serving_steps X v (s, w) (s', w)"
  by (induction rule: rtranclp_induct) (auto intro: serving_step.task rtranclp.rtrancl_into_rtrancl)


section \<open>The process of provision\<close>

text \<open>\<open>run\<close> of \<open>provision\<close> with the same composition: the initialization runs where \<open>Served\<close> is recorded.\<close>

inductive provision_process ::
  "ext \<Rightarrow> outside \<Rightarrow> surroundings \<Rightarrow> string list \<Rightarrow> trace \<Rightarrow> host \<times> world
     \<Rightarrow> provision_error provision_run_error + unit \<Rightarrow> trace \<Rightarrow> proc_event list \<Rightarrow> host \<times> world \<Rightarrow> bool"
  for X E S args where
  untouched: "provision_main E (su_machine S) (su_pg_port S) args (su_config S) (res :: provision_error + string) (th, []) = (r, (th', evs)) \<Longrightarrow>
     Served \<notin> set evs \<Longrightarrow> provision_process X E S args th hw r th' evs hw"
| initialized: "su_config S = Inr c \<Longrightarrow> provision_init X (su_migrate S) c hw = (res, hw') \<Longrightarrow>
     provision_main E (su_machine S) (su_pg_port S) args (su_config S) res (th, []) = (r, (th', evs)) \<Longrightarrow>
     Served \<in> set evs \<Longrightarrow> provision_process X E S args th hw r th' evs hw'"

theorem provision_process_sound:
  assumes "provision_process X E S args th hw r th' evs hw'"
  shows "child_after evs \<noteq> Up \<and> spawns evs \<le> 1
     \<and> (\<forall>c. su_config S = Inr c \<longrightarrow> hw' = hw
          \<or> deploy_step X (su_migrate S) (su_binds S) c (stopped_at hw) (stopped_at hw'))
     \<and> (\<forall>c e t. su_config S = Inr c \<and> lock_check E (path_join (pg_data_dir c) ''postmaster.pid'') th = (Inl e, t) \<longrightarrow>
          hw' = hw)"
  using assms
proof cases
  case (untouched res)
  then show ?thesis using provision_leaves_no_child(1) by blast
next
  case (initialized c res)
  have "deploy_step X (su_migrate S) (su_binds S) c (stopped_at hw) (stopped_at hw')"
    using deploy_step.provision [of "stopped_at hw" X "su_migrate S" c res "fst hw'" "snd hw'"] initialized(2) by simp
  moreover have "hw' = hw" if "lock_check E (path_join (pg_data_dir c) ''postmaster.pid'') th = (Inl e, t)" for e t
    using provision_leaves_no_child(2) [OF initialized(3,1) that] initialized(4) by simp
  ultimately show ?thesis using provision_leaves_no_child(1) [OF initialized(3)] initialized(1) by auto
qed

end
