(* ===== verification/Spec2Isabelle.thy ===== *)
theory Spec2Isabelle
imports Rate_Limit Audit_Log Audit_Concurrency Identity_Users Identity_Invitations Identity_Devices Auth_Sessions
  Session_Refinement Resource_Refinement Auth_Credentials Totp User_Totp Secretbox Recovery_Code Registry Resources Services
  Account_Guarantees Account_Bootstrap Platform_Guarantees Machine_Guarantees Sync_Interleaving Replica
  Bootstrap_Race Discovery Server_Config Config_Range Sql_Ready Provisioning Deployment Operator_Tools
  Process_Supervision Shutdown Server_Process
begin

text \<open>
  A model of the Sylva server, the repository's Rust workspace: a gRPC server for accounts, apps,
  resources and machines over PostgreSQL, its discovery endpoint, and the tools that install, provision
  and reset an instance. Paths below are relative to \<open>src/crates\<close>.

  \<^bold>\<open>The program and its parts.\<close> A request reaches one of four gRPC services (\<open>platform/src/lib.rs\<close>,
  \<open>account.rs\<close>, \<open>machine.rs\<close>). The handler resolves the bearer token to an account or a machine, throttles
  unauthenticated calls by client address, calls repositories that are thin layers of SQL (\<open>identity\<close>,
  \<open>auth\<close>, \<open>platform::resources\<close>, \<open>platform::registry\<close>), and records what happened in the hash-chained
  log (\<open>audit\<close>). The binary (\<open>server\<close>) reads its configuration, starts and supervises a
  bundled PostgreSQL, applies the migrations, loads or creates the secret key and the identity that
  clients pin, and serves until it is told to stop. \<open>bootstrap\<close>, \<open>provision\<close> and \<open>clean\<close> run beside it.

  \<^bold>\<open>How state and effects are modelled.\<close>
  \<^item> \<open>Prelude\<close>, \<open>Text_Codec\<close>: bytes are 8-bit words, a Rust string is its UTF-8 bytes, tables are lists
    of records; trimming by Unicode white space, ASCII case, hexadecimal, decimal numbers.
  \<^item> \<open>Externals\<close>: what the repository calls but does not contain is the record \<open>ext\<close>: hashes, Ed25519,
    AEAD, Argon2, clocks, random sources, UUID and JSON text, rounding of doubles, and what happens to
    each database call (it answers, fails, or takes effect and loses its answer). A number,
    \<open>w_tick\<close>, indexes these interactions, so that two calls may differ. Documented behaviour is stated as
    named predicates; they are hypotheses where needed, and \<open>demo_ext\<close> satisfies them all.
  \<^item> \<open>Schema\<close>: the tables of \<open>migrations/\<close> as one record \<open>database\<close>; \<open>Integrity\<close>: its constraints as the
    predicate \<open>db_ok\<close>. A statement is a function of the database that answers a value or an
    SQLSTATE error and then changes nothing.
  \<^item> \<open>Actions\<close>: a program takes a state and returns an error or a value, and the new state; \<open>andthen\<close> is
    the question mark operator, \<open>transact\<close> a transaction with roll-back, \<open>exec\<close> one statement with the
    faults of the connection. The locale \<open>db_relation\<close> is the interface for what every program keeps:
    a reflexive and transitive relation on databases which statements obey is obeyed by handlers.

  \<^bold>\<open>Components.\<close>
  \<^item> \<open>Rate_Limit\<close> (\<open>auth/src/ratelimit.rs\<close>): token buckets; locale \<open>throttle\<close>. Burst and recovery.
  \<^item> \<open>Audit_Log\<close> (\<open>audit/src/lib.rs\<close>): the hash chain, \<open>append\<close> and the queries. Extension of a
    verifiable chain, evidence of tampering up to a collision, the paging cursor.
    \<open>Audit_Concurrency\<close>: its database calls as steps of concurrent transactions; the advisory lock
    keeps the chain whole, and without it two of them fork it (\<open>unlocked_appends_fork\<close>).
  \<^item> \<open>Identity_Users\<close>, \<open>Identity_Invitations\<close>, \<open>Identity_Devices\<close> (\<open>identity/src\<close>): accounts and their
    lifecycle, invitations, keys, avatars, machines, devices, telemetry.
  \<^item> \<open>Tokens\<close>, \<open>Auth_Sessions\<close> (\<open>auth/src/lib.rs\<close>): bearer tokens; the locale \<open>token_store\<close> is
    interpreted by sessions, machine sessions and invitations. \<open>Session_Refinement\<close> gives the
    abstract store (a finite map from token hashes to open sessions) that the tables implement.
  \<^item> \<open>Auth_Credentials\<close>, \<open>Totp\<close>, \<open>User_Totp\<close>, \<open>Secretbox\<close>, \<open>Recovery_Code\<close> (\<open>auth/src\<close>): passwords, RFC 6238
    codes and their single use, sealed secrets, recovery codes.
  \<^item> \<open>Registry\<close>, \<open>Resources\<close> (\<open>platform/src\<close>): publishers and signed declarations, owner-scoped
    content and its change feed. \<open>Resource_Refinement\<close> gives the abstract store of versioned documents
    (a finite map and a clock) that the table implements, answers included.
  \<^item> \<open>Rpc\<close>, \<open>Platform_Service\<close>, \<open>Account_Service\<close>, \<open>Machine_Service\<close>, \<open>Services\<close>: request metadata,
    authentication, one definition per RPC, and \<open>serve_grpc\<close>, which dispatches all of them; the locale
    \<open>rpc_storage\<close> carries a relation from statements to every sequence of RPCs.
    \<open>Account_Guarantees\<close>, \<open>Account_Bootstrap\<close>, \<open>Platform_Guarantees\<close>, \<open>Machine_Guarantees\<close> hold what
    the handlers promise, on every path, with faults at every call.
  \<^item> \<open>Sync_Interleaving\<close>, \<open>Bootstrap_Race\<close>: statements and transactions of concurrent requests as separate
    steps; back to back the steps are proved to be the handler's own. \<open>Replica\<close> follows the feed on a
    device: what it holds while writers go on, that it converges to the server, and that each
    \<open>StreamChanges\<close> call on the wire is one of its polls.
  \<^item> \<open>Server_Config\<close>, \<open>Config_Range\<close>, \<open>Discovery\<close>, \<open>Sql_Ready\<close>, \<open>Provisioning\<close>, \<open>Deployment\<close> (\<open>server/src\<close>,
    \<open>provision/src\<close>): configuration and secret key on a model of the host's files, the identity and
    the signed discovery payload, the wait for SQL, \<open>provision\<close> and \<open>/health\<close>, and the life of
    an installation: starts, requests, stops and provision runs in any order.
  \<^item> \<open>Tool_Effects\<close>, \<open>Operator_Tools\<close> (\<open>bootstrap/src\<close>, \<open>clean/src\<close>): the tools as programs over the
    trace of their file and process effects, which an arbitrary machine answers.
  \<^item> \<open>Process_Supervision\<close> (\<open>server/src/postgres.rs\<close>, \<open>job_object.rs\<close>, \<open>run_async\<close> of \<open>lib.rs\<close>): the
    PostgreSQL child as a list of events. \<open>Shutdown\<close> (\<open>serve\<close> of \<open>lib.rs\<close>, \<open>shutdown.rs\<close>): the end of the
    server as a step relation over its tasks. \<open>Server_Process\<close> (\<open>main\<close>, \<open>lib.rs\<close>, \<open>telemetry.rs\<close>) joins
    these: a run of the process, from its environment to its exit status, in which requests and the
    tasks of the shutdown interleave, is a sequence of steps of the installation.

  \<^bold>\<open>What the theorems show.\<close> A property carries its number C1 to C40 in the text before it. The first
  group (C1 to C20) is what the server exists for: the log cannot be rewritten or silently cut, no request
  breaks the schema, sessions are granted only to those who prove who they are, nobody reaches the
  data of another, accounts come into being and change atomically, clients keep their trust anchor,
  and a device that follows the change feed misses nothing and converges if commits come in the
  order of the change numbers; where the code does not give that order, or lets two first owners through, the same
  theorem exhibits the run; C17 puts the process together. C21 to C26 bound guessing; C27 to C30
  cover the tools and the end of the process; the others the repositories, codecs and configuration.

  \<^bold>\<open>Bounds.\<close> There is no fuel. The wait for SQL is a partial function that is proved to return, after at
  most 243 attempts (the deadline of two minutes, delays of 100, 200, 400 and then 500 milliseconds); the
  wait for the listener terminates by its deadline, after at most 61 polls; a shutdown has at most seven
  steps. Words are kept at their width where the code computes with them (\<open>u8\<close>, \<open>u16\<close>, \<open>u32\<close>, \<open>u64\<close>);
  sizes and times elsewhere are \<open>nat\<close> or \<open>int\<close> with the caps of the code written out.

  \<^bold>\<open>Not modelled.\<close> The wire format and the transport (tonic, prost, axum, TLS), SQL itself beyond the statements
  the code sends, isolation levels beyond the interleaving theories, logging and console
  texts, the layers of the tracing subscriber (its installation succeeds or fails), the Tokio runtime beyond whether it can be built,
  the build scripts and the generated protocol code, and the integration tests. Memory, panics of the allocator and poisoned locks are outside.
\<close>

end
